(* ===== verification/Prelude.thy ===== *)
theory Prelude
  imports Main "HOL-Library.Word"
begin

text \<open>
  Shared vocabulary of the development: Rust's machine integers, panics as
  values, the loop combinators that `for` loops are translated to, and the
  generic facts about bits, lists and loops that the component theories use.

  A Rust function that can panic returns an \<open>outcome\<close>: \<open>Inl\<close> the kind of
  panic, or \<open>Inr\<close> the value. A function that returns a `Result` and can also
  panic returns a \<open>result\<close> inside an \<open>outcome\<close>. Arithmetic on `usize` and
  `u64` that the default (debug) profile checks is modelled on \<open>nat\<close> with an
  explicit overflow panic; bit manipulation, register and ring-index
  arithmetic is modelled on words of the source's width.
\<close>

unbundle bit_operations_syntax

section \<open>Machine integers\<close>

type_synonym u8 = "8 word"
type_synonym u16 = "16 word"
type_synonym u32 = "32 word"
type_synonym u64 = "64 word"

text \<open>Facts that decide single bits of words.\<close>
named_theorems bit_facts

text \<open>Facts that run the outcome monad and the loop combinators.\<close>
named_theorems run_facts

section \<open>Panics as values\<close>

text \<open>The ways a kernel function can fail to return: the panics of the source, an
  access through a raw pointer outside the memory it points into, and a loop that
  never ends.\<close>
datatype panic =
    AssertFailed
  | IndexOutOfBounds
  | Overflow
  | DivisionByZero
  | ExpectFailed
  | ExplicitPanic
  | Unimplemented
  | UndefinedBehaviour
  | Diverges

type_synonym 'a outcome = "panic + 'a"

text \<open>Rust's `Result`: an error value of the source's own, or a result.\<close>
datatype ('a, 'e) result = Ok 'a | Err 'e

definition and_then :: "'a outcome \<Rightarrow> ('a \<Rightarrow> 'b outcome) \<Rightarrow> 'b outcome" where
  "and_then m f = (case m of Inl e \<Rightarrow> Inl e | Inr x \<Rightarrow> f x)"

definition assert_that :: "bool \<Rightarrow> unit outcome" where
  "assert_that b = (if b then Inr () else Inl AssertFailed)"

definition expect :: "'a option \<Rightarrow> 'a outcome" where
  "expect m = (case m of None \<Rightarrow> Inl ExpectFailed | Some x \<Rightarrow> Inr x)"

definition index_at :: "'a list \<Rightarrow> nat \<Rightarrow> 'a outcome" where
  "index_at xs i = (if i < length xs then Inr (xs ! i) else Inl IndexOutOfBounds)"

text \<open>`usize` arithmetic as the debug profile runs it. The range test is on \<open>int\<close>
  so that it evaluates on binary numerals.\<close>

definition fits_usize :: "nat \<Rightarrow> bool" where
  "fits_usize n \<longleftrightarrow> int n < 2 ^ 64"

definition usize_add :: "nat \<Rightarrow> nat \<Rightarrow> nat outcome" where
  "usize_add a b = (if fits_usize (a + b) then Inr (a + b) else Inl Overflow)"

definition usize_sub :: "nat \<Rightarrow> nat \<Rightarrow> nat outcome" where
  "usize_sub a b = (if b \<le> a then Inr (a - b) else Inl Overflow)"

definition usize_mul :: "nat \<Rightarrow> nat \<Rightarrow> nat outcome" where
  "usize_mul a b = (if fits_usize (a * b) then Inr (a * b) else Inl Overflow)"

text \<open>Division and remainder, which panic on a zero divisor in every profile.\<close>
definition usize_div :: "nat \<Rightarrow> nat \<Rightarrow> nat outcome" where
  "usize_div a b = (if b = 0 then Inl DivisionByZero else Inr (a div b))"

definition usize_rem :: "nat \<Rightarrow> nat \<Rightarrow> nat outcome" where
  "usize_rem a b = (if b = 0 then Inl DivisionByZero else Inr (a mod b))"

text \<open>Arithmetic on `u32`.\<close>
definition fits_u32 :: "nat \<Rightarrow> bool" where
  "fits_u32 n \<longleftrightarrow> int n < 2 ^ 32"

definition u32_add :: "nat \<Rightarrow> nat \<Rightarrow> nat outcome" where
  "u32_add a b = (if fits_u32 (a + b) then Inr (a + b) else Inl Overflow)"

definition u32_mul :: "nat \<Rightarrow> nat \<Rightarrow> nat outcome" where
  "u32_mul a b = (if fits_u32 (a * b) then Inr (a * b) else Inl Overflow)"

text \<open>`usize::div_ceil`.\<close>
definition div_ceil :: "nat \<Rightarrow> nat \<Rightarrow> nat" where
  "div_ceil a b = (if a mod b = 0 then a div b else a div b + 1)"

text \<open>Slicing: `&xs[i..]` and `&xs[i..j]`.\<close>
definition slice_from :: "'a list \<Rightarrow> nat \<Rightarrow> 'a list outcome" where
  "slice_from xs i = (if i \<le> length xs then Inr (drop i xs) else Inl IndexOutOfBounds)"

definition slice_range :: "'a list \<Rightarrow> nat \<Rightarrow> nat \<Rightarrow> 'a list outcome" where
  "slice_range xs i j =
     (if i \<le> j \<and> j \<le> length xs then Inr (take (j - i) (drop i xs)) else Inl IndexOutOfBounds)"

section \<open>Loops\<close>

text \<open>What one turn of a loop body decides: to return from the enclosing
  function, or to go on with an updated state.\<close>
datatype ('r, 's) flow = Return 'r | Continue 's

text \<open>A `for` loop whose body may `return`.\<close>
fun for_loop :: "('x \<Rightarrow> 's \<Rightarrow> ('r, 's) flow) \<Rightarrow> 'x list \<Rightarrow> 's \<Rightarrow> ('r, 's) flow" where
  "for_loop body [] s = Continue s"
| "for_loop body (x # xs) s =
     (case body x s of Return r \<Rightarrow> Return r | Continue s' \<Rightarrow> for_loop body xs s')"

text \<open>A `for` loop whose body may panic.\<close>
fun for_each :: "('x \<Rightarrow> 's \<Rightarrow> 's outcome) \<Rightarrow> 'x list \<Rightarrow> 's \<Rightarrow> 's outcome" where
  "for_each body [] s = Inr s"
| "for_each body (x # xs) s = and_then (body x s) (for_each body xs)"

section \<open>Facts about outcomes and loops\<close>

lemma and_then_simps [simp, run_facts]:
  "and_then (Inl e) f = Inl e"
  "and_then (Inr x) f = f x"
  by (simp_all add: and_then_def)

lemma and_then_eq_Inr [run_facts]:
  "and_then m f = Inr y \<longleftrightarrow> (\<exists>x. m = Inr x \<and> f x = Inr y)"
  by (cases m) simp_all

lemma and_then_Inr_right [simp]: "and_then m Inr = m"
  by (cases m) simp_all

lemma and_then_assoc: "and_then (and_then m f) g = and_then m (\<lambda>x. and_then (f x) g)"
  by (cases m) simp_all

lemma and_then_cong [fundef_cong]:
  "m = m' \<Longrightarrow> (\<And>y. m' = Inr y \<Longrightarrow> f y = g y) \<Longrightarrow> and_then m f = and_then m' g"
  by (cases m') simp_all

lemma assert_that_simps [simp, run_facts]:
  "assert_that b = Inr u \<longleftrightarrow> b"
  "assert_that b = Inl e \<longleftrightarrow> \<not> b \<and> e = AssertFailed"
  by (auto simp: assert_that_def)

lemma assert_that_bool [simp, run_facts]:
  "assert_that True = Inr ()"
  "assert_that False = Inl AssertFailed"
  by (simp_all add: assert_that_def)

lemma expect_simps [simp, run_facts]:
  "expect None = Inl ExpectFailed"
  "expect (Some x) = Inr x"
  by (simp_all add: expect_def)

lemma fits_usize_iff: "fits_usize n \<longleftrightarrow> n < 2 ^ 64"
  by (simp add: fits_usize_def flip: of_nat_less_iff)

lemma usize_simps [simp, run_facts]:
  "fits_usize (a + b) \<Longrightarrow> usize_add a b = Inr (a + b)"
  "b \<le> a \<Longrightarrow> usize_sub a b = Inr (a - b)"
  "fits_usize (a * b) \<Longrightarrow> usize_mul a b = Inr (a * b)"
  "b \<noteq> 0 \<Longrightarrow> usize_div a b = Inr (a div b)"
  "b \<noteq> 0 \<Longrightarrow> usize_rem a b = Inr (a mod b)"
  by (simp_all add: usize_add_def usize_sub_def usize_mul_def usize_div_def usize_rem_def)

lemma usize_eq_Inr [run_facts]:
  "usize_add a b = Inr c \<longleftrightarrow> fits_usize (a + b) \<and> c = a + b"
  "usize_sub a b = Inr c \<longleftrightarrow> b \<le> a \<and> c = a - b"
  "usize_mul a b = Inr c \<longleftrightarrow> fits_usize (a * b) \<and> c = a * b"
  by (auto simp: usize_add_def usize_sub_def usize_mul_def)

lemma fits_u32_iff: "fits_u32 n \<longleftrightarrow> n < 2 ^ 32"
  by (simp add: fits_u32_def flip: of_nat_less_iff)

lemma u32_simps [simp, run_facts]:
  "fits_u32 (a + b) \<Longrightarrow> u32_add a b = Inr (a + b)"
  "fits_u32 (a * b) \<Longrightarrow> u32_mul a b = Inr (a * b)"
  by (simp_all add: u32_add_def u32_mul_def)

lemma slice_simps [simp, run_facts]:
  "i \<le> length xs \<Longrightarrow> slice_from xs i = Inr (drop i xs)"
  "i \<le> j \<Longrightarrow> j \<le> length xs \<Longrightarrow> slice_range xs i j = Inr (take (j - i) (drop i xs))"
  by (simp_all add: slice_from_def slice_range_def)

lemma index_at_in [simp, run_facts]: "i < length xs \<Longrightarrow> index_at xs i = Inr (xs ! i)"
  by (simp add: index_at_def)

lemma index_at_eq_Inr [run_facts]: "index_at xs i = Inr x \<longleftrightarrow> i < length xs \<and> x = xs ! i"
  by (auto simp: index_at_def)

lemma for_each_Nil_fun [simp, run_facts]: "for_each body [] = Inr"
  by (rule ext) simp

lemma for_each_append:
  "for_each body (xs @ ys) s = and_then (for_each body xs s) (for_each body ys)"
proof (induction xs arbitrary: s)
  case (Cons x xs)
  then show ?case by (cases "body x s") simp_all
qed simp

lemma for_each_map: "for_each f (map g xs) s = for_each (\<lambda>i. f (g i)) xs s"
  by (induction xs arbitrary: s) (simp_all cong: and_then_cong)

lemma for_each_cong:
  assumes "\<And>x s. x \<in> set xs \<Longrightarrow> f x s = g x s"
  shows "for_each f xs s = for_each g xs s"
  using assms
proof (induction xs arbitrary: s)
  case (Cons x xs)
  then show ?case by (cases "g x s") simp_all
qed simp

text \<open>A loop over the indices of a list is the loop over the list.\<close>
lemma for_each_indices:
  "for_each (\<lambda>i. f (xs ! (i - a))) [a..<a + length xs] s = for_each f xs s"
proof -
  have "map (\<lambda>i. xs ! (i - a)) [a..<a + length xs] = xs"
    by (rule nth_equalityI) simp_all
  then show ?thesis using for_each_map[of f "\<lambda>i. xs ! (i - a)" "[a..<a + length xs]" s] by simp
qed

text \<open>The invariant rule for a loop that may panic: if no turn panics and each
  keeps the invariant, the loop does not panic and keeps it.\<close>
lemma for_each_invariant:
  assumes "I s" "\<And>x s. x \<in> set xs \<Longrightarrow> I s \<Longrightarrow> \<exists>s'. body x s = Inr s' \<and> I s'"
  shows "\<exists>s'. for_each body xs s = Inr s' \<and> I s'"
  using assms
proof (induction xs arbitrary: s)
  case (Cons x xs)
  from Cons.prems(2)[of x s] Cons.prems(1) obtain s' where "body x s = Inr s'" "I s'" by auto
  with Cons.IH[of s'] Cons.prems(2) show ?case by simp
qed simp

text \<open>The rule for a loop over a range of indices, with an invariant that names the
  next index.\<close>
lemma for_range_invariant:
  assumes "I a s" "a \<le> b"
    and "\<And>i s. a \<le> i \<Longrightarrow> i < b \<Longrightarrow> I i s \<Longrightarrow> \<exists>s'. body i s = Inr s' \<and> I (Suc i) s'"
  shows "\<exists>s'. for_each body [a..<b] s = Inr s' \<and> I b s'"
  using assms(2,3)
proof (induction b rule: dec_induct)
  case base
  then show ?case using assms(1) by simp
next
  case (step b)
  from step.IH step.prems obtain s' where "for_each body [a..<b] s = Inr s'" "I b s'"
    by fastforce
  with step.prems[of b s'] step.hyps show ?case
    by (auto simp: for_each_append)
qed

lemma for_loop_append:
  "for_loop body (xs @ ys) s =
     (case for_loop body xs s of Return r \<Rightarrow> Return r | Continue s' \<Rightarrow> for_loop body ys s')"
  by (induction xs arbitrary: s) (simp_all split: flow.split)

text \<open>Two nested loops are one loop over the pairs of their indices.\<close>
lemma for_loop_nested:
  "for_loop (\<lambda>i. for_loop (f i) (g i)) xs s =
     for_loop (\<lambda>p. f (fst p) (snd p)) (concat (map (\<lambda>i. map (Pair i) (g i)) xs)) s"
proof -
  have inner: "for_loop (f i) ys s =
      for_loop (\<lambda>p. f (fst p) (snd p)) (map (Pair i) ys) s" for i ys s
    by (induction ys arbitrary: s) (simp_all split: flow.split)
  show ?thesis
    by (induction xs arbitrary: s) (simp_all add: inner for_loop_append split: flow.split)
qed

lemma for_loop_map: "for_loop f (map h xs) s = for_loop (\<lambda>x. f (h x)) xs s"
  by (induction xs arbitrary: s) (simp_all split: flow.split)

lemma for_loop_cong:
  assumes "\<And>x s. x \<in> set xs \<Longrightarrow> f x s = g x s"
  shows "for_loop f xs s = for_loop g xs s"
  using assms by (induction xs arbitrary: s) (simp_all split: flow.split)

section \<open>Facts about lists\<close>

lemma map_filter_cong:
  "(\<And>x. x \<in> set xs \<Longrightarrow> f x = g x) \<Longrightarrow> List.map_filter f xs = List.map_filter g xs"
  by (induction xs) (simp_all add: map_filter_simps split: option.split)

lemma map_filter_Some: "List.map_filter (\<lambda>x. Some (f x)) xs = map f xs"
  by (simp add: map_filter_def o_def)

lemma map_filter_None [simp]: "List.map_filter (\<lambda>x. None) xs = []"
  by (simp add: map_filter_def)

lemma map_filter_append [simp]:
  "List.map_filter f (xs @ ys) = List.map_filter f xs @ List.map_filter f ys"
  by (simp add: map_filter_def)

text \<open>Overwriting a stretch of a list, and what is read elsewhere afterwards.\<close>
definition overwrite :: "nat \<Rightarrow> 'a list \<Rightarrow> 'a list \<Rightarrow> 'a list" where
  "overwrite off new xs = take off xs @ new @ drop (off + length new) xs"

text \<open>A write through a raw pointer into \<open>xs\<close>, undefined behaviour beyond its end.\<close>
definition write_raw :: "nat \<Rightarrow> 'a list \<Rightarrow> 'a list \<Rightarrow> 'a list outcome" where
  "write_raw off new xs =
     (if off + length new \<le> length xs then Inr (overwrite off new xs) else Inl UndefinedBehaviour)"

lemma write_raw_in [simp, run_facts]:
  "off + length new \<le> length xs \<Longrightarrow> write_raw off new xs = Inr (overwrite off new xs)"
  by (simp add: write_raw_def)

lemma length_overwrite [simp]: "off + length new \<le> length xs \<Longrightarrow> length (overwrite off new xs) = length xs"
  by (simp add: overwrite_def)

lemma slice_overwrite_same:
  "off + length new \<le> length xs \<Longrightarrow> take (length new) (drop off (overwrite off new xs)) = new"
  by (simp add: overwrite_def)

lemma slice_overwrite_other:
  assumes "off + length new \<le> length xs" "i + n \<le> off \<or> off + length new \<le> i"
  shows "take n (drop i (overwrite off new xs)) = take n (drop i xs)"
proof -
  have "drop i (overwrite off new xs) = drop i xs" if "off + length new \<le> i"
    using assms(1) that by (simp add: overwrite_def)
  moreover have "take n (drop i (overwrite off new xs)) = take n (drop i xs)" if "i + n \<le> off"
    using assms(1) that by (simp add: overwrite_def take_drop min_absorb1 add.commute)
  ultimately show ?thesis using assms(2) by auto
qed

lemma slice_overwrite_inside:
  assumes "off + length new \<le> length xs" "i + n \<le> length new"
  shows "take n (drop (off + i) (overwrite off new xs)) = take n (drop i new)"
  using assms by (simp add: overwrite_def)

lemma drop_overwrite: "off + length new \<le> i \<Longrightarrow> off \<le> length xs \<Longrightarrow> drop i (overwrite off new xs) = drop i xs"
  by (simp add: overwrite_def)

text \<open>Two overwrites, the second starting where the first ends.\<close>
lemma overwrite_append:
  assumes "off + length as + length bs \<le> length xs"
  shows "overwrite (off + length as) bs (overwrite off as xs) = overwrite off (as @ bs) xs"
  using assms by (simp add: overwrite_def ac_simps)

text \<open>Overwriting also with what is there already.\<close>
lemma overwrite_extend:
  assumes "off + length as + n \<le> length xs"
  shows "overwrite off (as @ take n (drop (off + length as) xs)) xs = overwrite off as xs"
proof -
  have "take n (drop (off + length as) xs) @ drop (off + length as + n) xs = drop (off + length as) xs"
    by (metis append_take_drop_id drop_drop add.commute)
  then show ?thesis using assms by (simp add: overwrite_def add.assoc)
qed

lemma overwrite_id: "off + n \<le> length xs \<Longrightarrow> overwrite off (take n (drop off xs)) xs = xs"
  by (simp add: overwrite_def flip: append_assoc) (simp flip: take_add)

section \<open>Facts about bits\<close>

text \<open>The simplifier reads the mask \<open>push_bit n 1\<close>, Rust's `1 << n`, as \<open>2 ^ n\<close>.\<close>

lemma and_mask_eq_0 [bit_facts]:
  fixes w :: "'a::len word"
  shows "w AND 2 ^ n = 0 \<longleftrightarrow> \<not> bit w n"
  by (rule and_exp_eq_0_iff_not_bit)

lemma bit_or_mask [bit_facts]:
  fixes w :: "'a::len word"
  assumes "n < LENGTH('a)"
  shows "bit (w OR 2 ^ n) m \<longleftrightarrow> bit w m \<or> m = n"
  using assms by (auto simp: bit_simps)

lemma bit_and_not_mask [bit_facts]:
  fixes w :: "'a::len word"
  assumes "n < LENGTH('a)"
  shows "bit (w AND NOT (2 ^ n)) m \<longleftrightarrow> bit w m \<and> m \<noteq> n"
  using assms by (auto simp: bit_simps dest: bit_imp_le_length)

section \<open>Facts about arithmetic\<close>

lemma unat_u64_bound: "unat (w :: u64) < 2 ^ 64"
  using unsigned_less[of w] by simp

lemma unat_of_nat_u64 [simp]: "n < 2 ^ 64 \<Longrightarrow> unat (of_nat n :: u64) = n"
  by (simp add: unat_of_nat take_bit_nat_eq_self)

lemma unat_of_nat_small:
  "n < 2 ^ 8 \<Longrightarrow> unat (of_nat n :: u8) = n"
  "n < 2 ^ 16 \<Longrightarrow> unat (of_nat n :: u16) = n"
  "n < 2 ^ 32 \<Longrightarrow> unat (of_nat n :: u32) = n"
  by (simp_all add: unat_of_nat take_bit_nat_eq_self)

lemma unat_power_u64:
  assumes "k < 64"
  shows "unat ((2 :: u64) ^ k) = 2 ^ k"
proof -
  have "(2 :: nat) ^ k < 2 ^ 64" using assms by (intro power_strict_increasing) simp_all
  from unat_of_nat_u64[OF this] show ?thesis by simp
qed

lemma unat_add_u64: "unat (a :: u64) + unat b < 2 ^ 64 \<Longrightarrow> unat (a + b) = unat a + unat b"
  by (simp add: unat_plus_if_size word_size)

lemma multiples_apart: "i \<noteq> j \<Longrightarrow> j * n + n \<le> i * n \<or> i * n + n \<le> j * (n :: nat)"
proof -
  assume "i \<noteq> j"
  then have "Suc j \<le> i \<or> Suc i \<le> j" by linarith
  then have "Suc j * n \<le> i * n \<or> Suc i * n \<le> j * n" using mult_le_mono1 by blast
  then show ?thesis by (simp add: add.commute)
qed

lemma div_ceil_le_iff: "0 < b \<Longrightarrow> div_ceil a b \<le> n \<longleftrightarrow> a \<le> n * b"
proof -
  assume b: "0 < b"
  have "a div b < n \<longleftrightarrow> a < n * b"
    using b by (simp add: div_less_iff_less_mult)
  moreover have "a mod b \<noteq> 0 \<Longrightarrow> a \<noteq> n * b"
    by auto
  moreover have "a mod b = 0 \<Longrightarrow> a div b \<le> n \<longleftrightarrow> a \<le> n * b"
    using b by (metis div_mult_mod_eq add.right_neutral mult_le_cancel2)
  ultimately show ?thesis
    by (auto simp: div_ceil_def Suc_le_eq)
qed

text \<open>A walk from one element of a finite set to the next that ends at all ends within as many steps as
  the set has elements: an element that needs one more step than another is a new one.\<close>
lemma walk_bound:
  fixes ends :: "nat \<Rightarrow> 'p \<Rightarrow> bool"
  assumes "finite S" and mono: "\<And>n p. ends n p \<Longrightarrow> ends (Suc n) p"
    and step: "\<And>n p. p \<in> S \<Longrightarrow> ends (Suc (Suc n)) p \<Longrightarrow> \<not> ends (Suc n) p \<Longrightarrow> \<exists>q\<in>S. ends (Suc n) q \<and> \<not> ends n q"
    and "p \<in> S" "ends n p"
  shows "ends (card S) p"
proof -
  have le: "m \<le> k \<Longrightarrow> ends m q \<Longrightarrow> ends k q" for m k q
    by (induction rule: dec_induct) (auto intro: mono)
  have visited: "\<exists>T\<subseteq>S. card T = m \<and> (\<forall>q\<in>T. ends m q)" if "q \<in> S" "ends m q" "m = 0 \<or> \<not> ends (m - 1) q" for m q
    using that
  proof (induction m arbitrary: q rule: less_induct)
    case (less m)
    consider "m = 0" | "m = 1" | k where "m = Suc (Suc k)" by (metis One_nat_def not0_implies_Suc)
    then show ?case
    proof cases
      case 1 then show ?thesis by (intro exI[of _ "{}"]) simp
    next
      case 2 then show ?thesis using less.prems by (intro exI[of _ "{q}"]) simp
    next
      case 3
      then obtain r where r: "r \<in> S" "ends (Suc k) r" "\<not> ends k r" using step[of q k] less.prems by auto
      from less.IH[of "Suc k" r] obtain T where T: "T \<subseteq> S" "card T = Suc k" "\<forall>q\<in>T. ends (Suc k) q" using 3 r by auto
      have "q \<notin> T" using T(3) less.prems(3) 3 by auto
      then show ?thesis using T less.prems 3 finite_subset[OF T(1) assms(1)]
        by (intro exI[of _ "insert q T"]) (auto intro: mono)
    qed
  qed
  define m where "m = (LEAST m. ends m p)"
  have "ends m p" "m = 0 \<or> \<not> ends (m - 1) p"
    using LeastI[of "\<lambda>m. ends m p", OF assms(5)] not_less_Least[of "m - 1" "\<lambda>m. ends m p"] by (auto simp: m_def)
  with visited[OF assms(4)] obtain T where "T \<subseteq> S" "card T = m" by blast
  then show ?thesis using le[OF _ \<open>ends m p\<close>] card_mono[OF assms(1)] by metis
qed

end
