(* ===== verification/Ring_Buffer.thy ===== *)
theory Ring_Buffer
  imports Prelude
begin

text \<open>
  The append-only ring buffer of crates/ring_buffer/src/lib.rs, and the
  contract it gives its client, the text buffer of
  kernel/src/graphics/text_buffer.rs: the buffer is the list of its most
  recent elements, newest first, cut at the capacity. The capacity \<open>N\<close> of the
  source is the length of the array.
\<close>

section \<open>The ring buffer\<close>

record 'a ring_buffer =
  elements :: "'a option list"
  next_free :: nat

definition rb_new :: "nat \<Rightarrow> 'a ring_buffer" where
  "rb_new n = \<lparr>elements = replicate n None, next_free = 0\<rparr>"

definition rb_len :: "'a ring_buffer \<Rightarrow> nat outcome" where
  "rb_len b =
     and_then (index_at (elements b) (next_free b)) (\<lambda>e.
     Inr (if e \<noteq> None then length (elements b) else next_free b))"

definition rb_push :: "'a \<Rightarrow> 'a ring_buffer \<Rightarrow> 'a ring_buffer outcome" where
  "rb_push x b =
     and_then (index_at (elements b) (next_free b)) (\<lambda>_.
     Inr \<lparr>elements = (elements b)[next_free b := Some x],
          next_free = (next_free b + 1) mod length (elements b)\<rparr>)"

text \<open>The slot that `get` and `get_mut` compute from an index.\<close>
definition rb_slot :: "'a ring_buffer \<Rightarrow> nat \<Rightarrow> nat" where
  "rb_slot b index =
     (if index < next_free b then next_free b - index - 1
      else length (elements b) - 1 - (index - next_free b))"

definition rb_get :: "nat \<Rightarrow> 'a ring_buffer \<Rightarrow> 'a option outcome" where
  "rb_get index b =
     (if index \<ge> length (elements b) then Inr None
      else index_at (elements b) (rb_slot b index))"

text \<open>A mutable reference is the value it points to and the way to write back.\<close>
definition rb_get_mut ::
  "nat \<Rightarrow> 'a ring_buffer \<Rightarrow> ('a \<times> ('a \<Rightarrow> 'a ring_buffer)) option outcome" where
  "rb_get_mut index b =
     (if index \<ge> length (elements b) then Inr None
      else and_then (index_at (elements b) (rb_slot b index)) (\<lambda>e.
        Inr (map_option (\<lambda>x. (x, \<lambda>y. b\<lparr>elements := (elements b)[rb_slot b index := Some y]\<rparr>)) e)))"

text \<open>The iterator: the state is the buffer and the next index.\<close>
definition rb_iter_next :: "'a ring_buffer \<times> nat \<Rightarrow> ('a option \<times> ('a ring_buffer \<times> nat)) outcome" where
  "rb_iter_next it =
     (let (b, index) = it in
      and_then (rb_len b) (\<lambda>len.
      if index \<ge> len then Inr (None, it)
      else and_then (rb_get index b) (\<lambda>item. Inr (item, (b, index + 1)))))"

text \<open>What a `for` loop over the iterator visits; `fuel` bounds the turns.\<close>
fun rb_collect :: "nat \<Rightarrow> 'a ring_buffer \<times> nat \<Rightarrow> 'a list option outcome" where
  "rb_collect 0 it = Inr None"
| "rb_collect (Suc fuel) it =
     and_then (rb_iter_next it) (\<lambda>(item, it').
     case item of
       None \<Rightarrow> Inr (Some [])
     | Some x \<Rightarrow> and_then (rb_collect fuel it') (\<lambda>rest. Inr (map_option (Cons x) rest)))"

section \<open>The buffer as a bounded history\<close>

text \<open>\<open>rb_rep b h\<close>: the buffer holds the elements of \<open>h\<close>, newest first.\<close>
definition rb_rep :: "'a ring_buffer \<Rightarrow> 'a list \<Rightarrow> bool" where
  "rb_rep b h \<longleftrightarrow>
     next_free b < length (elements b) \<and> length h \<le> length (elements b) \<and>
     (length h < length (elements b) \<longrightarrow> next_free b = length h) \<and>
     (\<forall>i<length (elements b). elements b ! rb_slot b i = (if i < length h then Some (h ! i) else None))"

definition rb_history :: "'a ring_buffer \<Rightarrow> 'a list" where
  "rb_history b = List.map_filter (\<lambda>i. elements b ! rb_slot b i) [0..<length (elements b)]"

definition rb_inv :: "'a ring_buffer \<Rightarrow> bool" where
  "rb_inv b \<longleftrightarrow> rb_rep b (rb_history b)"

lemma rb_slot_less:
  "next_free b < length (elements b) \<Longrightarrow> i < length (elements b) \<Longrightarrow> rb_slot b i < length (elements b)"
  by (auto simp: rb_slot_def)

lemma rb_slot_inj:
  assumes "next_free b < length (elements b)" "i < length (elements b)" "j < length (elements b)"
  shows "rb_slot b i = rb_slot b j \<longleftrightarrow> i = j"
  using assms by (auto simp: rb_slot_def)

lemma rb_rep_history:
  assumes "rb_rep b h"
  shows "rb_history b = h"
proof -
  let ?N = "length (elements b)"
  have slots: "\<And>i. i < ?N \<Longrightarrow> elements b ! rb_slot b i = (if i < length h then Some (h ! i) else None)"
    and "length h \<le> ?N"
    using assms by (auto simp: rb_rep_def)
  then have "[0..<?N] = [0..<length h] @ [length h..<?N]"
    using upt_add_eq_append[of 0 "length h" "?N - length h"] by simp
  moreover have "List.map_filter (\<lambda>i. elements b ! rb_slot b i) [0..<length h] =
      List.map_filter (\<lambda>i. Some (h ! i)) [0..<length h]"
    using slots \<open>length h \<le> ?N\<close> by (intro map_filter_cong) auto
  moreover have "List.map_filter (\<lambda>i. elements b ! rb_slot b i) [length h..<?N] =
      List.map_filter (\<lambda>i. None) [length h..<?N]"
    using slots by (intro map_filter_cong) auto
  ultimately show ?thesis
    by (simp add: rb_history_def map_filter_Some map_nth)
qed

lemma rb_rep_inv: "rb_rep b h \<Longrightarrow> rb_inv b"
  by (simp add: rb_inv_def rb_rep_history)

lemma rb_rep_new: "0 < n \<Longrightarrow> rb_rep (rb_new n) []"
  by (simp add: rb_rep_def rb_new_def rb_slot_def)

lemma rb_rep_push:
  assumes "rb_rep b h"
  shows "\<exists>b'. rb_push x b = Inr b' \<and> length (elements b') = length (elements b) \<and>
    rb_rep b' (take (length (elements b)) (x # h))"
proof -
  let ?N = "length (elements b)" and ?nf = "next_free b"
  define b' where "b' = \<lparr>elements = (elements b)[?nf := Some x], next_free = (?nf + 1) mod ?N\<rparr>"
  have nf: "?nf < ?N" and len: "length h \<le> ?N" and full: "length h < ?N \<Longrightarrow> ?nf = length h"
    and slots: "\<And>i. i < ?N \<Longrightarrow> elements b ! rb_slot b i = (if i < length h then Some (h ! i) else None)"
    using assms by (auto simp: rb_rep_def)
  have nxt: "next_free b' = (if Suc ?nf = ?N then 0 else Suc ?nf)"
    using nf by (auto simp: b'_def mod_Suc)
  have len': "length (elements b') = ?N" by (simp add: b'_def)
  have slot0: "rb_slot b' 0 = ?nf"
    using nf by (auto simp: rb_slot_def nxt len')
  have slotS: "rb_slot b' (Suc i) = rb_slot b i" "rb_slot b i \<noteq> ?nf" if "Suc i < ?N" for i
    using nf that by (auto simp: rb_slot_def nxt len')
  have "elements b' ! rb_slot b' i =
      (if i < length (take ?N (x # h)) then Some (take ?N (x # h) ! i) else None)" if "i < ?N" for i
  proof (cases i)
    case 0
    moreover have "0 < ?N" using nf by linarith
    ultimately show ?thesis using nf slot0 by (auto simp: b'_def)
  next
    case (Suc j)
    with that nf slotS[of j] slots[of j] show ?thesis
      by (auto simp: b'_def)
  qed
  moreover have "length (take ?N (x # h)) < ?N \<longrightarrow> next_free b' = length (take ?N (x # h))"
    using full nxt by auto
  ultimately have "rb_rep b' (take ?N (x # h))"
    using nf nxt by (auto simp: rb_rep_def len')
  then show ?thesis
    using nf by (intro exI[of _ b']) (simp add: rb_push_def b'_def)
qed

lemma rb_rep_len:
  assumes "rb_rep b h"
  shows "rb_len b = Inr (length h)"
proof -
  let ?N = "length (elements b)"
  have "rb_slot b (?N - 1) = next_free b"
    using assms by (auto simp: rb_rep_def rb_slot_def)
  moreover have "?N - 1 < ?N" using assms by (auto simp: rb_rep_def)
  then have "elements b ! rb_slot b (?N - 1) =
      (if ?N - 1 < length h then Some (h ! (?N - 1)) else None)"
    using assms unfolding rb_rep_def by blast
  ultimately show ?thesis
    using assms by (auto simp: rb_len_def rb_rep_def)
qed

lemma rb_rep_get:
  assumes "rb_rep b h"
  shows "rb_get i b = Inr (if i < length h then Some (h ! i) else None)"
  using assms rb_slot_less[of b i] by (auto simp: rb_get_def rb_rep_def)

lemma rb_rep_get_mut:
  assumes "rb_rep b h"
  shows "\<exists>put. rb_get_mut i b = Inr (if i < length h then Some (h ! i, put) else None) \<and>
    (i < length h \<longrightarrow> (\<forall>y. rb_rep (put y) (h[i := y]) \<and> length (elements (put y)) = length (elements b)))"
proof -
  let ?put = "\<lambda>y. b\<lparr>elements := (elements b)[rb_slot b i := Some y]\<rparr>"
  have "rb_rep (?put y) (h[i := y])" if "i < length h" for y
  proof -
    have "rb_slot (?put y) j = rb_slot b j" for j by (simp add: rb_slot_def)
    then show ?thesis
      using assms that rb_slot_inj[of b i] rb_slot_less[of b i]
      by (auto simp: rb_rep_def nth_list_update)
  qed
  moreover have "rb_get_mut i b = Inr (if i < length h then Some (h ! i, ?put) else None)"
    using assms rb_slot_less[of b i] by (auto simp: rb_get_mut_def rb_rep_def)
  ultimately show ?thesis by (intro exI[of _ ?put]) simp
qed

lemma rb_rep_collect:
  assumes "rb_rep b h" "i \<le> length h" "length h < i + fuel"
  shows "rb_collect fuel (b, i) = Inr (Some (drop i h))"
  using assms(2,3)
proof (induction fuel arbitrary: i)
  case (Suc fuel)
  then show ?case
    using assms(1) by (auto simp: rb_iter_next_def rb_rep_len rb_rep_get Cons_nth_drop_Suc)
qed (simp)

section \<open>The contract\<close>

text \<open>A buffer that remembers the most recent elements, newest first.\<close>
locale history_buffer =
  fixes inv :: "'b \<Rightarrow> bool"
    and cap :: "'b \<Rightarrow> nat"
    and hist :: "'b \<Rightarrow> 'a list"
    and push :: "'a \<Rightarrow> 'b \<Rightarrow> 'b outcome"
    and get :: "nat \<Rightarrow> 'b \<Rightarrow> 'a option outcome"
    and get_mut :: "nat \<Rightarrow> 'b \<Rightarrow> ('a \<times> ('a \<Rightarrow> 'b)) option outcome"
  assumes hist_bounded: "inv b \<Longrightarrow> length (hist b) \<le> cap b"
    and cap_pos: "inv b \<Longrightarrow> 0 < cap b"
    and push_law: "inv b \<Longrightarrow>
      \<exists>b'. push x b = Inr b' \<and> inv b' \<and> cap b' = cap b \<and> hist b' = take (cap b) (x # hist b)"
    and get_law: "inv b \<Longrightarrow> get i b = Inr (if i < length (hist b) then Some (hist b ! i) else None)"
    and get_mut_law: "inv b \<Longrightarrow>
      \<exists>put. get_mut i b = Inr (if i < length (hist b) then Some (hist b ! i, put) else None) \<and>
        (i < length (hist b) \<longrightarrow>
          (\<forall>y. inv (put y) \<and> cap (put y) = cap b \<and> hist (put y) = (hist b)[i := y]))"
begin

lemma push_all:
  assumes "inv b"
  shows "\<exists>b'. for_each push xs b = Inr b' \<and> inv b' \<and> cap b' = cap b \<and>
    hist b' = take (cap b) (rev xs @ hist b)"
  using assms
proof (induction xs arbitrary: b)
  case Nil
  then show ?case using hist_bounded by simp
next
  case (Cons x xs)
  from push_law[OF Cons.prems, of x] obtain b1 where
    b1: "push x b = Inr b1" "inv b1" "cap b1 = cap b" "hist b1 = take (cap b) (x # hist b)"
    by blast
  have "take (cap b) (rev xs @ hist b1) = take (cap b) (rev (x # xs) @ hist b)"
    by (cases "cap b - length xs") (simp_all add: b1(4) min_def)
  with Cons.IH[OF b1(2)] b1 show ?case by auto
qed

end

interpretation rb: history_buffer rb_inv "\<lambda>b. length (elements b)" rb_history rb_push rb_get rb_get_mut
proof
  fix b :: "'a ring_buffer" and x i
  assume "rb_inv b"
  then have rep: "rb_rep b (rb_history b)" by (simp add: rb_inv_def)
  show "length (rb_history b) \<le> length (elements b)" "0 < length (elements b)"
    using rep by (auto simp: rb_rep_def)
  show "\<exists>b'. rb_push x b = Inr b' \<and> rb_inv b' \<and> length (elements b') = length (elements b) \<and>
      rb_history b' = take (length (elements b)) (x # rb_history b)"
    using rb_rep_push[OF rep, of x] rb_rep_inv rb_rep_history by metis
  show "rb_get i b = Inr (if i < length (rb_history b) then Some (rb_history b ! i) else None)"
    by (rule rb_rep_get[OF rep])
  show "\<exists>put. rb_get_mut i b =
      Inr (if i < length (rb_history b) then Some (rb_history b ! i, put) else None) \<and>
      (i < length (rb_history b) \<longrightarrow> (\<forall>y. rb_inv (put y) \<and> length (elements (put y)) = length (elements b) \<and>
         rb_history (put y) = (rb_history b)[i := y]))"
    using rb_rep_get_mut[OF rep, of i] rb_rep_inv rb_rep_history by metis
qed

lemma rb_new_inv:
  assumes "0 < n"
  shows "rb_inv (rb_new n)" "rb_history (rb_new n) = []" "length (elements (rb_new n)) = n"
  using rb_rep_inv[OF rb_rep_new[OF assms]] rb_rep_history[OF rb_rep_new[OF assms]]
  by (simp_all, simp add: rb_new_def)

section \<open>Properties\<close>

text \<open>C21: A ring buffer of positive capacity \<open>n\<close> to which the elements \<open>xs\<close> were
  pushed holds exactly the last \<open>n\<close> of them: pushing never panics, the length
  is the number held, the element at index \<open>i\<close> is the \<open>i\<close>-th newest, and the
  iterator visits them from newest to oldest and ends.\<close>
theorem ring_buffer_history:
  assumes "0 < n"
  shows "\<exists>b. for_each rb_push xs (rb_new n) = Inr b \<and>
    (let h = take n (rev xs) in
     rb_len b = Inr (length h) \<and>
     (\<forall>i. rb_get i b = Inr (if i < length h then Some (h ! i) else None)) \<and>
     rb_collect (Suc n) (b, 0) = Inr (Some h))"
proof -
  from rb.push_all[OF rb_new_inv(1)[OF assms], of xs] obtain b where
    b: "for_each rb_push xs (rb_new n) = Inr b" "rb_inv b" "length (elements b) = n"
      "rb_history b = take n (rev xs)"
    by (auto simp: rb_new_inv[OF assms])
  then have rep: "rb_rep b (take n (rev xs))" by (simp add: rb_inv_def)
  have "rb_collect (Suc n) (b, 0) = Inr (Some (drop 0 (take n (rev xs))))"
    by (rule rb_rep_collect[OF rep]) simp_all
  with b(1) rb_rep_len[OF rep] rb_rep_get[OF rep] show ?thesis
    unfolding Let_def by simp
qed

theorem ring_buffer_history_witness:
  "0 < (3::nat) \<and>
   (\<exists>b. for_each rb_push [1, 2, 3, 4::nat] (rb_new 3) = Inr b \<and> rb_len b = Inr 3 \<and>
      rb_collect 4 (b, 0) = Inr (Some [4, 3, 2]))"
  using ring_buffer_history[of 3 "[1, 2, 3, 4::nat]"] by (simp add: Let_def numeral_eq_Suc) blast

end
