(* ===== verification/Text_Buffer.thy ===== *)
theory Text_Buffer
  imports Ring_Buffer
begin

text \<open>
  The text console: the cursor-based text buffer of
  kernel/src/graphics/text_buffer.rs over the ring buffer, and the framebuffer
  of kernel/src/graphics/framebuffer.rs that it is flushed to. The memory
  behind the framebuffer's raw pointer is a list of bytes, and a write outside
  it is \<open>UndefinedBehaviour\<close>. The glyph table of font.rs is an argument of the
  drawing functions, since what is shown holds for every table of 13-byte
  glyphs.
\<close>

section \<open>The framebuffer\<close>

record argb =
  blue :: u8
  green :: u8
  red :: u8
  alpha :: u8

definition argb_bytes :: "argb \<Rightarrow> u8 list" where
  "argb_bytes c = [blue c, green c, red c, alpha c]"

definition argb_white :: argb where
  "argb_white = \<lparr>blue = 0xFF, green = 0xFF, red = 0xFF, alpha = 0xFF\<rparr>"

definition argb_black :: argb where
  "argb_black = \<lparr>blue = 0x00, green = 0x00, red = 0x00, alpha = 0xFF\<rparr>"

record framebuffer =
  fb_memory :: "u8 list"
  width_pixels :: nat
  height_pixels :: nat
  pitch :: nat

text \<open>The fields of the bootloader's framebuffer description that are read.\<close>
record limine_framebuffer =
  limine_address :: "u8 list option"
  limine_width :: nat
  limine_height :: nat
  limine_pitch :: nat
  bpp :: nat
  red_mask_size :: nat
  green_mask_size :: nat
  blue_mask_size :: nat
  red_mask_shift :: nat
  green_mask_shift :: nat
  blue_mask_shift :: nat

definition from_limine_framebuffer :: "limine_framebuffer \<Rightarrow> (framebuffer, string) result outcome" where
  "from_limine_framebuffer fb =
     (if bpp fb \<noteq> 32 then Inr (Err ''limine framebuffer must be 32 bits per pixel'')
      else if red_mask_size fb \<noteq> 8 then Inr (Err ''limine framebuffer must use 8 bits for red'')
      else if green_mask_size fb \<noteq> 8 then Inr (Err ''limine framebuffer must use 8 bits for green'')
      else if blue_mask_size fb \<noteq> 8 then Inr (Err ''limine framebuffer must use 8 bits for blue'')
      else if red_mask_shift fb \<noteq> 16 then Inr (Err ''limine framebuffer must shift red mask by 16 bits'')
      else if green_mask_shift fb \<noteq> 8 then Inr (Err ''limine framebuffer must shift green mask by 8 bits'')
      else if blue_mask_shift fb \<noteq> 0 then Inr (Err ''limine framebuffer must shift blue mask by 0 bits'')
      else and_then (expect (limine_address fb)) (\<lambda>mem.
        Inr (Ok \<lparr>fb_memory = mem, width_pixels = limine_width fb,
                 height_pixels = limine_height fb, pitch = limine_pitch fb\<rparr>)))"

text \<open>A write through a pointer to the framebuffer's memory.\<close>
definition write_at :: "nat \<Rightarrow> u8 list \<Rightarrow> u8 list \<Rightarrow> u8 list outcome" where
  "write_at off bs mem =
     (if off + length bs \<le> length mem
      then Inr (take off mem @ bs @ drop (off + length bs) mem)
      else Inl UndefinedBehaviour)"

definition draw_pixel :: "nat \<Rightarrow> nat \<Rightarrow> argb \<Rightarrow> framebuffer \<Rightarrow> framebuffer outcome" where
  "draw_pixel x y color fb =
     and_then (assert_that (x < width_pixels fb)) (\<lambda>_.
     and_then (assert_that (y < height_pixels fb)) (\<lambda>_.
     and_then (usize_mul y (pitch fb)) (\<lambda>row.
     and_then (usize_mul x 4) (\<lambda>col.
     and_then (usize_add row col) (\<lambda>pixel_offset.
     and_then (write_at pixel_offset (argb_bytes color) (fb_memory fb)) (\<lambda>mem.
     Inr (fb\<lparr>fb_memory := mem\<rparr>)))))))"

text \<open>`chunks(n)` of a bit slice.\<close>
function chunks :: "nat \<Rightarrow> 'a list \<Rightarrow> 'a list list" where
  "chunks n xs = (if n = 0 \<or> xs = [] then [] else take n xs # chunks n (drop n xs))"
  by pat_completeness auto
termination
  by (relation "measure (\<lambda>(n, xs). length xs)") auto

declare chunks.simps [simp del]

definition draw_bitmap ::
  "nat \<Rightarrow> nat \<Rightarrow> bool list \<Rightarrow> nat \<Rightarrow> argb \<Rightarrow> argb \<Rightarrow> framebuffer \<Rightarrow> framebuffer outcome" where
  "draw_bitmap x y bm bits_per_row foreground background fb =
     and_then (assert_that (x < width_pixels fb)) (\<lambda>_.
     and_then (assert_that (y < height_pixels fb)) (\<lambda>_.
     for_each (\<lambda>(j, row). for_each (\<lambda>(i, b).
         draw_pixel (x + i) (y + j) (if b then foreground else background))
         (enumerate 0 row))
       (enumerate 0 (chunks bits_per_row bm)) fb))"

definition clear_framebuffer :: "framebuffer \<Rightarrow> framebuffer outcome" where
  "clear_framebuffer fb =
     and_then (usize_mul (pitch fb) (height_pixels fb)) (\<lambda>n.
     and_then (write_at 0 (replicate n 0) (fb_memory fb)) (\<lambda>mem.
     Inr (fb\<lparr>fb_memory := mem\<rparr>)))"

section \<open>The text buffer\<close>

record color_char =
  char_byte :: u8
  color :: argb

text \<open>\<open>line_width\<close> is the const parameter \<open>W\<close> of the source.\<close>
record text_buffer =
  buffer :: "color_char list ring_buffer"
  cursor :: nat
  line_width :: nat

definition tb_new :: "nat \<Rightarrow> nat \<Rightarrow> text_buffer" where
  "tb_new n w = \<lparr>buffer = rb_new n, cursor = 0, line_width = w\<rparr>"

definition blank_line :: "nat \<Rightarrow> color_char list" where
  "blank_line w = replicate w \<lparr>char_byte = 0x00, color = argb_white\<rparr>"

definition new_line :: "text_buffer \<Rightarrow> text_buffer outcome" where
  "new_line t =
     and_then (rb_push (blank_line (line_width t)) (buffer t)) (\<lambda>b.
     Inr (t\<lparr>buffer := b, cursor := 0\<rparr>))"

text \<open>The last part of `write_char`: the character goes into the current line.\<close>
definition put_in_line ::
  "color_char \<Rightarrow> text_buffer \<Rightarrow> color_char list \<times> (color_char list \<Rightarrow> color_char list ring_buffer) \<Rightarrow>
   text_buffer outcome" where
  "put_in_line c t ref =
     (let (line, put) = ref in
      and_then (index_at line (cursor t)) (\<lambda>_.
      Inr (t\<lparr>buffer := put (line[cursor t := c]), cursor := cursor t + 1\<rparr>)))"

definition write_char :: "color_char \<Rightarrow> text_buffer \<Rightarrow> text_buffer outcome" where
  "write_char c t =
     (if char_byte c = 10 then new_line t
      else
        and_then (if cursor t = line_width t then new_line t else Inr t) (\<lambda>t.
        and_then (rb_get_mut 0 (buffer t)) (\<lambda>m.
        case m of
          Some ref \<Rightarrow> put_in_line c t ref
        | None \<Rightarrow>
            and_then (new_line t) (\<lambda>t.
            and_then (rb_get_mut 0 (buffer t)) (\<lambda>m.
            and_then (expect m) (\<lambda>ref.
            put_in_line c t ref))))))"

definition write_str :: "u8 list \<Rightarrow> text_buffer \<Rightarrow> text_buffer outcome" where
  "write_str s = for_each (\<lambda>b. write_char \<lparr>char_byte = b, color = argb_white\<rparr>) s"

section \<open>Drawing\<close>

definition font_width_pixels :: nat where
  "font_width_pixels = 8"

definition font_height_pixels :: nat where
  "font_height_pixels = 13"

definition font_start_char_ascii_code :: u8 where
  "font_start_char_ascii_code = 32"

definition font_space_character_index :: nat where
  "font_space_character_index = 0"

text \<open>`as_bits::<Msb0>()`.\<close>
definition bits_msb0 :: "u8 list \<Rightarrow> bool list" where
  "bits_msb0 bs = concat (map (\<lambda>b. map (\<lambda>i. bit b (7 - i)) [0..<8]) bs)"

definition draw_char ::
  "u8 list list \<Rightarrow> nat \<Rightarrow> nat \<Rightarrow> color_char \<Rightarrow> framebuffer \<Rightarrow> framebuffer outcome" where
  "draw_char font x y c fb =
     (let index = (if font_start_char_ascii_code \<le> char_byte c
                   then unat (char_byte c - font_start_char_ascii_code)
                   else font_space_character_index) in
      if index < length font then
        draw_bitmap x y (bits_msb0 (font ! index)) font_width_pixels (color c) argb_black fb
      else Inr fb)"

text \<open>The inner loop of `flush`, over the characters of a line.\<close>
fun flush_line ::
  "u8 list list \<Rightarrow> nat \<Rightarrow> nat \<Rightarrow> color_char list \<Rightarrow> framebuffer \<Rightarrow> framebuffer outcome" where
  "flush_line font x pixel_y [] fb = Inr fb"
| "flush_line font x pixel_y (c # cs) fb =
     (if x + font_width_pixels > width_pixels fb then Inr fb
      else and_then (draw_char font x pixel_y c fb) (\<lambda>fb.
        flush_line font (x + font_width_pixels + 1) pixel_y cs fb))"

text \<open>The outer loop of `flush`, over the lines from the newest.\<close>
fun flush_lines ::
  "u8 list list \<Rightarrow> nat \<Rightarrow> color_char list list \<Rightarrow> framebuffer \<Rightarrow> framebuffer outcome" where
  "flush_lines font pixel_y [] fb = Inr fb"
| "flush_lines font pixel_y (l # ls) fb =
     (if pixel_y < font_height_pixels + 1 then Inr fb
      else
        let pixel_y = pixel_y - (font_height_pixels + 1) in
        and_then (flush_line font 1 pixel_y l fb) (\<lambda>fb.
        flush_lines font pixel_y ls fb))"

definition flush :: "u8 list list \<Rightarrow> text_buffer \<Rightarrow> framebuffer \<Rightarrow> framebuffer outcome" where
  "flush font t fb =
     and_then (clear_framebuffer fb) (\<lambda>fb.
     and_then (rb_collect (Suc (length (elements (buffer t)))) (buffer t, 0)) (\<lambda>ls.
     and_then (expect ls) (\<lambda>ls.
     flush_lines font (height_pixels fb) ls fb)))"

section \<open>Text behaves like an unbounded sheet\<close>

text \<open>The specification: all lines ever written, newest first, and the cursor.\<close>
definition sheet_char :: "nat \<Rightarrow> color_char \<Rightarrow> color_char list list \<times> nat \<Rightarrow> color_char list list \<times> nat" where
  "sheet_char w c s =
     (let (ls, cur) = s in
      if char_byte c = 10 then (blank_line w # ls, 0)
      else
        let (ls, cur) = (if cur = w \<or> ls = [] then (blank_line w # ls, 0) else (ls, cur))
        in ((hd ls)[cur := c] # tl ls, cur + 1))"

definition sheet_str :: "nat \<Rightarrow> u8 list \<Rightarrow> color_char list list \<times> nat \<Rightarrow> color_char list list \<times> nat" where
  "sheet_str w s = fold (\<lambda>b. sheet_char w \<lparr>char_byte = b, color = argb_white\<rparr>) s"

text \<open>The text buffer shows the newest lines of the sheet.\<close>
definition shows_sheet :: "text_buffer \<Rightarrow> color_char list list \<times> nat \<Rightarrow> bool" where
  "shows_sheet t s \<longleftrightarrow> rb_inv (buffer t) \<and> 0 < line_width t \<and>
     rb_history (buffer t) = take (length (elements (buffer t))) (fst s) \<and>
     cursor t = snd s \<and> snd s \<le> line_width t \<and> (\<forall>l\<in>set (fst s). length l = line_width t) \<and>
     (fst s = [] \<longrightarrow> snd s = 0)"

lemma shows_sheet_new: "0 < n \<Longrightarrow> 0 < w \<Longrightarrow> shows_sheet (tb_new n w) ([], 0)"
  by (simp add: shows_sheet_def tb_new_def rb_new_inv)

lemma shows_sheet_new_line:
  assumes "shows_sheet t (ls, cur)"
  shows "\<exists>t'. new_line t = Inr t' \<and> shows_sheet t' (blank_line (line_width t) # ls, 0) \<and>
    line_width t' = line_width t \<and> length (elements (buffer t')) = length (elements (buffer t))"
proof -
  let ?N = "length (elements (buffer t))"
  have inv: "rb_inv (buffer t)" and hist: "rb_history (buffer t) = take ?N ls"
    using assms by (simp_all add: shows_sheet_def)
  from rb.push_law[OF inv, of "blank_line (line_width t)"] obtain b where
    b: "rb_push (blank_line (line_width t)) (buffer t) = Inr b" "rb_inv b" "length (elements b) = ?N"
      "rb_history b = take ?N (blank_line (line_width t) # take ?N ls)"
    unfolding hist by blast
  have "take ?N (blank_line (line_width t) # take ?N ls) = take ?N (blank_line (line_width t) # ls)"
    using rb.cap_pos[OF inv] by (cases ?N) (simp_all add: min_def)
  with assms b show ?thesis
    by (auto simp: new_line_def shows_sheet_def blank_line_def)
qed

lemma shows_sheet_get_mut:
  assumes "shows_sheet t (ls, cur)"
  shows "ls = [] \<Longrightarrow> rb_get_mut 0 (buffer t) = Inr None"
    and "ls \<noteq> [] \<Longrightarrow> cur < line_width t \<Longrightarrow> \<exists>ref t'. rb_get_mut 0 (buffer t) = Inr (Some ref) \<and>
      put_in_line c t ref = Inr t' \<and> shows_sheet t' ((hd ls)[cur := c] # tl ls, cur + 1) \<and>
      line_width t' = line_width t \<and> length (elements (buffer t')) = length (elements (buffer t))"
proof -
  let ?N = "length (elements (buffer t))"
  have inv: "rb_inv (buffer t)" and hist: "rb_history (buffer t) = take ?N ls" and cur: "cursor t = cur"
    using assms by (simp_all add: shows_sheet_def)
  have "0 < ?N" by (rule rb.cap_pos[OF inv])
  note mut = rb.get_mut_law[OF inv, of 0, unfolded hist]
  show "rb_get_mut 0 (buffer t) = Inr None" if "ls = []"
    using mut that by simp
  show "\<exists>ref t'. rb_get_mut 0 (buffer t) = Inr (Some ref) \<and>
      put_in_line c t ref = Inr t' \<and> shows_sheet t' ((hd ls)[cur := c] # tl ls, cur + 1) \<and>
      line_width t' = line_width t \<and> length (elements (buffer t')) = ?N"
    if "ls \<noteq> []" "cur < line_width t"
  proof -
    have hd: "take ?N ls = hd ls # take (?N - 1) (tl ls)" "length (hd ls) = line_width t"
      using \<open>0 < ?N\<close> that(1) assms by (cases ls; simp add: take_Cons' shows_sheet_def)+
    with mut \<open>0 < ?N\<close> that(1) obtain put where put: "rb_get_mut 0 (buffer t) = Inr (Some (hd ls, put))"
      "\<And>y. rb_inv (put y)" "\<And>y. length (elements (put y)) = ?N"
      "\<And>y. rb_history (put y) = y # take (?N - 1) (tl ls)"
      by auto
    let ?t' = "t\<lparr>buffer := put ((hd ls)[cur := c]), cursor := cur + 1\<rparr>"
    have "put_in_line c t (hd ls, put) = Inr ?t'"
      using hd that(2) cur by (simp add: put_in_line_def)
    moreover have "shows_sheet ?t' ((hd ls)[cur := c] # tl ls, cur + 1)"
      using assms hd that put \<open>0 < ?N\<close> list.set_sel(2)[OF that(1)]
      by (auto simp: shows_sheet_def take_Cons')
    ultimately show ?thesis using put(1,3) by auto
  qed
qed

lemma write_char_shows_sheet:
  assumes "shows_sheet t s"
  shows "\<exists>t'. write_char c t = Inr t' \<and> shows_sheet t' (sheet_char (line_width t) c s) \<and>
    line_width t' = line_width t \<and> length (elements (buffer t')) = length (elements (buffer t))"
proof -
  obtain ls cur where s: "s = (ls, cur)" by fastforce
  note t = assms[unfolded s]
  have cur: "cursor t = cur" "cur \<le> line_width t" "0 < line_width t" "ls = [] \<Longrightarrow> cur = 0"
    using t by (simp_all add: shows_sheet_def)
  from shows_sheet_new_line[OF t] obtain t1 where
    t1: "new_line t = Inr t1" "shows_sheet t1 (blank_line (line_width t) # ls, 0)"
      "line_width t1 = line_width t" "length (elements (buffer t1)) = length (elements (buffer t))"
    by blast
  from shows_sheet_get_mut(2)[OF t1(2), of c] t1(3) cur(3) obtain ref t2 where
    t2: "rb_get_mut 0 (buffer t1) = Inr (Some ref)" "put_in_line c t1 ref = Inr t2"
      "shows_sheet t2 ((blank_line (line_width t))[0 := c] # ls, 1)"
      "line_width t2 = line_width t" "length (elements (buffer t2)) = length (elements (buffer t))"
    using t1(4) by auto
  consider (nl) "char_byte c = 10" | (wrap) "char_byte c \<noteq> 10" "cur = line_width t"
    | (first) "char_byte c \<noteq> 10" "cur < line_width t" "ls = []"
    | (more) "char_byte c \<noteq> 10" "cur < line_width t" "ls \<noteq> []"
    using cur(2) by fastforce
  then show ?thesis
  proof cases
    case more
    with shows_sheet_get_mut(2)[OF t, of c] cur(1) s show ?thesis
      by (auto simp: write_char_def sheet_char_def)
  qed (use t1 t2 cur s shows_sheet_get_mut(1)[OF t] in \<open>auto simp: write_char_def sheet_char_def\<close>)
qed

section \<open>Flushing stays inside the framebuffer\<close>

definition fb_ok :: "framebuffer \<Rightarrow> bool" where
  "fb_ok fb \<longleftrightarrow> 4 * width_pixels fb \<le> pitch fb \<and> fits_usize (pitch fb * height_pixels fb) \<and>
     length (fb_memory fb) = pitch fb * height_pixels fb"

text \<open>Same screen: the dimensions are kept.\<close>
definition fb_same :: "framebuffer \<Rightarrow> framebuffer \<Rightarrow> bool" where
  "fb_same fb fb' \<longleftrightarrow> width_pixels fb' = width_pixels fb \<and> height_pixels fb' = height_pixels fb \<and>
     pitch fb' = pitch fb"

lemma write_at_length: "write_at off bs mem = Inr mem' \<Longrightarrow> length mem' = length mem"
  by (auto simp: write_at_def split: if_splits)

lemma draw_pixel_safe:
  assumes "fb_ok fb" "x < width_pixels fb" "y < height_pixels fb"
  shows "\<exists>fb'. draw_pixel x y c fb = Inr fb' \<and> fb_ok fb' \<and> fb_same fb fb'"
proof -
  let ?off = "y * pitch fb + x * 4"
  have "(y + 1) * pitch fb \<le> height_pixels fb * pitch fb" using assms(3) by (intro mult_le_mono1) simp
  then have "y * pitch fb + pitch fb \<le> pitch fb * height_pixels fb" by (simp add: algebra_simps)
  moreover have "x * 4 + 4 \<le> pitch fb" using assms by (simp add: fb_ok_def)
  ultimately have "?off + 4 \<le> pitch fb * height_pixels fb" by linarith
  moreover from this assms(1) have "fits_usize (y * pitch fb)" "fits_usize (x * 4)" "fits_usize ?off"
    by (auto simp: fb_ok_def fits_usize_iff)
  ultimately show ?thesis
    using assms by (auto simp: draw_pixel_def write_at_def argb_bytes_def fb_ok_def fb_same_def)
qed

lemma chunks_length: "0 < n \<Longrightarrow> length xs \<le> k * n \<Longrightarrow> length (chunks n xs) \<le> k"
proof (induction k arbitrary: xs)
  case 0
  then show ?case by (simp add: chunks.simps)
next
  case (Suc k)
  then show ?case by (subst chunks.simps) (auto simp: algebra_simps)
qed

lemma chunks_row_length: "row \<in> set (chunks n xs) \<Longrightarrow> length row \<le> n"
proof (induction n xs rule: chunks.induct)
  case (1 n xs)
  then show ?case by (subst (asm) chunks.simps) (auto split: if_splits)
qed

lemma draw_bitmap_safe:
  assumes "fb_ok fb" "0 < n" "0 < k" "length bm \<le> k * n"
    and "x + n \<le> width_pixels fb" "y + k \<le> height_pixels fb"
  shows "\<exists>fb'. draw_bitmap x y bm n fg bg fb = Inr fb' \<and> fb_ok fb' \<and> fb_same fb fb'"
proof -
  let ?I = "\<lambda>fb'. fb_ok fb' \<and> fb_same fb fb'"
  have "\<exists>fb'. for_each (\<lambda>(j, row). for_each (\<lambda>(i, b). draw_pixel (x + i) (y + j) (if b then fg else bg))
         (enumerate 0 row)) (enumerate 0 (chunks n bm)) fb = Inr fb' \<and> ?I fb'"
  proof (rule for_each_invariant)
    show "?I fb" using assms(1) by (simp add: fb_same_def)
    fix jr fb1 assume jr: "jr \<in> set (enumerate 0 (chunks n bm))" and I: "?I fb1"
    obtain j row where [simp]: "jr = (j, row)" by fastforce
    from jr have j: "j < k" and row: "length row \<le> n"
      using chunks_length[OF assms(2,4)] by (auto simp: in_set_enumerate_eq intro!: chunks_row_length nth_mem)
    have "\<exists>fb'. for_each (\<lambda>(i, b). draw_pixel (x + i) (y + j) (if b then fg else bg)) (enumerate 0 row) fb1
        = Inr fb' \<and> ?I fb'"
    proof (rule for_each_invariant)
      fix ib fb2 assume "ib \<in> set (enumerate 0 row)" and I: "?I fb2"
      moreover obtain i b where [simp]: "ib = (i, b)" by fastforce
      ultimately have "x + i < width_pixels fb2" "y + j < height_pixels fb2"
        using row j assms(5,6) by (auto simp: in_set_enumerate_eq fb_same_def)
      from draw_pixel_safe[OF _ this, of "if b then fg else bg"] I
      show "\<exists>fb'. (case ib of (i, b) \<Rightarrow> draw_pixel (x + i) (y + j) (if b then fg else bg)) fb2 = Inr fb' \<and> ?I fb'"
        by (auto simp: fb_same_def)
    qed (use I in simp)
    then show "\<exists>fb'. (case jr of (j, row) \<Rightarrow> for_each (\<lambda>(i, b). draw_pixel (x + i) (y + j)
        (if b then fg else bg)) (enumerate 0 row)) fb1 = Inr fb' \<and> ?I fb'" by simp
  qed
  moreover have "x < width_pixels fb" "y < height_pixels fb" using assms by auto
  ultimately show ?thesis by (simp add: draw_bitmap_def)
qed

definition font_ok :: "u8 list list \<Rightarrow> bool" where
  "font_ok font \<longleftrightarrow> (\<forall>g\<in>set font. length g = font_height_pixels)"

lemma length_bits_msb0: "length (bits_msb0 bs) = 8 * length bs"
  by (induction bs) (simp_all add: bits_msb0_def)

lemma draw_char_safe:
  assumes "fb_ok fb" "font_ok font" "x + 8 \<le> width_pixels fb" "y + 13 \<le> height_pixels fb"
  shows "\<exists>fb'. draw_char font x y c fb = Inr fb' \<and> fb_ok fb' \<and> fb_same fb fb'"
proof -
  have "length (bits_msb0 (font ! i)) \<le> 13 * 8" if "i < length font" for i
    using assms(2) that by (simp add: font_ok_def length_bits_msb0 font_height_pixels_def)
  with assms draw_bitmap_safe[OF assms(1), of 8 13 _ x y "color c" argb_black] show ?thesis
    by (simp add: draw_char_def Let_def font_width_pixels_def fb_same_def)
qed

lemma fb_same_trans: "fb_same a b \<Longrightarrow> fb_same b c \<Longrightarrow> fb_same a c"
  by (simp add: fb_same_def)

lemma flush_line_safe:
  assumes "fb_ok fb" "font_ok font" "y + 13 \<le> height_pixels fb"
  shows "\<exists>fb'. flush_line font x y cs fb = Inr fb' \<and> fb_ok fb' \<and> fb_same fb fb'"
  using assms(1,3)
proof (induction cs arbitrary: x fb)
  case (Cons c cs)
  show ?case
  proof (cases "x + font_width_pixels > width_pixels fb")
    case True
    with Cons.prems show ?thesis by (simp add: fb_same_def)
  next
    case False
    then have "x + 8 \<le> width_pixels fb" by (simp add: font_width_pixels_def)
    from draw_char_safe[OF Cons.prems(1) assms(2) this Cons.prems(2)] obtain fb1 where
      fb1: "draw_char font x y c fb = Inr fb1" "fb_ok fb1" "fb_same fb fb1" by blast
    moreover from Cons.prems(2) fb1(3) have "y + 13 \<le> height_pixels fb1" by (simp add: fb_same_def)
    ultimately show ?thesis
      using False Cons.IH[of fb1 "x + font_width_pixels + 1"] fb_same_trans[OF fb1(3)] by auto
  qed
qed (simp add: fb_same_def)

lemma flush_lines_safe:
  assumes "fb_ok fb" "font_ok font" "y \<le> height_pixels fb"
  shows "\<exists>fb'. flush_lines font y ls fb = Inr fb' \<and> fb_ok fb' \<and> fb_same fb fb'"
  using assms(1,3)
proof (induction ls arbitrary: y fb)
  case (Cons l ls)
  show ?case
  proof (cases "y < font_height_pixels + 1")
    case True
    with Cons.prems show ?thesis by (simp add: fb_same_def)
  next
    case False
    let ?y = "y - (font_height_pixels + 1)"
    from False Cons.prems(2) have "?y + 13 \<le> height_pixels fb" by (simp add: font_height_pixels_def)
    from flush_line_safe[OF Cons.prems(1) assms(2) this, of 1 l] obtain fb1 where
      fb1: "flush_line font 1 ?y l fb = Inr fb1" "fb_ok fb1" "fb_same fb fb1" by blast
    moreover from Cons.prems(2) fb1(3) have "?y \<le> height_pixels fb1" by (simp add: fb_same_def)
    ultimately show ?thesis
      using False Cons.IH[of fb1 ?y] fb_same_trans[OF fb1(3)] by (auto simp: Let_def)
  qed
qed (simp add: fb_same_def)

section \<open>Properties\<close>

text \<open>C20: Writing any string to a fresh text buffer of \<open>n\<close> lines of positive width
  \<open>w\<close> never panics, and the buffer then shows the newest \<open>n\<close> lines, cursor
  included, of an unbounded sheet on which the same text was written with
  line wrapping.\<close>
theorem write_str_refines_sheet:
  assumes "0 < n" "0 < w"
  shows "\<exists>t. write_str s (tb_new n w) = Inr t \<and>
    rb_history (buffer t) = take n (fst (sheet_str w s ([], 0))) \<and>
    cursor t = snd (sheet_str w s ([], 0)) \<and> cursor t \<le> w"
proof -
  have "\<exists>t'. write_str s t = Inr t' \<and> shows_sheet t' (sheet_str w s st) \<and>
      line_width t' = w \<and> length (elements (buffer t')) = n"
    if "shows_sheet t st" "line_width t = w" "length (elements (buffer t)) = n" for t st
    using that
  proof (induction s arbitrary: t st)
    case (Cons b s)
    let ?c = "\<lparr>char_byte = b, color = argb_white\<rparr>"
    from write_char_shows_sheet[OF Cons.prems(1), of ?c] Cons.prems(2,3) obtain t1 where
      t1: "write_char ?c t = Inr t1" "shows_sheet t1 (sheet_char w ?c st)" "line_width t1 = w"
        "length (elements (buffer t1)) = n" by auto
    from Cons.IH[OF this(2-4)] t1(1) show ?case
      by (simp add: write_str_def sheet_str_def)
  qed (simp add: write_str_def sheet_str_def)
  from this[OF shows_sheet_new[OF assms]] rb_new_inv(3)[OF assms(1)] show ?thesis
    by (fastforce simp: shows_sheet_def tb_new_def)
qed

theorem write_str_refines_sheet_witness:
  "0 < (2::nat) \<and> 0 < (4::nat) \<and>
   (\<exists>t. write_str [49, 50, 51, 52, 53, 10] (tb_new 2 4) = Inr t \<and> cursor t \<le> 4)"
  using write_str_refines_sheet[of 2 4 "[49, 50, 51, 52, 53, 10]"] by auto

text \<open>C26: Flushing draws inside the framebuffer: on a framebuffer whose rows are at
  least four bytes per pixel long, whatever its dimensions and whatever the
  text, none of the bounds assertions fires and no byte outside its memory is
  written.\<close>
theorem flush_memory_safe:
  assumes "fb_ok fb" "font_ok font" "rb_inv (buffer t)"
  shows "\<exists>fb'. flush font t fb = Inr fb' \<and> fb_ok fb' \<and> fb_same fb fb'"
proof -
  obtain fb1 where fb1: "clear_framebuffer fb = Inr fb1" "fb_ok fb1" "fb_same fb fb1"
    using assms(1) by (auto simp: clear_framebuffer_def fb_ok_def fb_same_def write_at_def)
  have rep: "rb_rep (buffer t) (rb_history (buffer t))" using assms(3) by (simp add: rb_inv_def)
  have "rb_collect (Suc (length (elements (buffer t)))) (buffer t, 0) = Inr (Some (rb_history (buffer t)))"
    using rb_rep_collect[OF rep, of 0 "Suc (length (elements (buffer t)))"] rb.hist_bounded[OF assms(3)]
    by (simp del: rb_collect.simps)
  with fb1 flush_lines_safe[OF fb1(2) assms(2) order_refl, of "rb_history (buffer t)"] show ?thesis
    by (auto simp: flush_def fb_same_def)
qed

theorem flush_memory_safe_witness:
  "let fb = \<lparr>fb_memory = replicate 1280 0, width_pixels = 16, height_pixels = 20, pitch = 64\<rparr>;
       font = [replicate 13 0x18]; t = tb_new 2 4 in
   fb_ok fb \<and> font_ok font \<and> rb_inv (buffer t) \<and> (\<exists>fb'. flush font t fb = Inr fb' \<and> fb_ok fb')"
proof -
  let ?fb = "\<lparr>fb_memory = replicate 1280 0, width_pixels = 16, height_pixels = 20, pitch = 64\<rparr>"
  have ok: "fb_ok ?fb" "font_ok [replicate 13 0x18]" "rb_inv (buffer (tb_new 2 4))"
    by (simp_all add: fb_ok_def font_ok_def fits_usize_def font_height_pixels_def tb_new_def rb_new_inv)
  with flush_memory_safe[OF ok] show ?thesis unfolding Let_def by blast
qed

end
