(* ===== verification/Page_Allocator.thy ===== *)
theory Page_Allocator
  imports Prelude
begin

text \<open>
  The contract between the page allocator of crates/bitmap-alloc and its
  clients, the physical-memory allocator (kernel/src/memory/physical.rs) and
  the kernel-stack allocator (kernel/src/sched/stack.rs). The abstract state
  is a set of used pages; allocation is first-fit. What the clients need is
  proved once, from the contract: blocks handed out are fresh and disjoint,
  freeing undoes allocating, and no sequence of well-behaved requests panics.
\<close>

section \<open>First-fit allocation on a set of pages\<close>

text \<open>A run of \<open>n\<close> pages that starts at \<open>s\<close> and avoids the used ones.\<close>
definition free_run :: "nat set \<Rightarrow> nat \<Rightarrow> nat \<Rightarrow> nat \<Rightarrow> bool" where
  "free_run used npages n s \<longleftrightarrow> s + n \<le> npages \<and> {s..<s + n} \<inter> used = {}"

text \<open>The least start of such a run.\<close>
definition first_fit :: "nat set \<Rightarrow> nat \<Rightarrow> nat \<Rightarrow> nat option" where
  "first_fit used npages n =
     (if \<exists>s. free_run used npages n s then Some (LEAST s. free_run used npages n s) else None)"

text \<open>The pages of a block, a pair of its first page and its length.\<close>
definition block_pages :: "nat \<times> nat \<Rightarrow> nat set" where
  "block_pages b = {fst b..<fst b + snd b}"

definition blocks_pages :: "(nat \<times> nat) list \<Rightarrow> nat set" where
  "blocks_pages bs = (\<Union>b\<in>set bs. block_pages b)"

definition disjoint_blocks :: "(nat \<times> nat) list \<Rightarrow> bool" where
  "disjoint_blocks = sorted_wrt (\<lambda>b c. block_pages b \<inter> block_pages c = {})"

lemma first_fit_SomeI:
  assumes "free_run used npages n r" "\<And>t. t < r \<Longrightarrow> \<not> free_run used npages n t"
  shows "first_fit used npages n = Some r"
  using assms by (auto simp: first_fit_def not_less[symmetric] intro!: Least_equality)

lemma first_fit_NoneI: "(\<And>t. \<not> free_run used npages n t) \<Longrightarrow> first_fit used npages n = None"
  by (simp add: first_fit_def)

lemma first_fit_SomeD:
  assumes "first_fit used npages n = Some r"
  shows "free_run used npages n r" "t < r \<Longrightarrow> \<not> free_run used npages n t"
  using assms LeastI_ex[of "free_run used npages n"] not_less_Least[of t "free_run used npages n"]
  by (auto simp: first_fit_def split: if_splits)

lemma first_fit_NoneD: "first_fit used npages n = None \<Longrightarrow> \<not> free_run used npages n t"
  by (auto simp: first_fit_def split: if_splits)

text \<open>A single page is found at the least free page.\<close>
lemma first_fit_one_below:
  "first_fit used npages 1 = Some r \<Longrightarrow> {..<r} \<subseteq> used"
  using first_fit_SomeD[of used npages 1 r] by (fastforce simp: free_run_def)

lemma block_pages_simp [simp]: "block_pages (p, n) = {p..<p + n}"
  by (simp add: block_pages_def)

lemma blocks_pages_simps [simp]:
  "blocks_pages [] = {}"
  "blocks_pages (b # bs) = block_pages b \<union> blocks_pages bs"
  by (simp_all add: blocks_pages_def)

lemma block_pages_subset: "b \<in> set bs \<Longrightarrow> block_pages b \<subseteq> blocks_pages bs"
  by (auto simp: blocks_pages_def)

lemma disjoint_blocks_Nil [simp]: "disjoint_blocks []"
  by (simp add: disjoint_blocks_def)

lemma disjoint_blocks_Cons:
  "disjoint_blocks (b # bs) \<longleftrightarrow> disjoint_blocks bs \<and> block_pages b \<inter> blocks_pages bs = {}"
  by (auto simp: disjoint_blocks_def blocks_pages_def)

section \<open>Sequences of requests\<close>

text \<open>The requests a client makes: a block of a number of pages, or the return
  of one of the blocks it holds, chosen by an index as the allocator's own
  randomised test does.\<close>
datatype alloc_or_free = Alloc nat | Free nat

definition run_request ::
  "(nat \<Rightarrow> 's \<Rightarrow> (nat option \<times> 's) outcome) \<Rightarrow> (nat \<Rightarrow> nat \<Rightarrow> 's \<Rightarrow> 's outcome) \<Rightarrow>
   alloc_or_free \<Rightarrow> 's \<times> (nat \<times> nat) list \<Rightarrow> ('s \<times> (nat \<times> nat) list) outcome" where
  "run_request alloc free r s =
     (let (a, live) = s in
      case r of
        Alloc n \<Rightarrow> and_then (alloc n a) (\<lambda>(start, a').
          Inr (a', case start of None \<Rightarrow> live | Some p \<Rightarrow> (p, n) # live))
      | Free raw_idx \<Rightarrow>
          if live = [] then Inr (a, live)
          else let i = raw_idx mod length live; (p, n) = live ! i in
            and_then (free p n a) (\<lambda>a'. Inr (a', take i live @ drop (Suc i) live)))"

definition free_all ::
  "(nat \<Rightarrow> nat \<Rightarrow> 's \<Rightarrow> 's outcome) \<Rightarrow> (nat \<times> nat) list \<Rightarrow> 's \<Rightarrow> 's outcome" where
  "free_all free = for_each (\<lambda>(p, n). free p n)"

fun request_positive :: "alloc_or_free \<Rightarrow> bool" where
  "request_positive (Alloc n) = (0 < n)"
| "request_positive (Free _) = True"

lemma disjoint_blocks_remove:
  assumes "disjoint_blocks live" "i < length live"
  shows "disjoint_blocks (take i live @ drop (Suc i) live)"
    and "blocks_pages (take i live @ drop (Suc i) live) =
         blocks_pages live - block_pages (live ! i)"
  using assms
proof (induction live arbitrary: i)
  case (Cons b live)
  { case 1
    then show ?case using Cons.IH
      by (cases i) (auto simp: disjoint_blocks_Cons)
  next
    case 2
    show ?case
    proof (cases i)
      case 0
      with 2 show ?thesis by (simp add: disjoint_blocks_Cons) blast
    next
      case (Suc j)
      with 2 have "block_pages (live ! j) \<subseteq> blocks_pages live" "block_pages b \<inter> blocks_pages live = {}"
        by (simp_all add: disjoint_blocks_Cons block_pages_subset)
      then have "block_pages b \<union> (blocks_pages live - block_pages (live ! j)) =
          (block_pages b \<union> blocks_pages live) - block_pages (live ! j)"
        by blast
      with Cons.IH(2)[of j] 2 Suc show ?thesis
        by (simp add: disjoint_blocks_Cons)
    qed
  }
qed simp_all

section \<open>The contract\<close>

locale page_allocator =
  fixes inv :: "'s \<Rightarrow> bool"
    and used :: "'s \<Rightarrow> nat set"
    and npages :: "'s \<Rightarrow> nat"
    and alloc :: "nat \<Rightarrow> 's \<Rightarrow> (nat option \<times> 's) outcome"
    and free :: "nat \<Rightarrow> nat \<Rightarrow> 's \<Rightarrow> 's outcome"
  assumes used_bounded: "inv a \<Longrightarrow> used a \<subseteq> {..<npages a}"
    and alloc_first_fit: "inv a \<Longrightarrow> 0 < n \<Longrightarrow>
      \<exists>a'. alloc n a = Inr (first_fit (used a) (npages a) n, a') \<and> inv a' \<and>
        npages a' = npages a \<and>
        used a' = (case first_fit (used a) (npages a) n of
                     None \<Rightarrow> used a | Some s \<Rightarrow> used a \<union> {s..<s + n})"
    and free_used: "inv a \<Longrightarrow> 0 < n \<Longrightarrow> {s..<s + n} \<subseteq> used a \<Longrightarrow>
      \<exists>a'. free s n a = Inr a' \<and> inv a' \<and> npages a' = npages a \<and> used a' = used a - {s..<s + n}"
begin

lemma alloc_returns:
  assumes "inv a" "0 < n" "alloc n a = Inr (r, a')"
  shows "first_fit (used a) (npages a) n = r" "inv a'" "npages a' = npages a"
    "used a' = (case r of None \<Rightarrow> used a | Some s \<Rightarrow> used a \<union> {s..<s + n})"
proof -
  from alloc_first_fit[OF assms(1,2)] assms(3)
  have "first_fit (used a) (npages a) n = r \<and> inv a' \<and> npages a' = npages a \<and>
    used a' = (case first_fit (used a) (npages a) n of None \<Rightarrow> used a | Some s \<Rightarrow> used a \<union> {s..<s + n})"
    by (elim exE conjE) simp
  then show "first_fit (used a) (npages a) n = r" "inv a'" "npages a' = npages a"
    "used a' = (case r of None \<Rightarrow> used a | Some s \<Rightarrow> used a \<union> {s..<s + n})"
    by blast+
qed

lemma alloc_result:
  assumes "inv a" "0 < n" "alloc n a = Inr (Some s, a')"
  shows "free_run (used a) (npages a) n s" "used a' = used a \<union> {s..<s + n}"
  using alloc_returns[OF assms] first_fit_SomeD(1)[of "used a" "npages a" n s] by simp_all

lemma alloc_complete:
  assumes "inv a" "0 < n" "alloc n a = Inr (None, a')"
  shows "\<not> free_run (used a) (npages a) n t" "used a' = used a"
  using alloc_returns[OF assms] first_fit_NoneD[of "used a" "npages a" n t] by simp_all

text \<open>Freeing a block just allocated gives the used pages back as they were.\<close>
lemma alloc_free_restores:
  assumes "inv a" "0 < n" "alloc n a = Inr (Some s, a')"
  shows "\<exists>a''. free s n a' = Inr a'' \<and> inv a'' \<and> used a'' = used a \<and> npages a'' = npages a"
proof -
  note r = alloc_returns[OF assms] alloc_result[OF assms]
  have "{s..<s + n} \<subseteq> used a'" and "used a \<union> {s..<s + n} - {s..<s + n} = used a"
    using r(5,6) by (auto simp: free_run_def)
  with free_used[OF r(2) assms(2)] r show ?thesis by metis
qed

text \<open>The state a client that started from \<open>a\<close> and holds \<open>live\<close> can be in.\<close>
definition client_inv :: "'s \<Rightarrow> 's \<times> (nat \<times> nat) list \<Rightarrow> bool" where
  "client_inv a s \<longleftrightarrow> inv (fst s) \<and> npages (fst s) = npages a \<and>
     disjoint_blocks (snd s) \<and> (\<forall>b\<in>set (snd s). 0 < snd b) \<and>
     blocks_pages (snd s) \<inter> used a = {} \<and> used (fst s) = used a \<union> blocks_pages (snd s)"

lemma client_invD:
  assumes "client_inv a (c, live)"
  shows "inv c" "npages c = npages a" "disjoint_blocks live" "\<And>p n. (p, n) \<in> set live \<Longrightarrow> 0 < n"
    "blocks_pages live \<inter> used a = {}" "used c = used a \<union> blocks_pages live"
  using assms by (force simp: client_inv_def)+

lemma client_inv_alloc:
  assumes "client_inv a (c, live)" "0 < n"
  shows "\<exists>s'. run_request alloc free (Alloc n) (c, live) = Inr s' \<and> client_inv a s'"
proof -
  note c = client_invD[OF assms(1)]
  from alloc_first_fit[OF c(1) assms(2)] obtain b where
    b: "alloc n c = Inr (first_fit (used c) (npages c) n, b)" "inv b" "npages b = npages c"
      "used b = (case first_fit (used c) (npages c) n of
         None \<Rightarrow> used c | Some p \<Rightarrow> used c \<union> {p..<p + n})"
    by blast
  show ?thesis
  proof (cases "first_fit (used c) (npages c) n")
    case None
    with b assms(1) show ?thesis
      by (simp add: run_request_def client_inv_def)
  next
    case (Some p)
    from first_fit_SomeD(1)[OF Some] have "{p..<p + n} \<inter> used c = {}"
      by (simp add: free_run_def)
    then have "{p..<p + n} \<inter> blocks_pages live = {}" "({p..<p + n} \<union> blocks_pages live) \<inter> used a = {}"
      using c(5,6) by blast+
    moreover have "used b = used a \<union> ({p..<p + n} \<union> blocks_pages live)"
      using b(4) Some c(6) by auto
    ultimately have "client_inv a (b, (p, n) # live)"
      using assms b(2,3) by (simp add: client_inv_def disjoint_blocks_Cons)
    with Some b(1) show ?thesis
      by (simp add: run_request_def)
  qed
qed

lemma client_inv_free:
  assumes "client_inv a (c, live)"
  shows "\<exists>s'. run_request alloc free (Free raw_idx) (c, live) = Inr s' \<and> client_inv a s'"
proof (cases "live = []")
  case True
  with assms show ?thesis by (simp add: run_request_def)
next
  case False
  note c = client_invD[OF assms]
  define i where "i = raw_idx mod length live"
  with False have i: "i < length live" by simp
  obtain p n where pn: "live ! i = (p, n)" by fastforce
  with i have mem: "(p, n) \<in> set live" by (metis nth_mem)
  from block_pages_subset[OF mem] have sub: "{p..<p + n} \<subseteq> blocks_pages live" by simp
  with c(6) have "{p..<p + n} \<subseteq> used c" by blast
  from free_used[OF c(1) c(4)[OF mem] this] obtain b where
    b: "free p n c = Inr b" "inv b" "npages b = npages c" "used b = used c - {p..<p + n}"
    by blast
  let ?live = "take i live @ drop (Suc i) live"
  have live: "disjoint_blocks ?live" "blocks_pages ?live = blocks_pages live - {p..<p + n}"
    using disjoint_blocks_remove[OF c(3) i] pn by simp_all
  have "used b = used a \<union> blocks_pages ?live"
    using b(4) c(5,6) sub unfolding live(2) by blast
  moreover have "blocks_pages ?live \<inter> used a = {}"
    using c(5) unfolding live(2) by blast
  moreover have "\<forall>x\<in>set ?live. 0 < snd x"
    using c(4) set_take_subset[of i live] set_drop_subset[of "Suc i" live] by fastforce
  ultimately have "client_inv a (b, ?live)"
    using b(2,3) c(2) live(1) by (simp add: client_inv_def)
  with False b(1) pn show ?thesis
    by (simp add: run_request_def Let_def i_def)
qed

lemma run_request_client_inv:
  assumes "client_inv a s" "request_positive r"
  shows "\<exists>s'. run_request alloc free r s = Inr s' \<and> client_inv a s'"
  using assms client_inv_alloc client_inv_free by (cases s; cases r) simp_all

lemma run_requests_client_inv:
  assumes "client_inv a s" "list_all request_positive rs"
  shows "\<exists>s'. for_each (run_request alloc free) rs s = Inr s' \<and> client_inv a s'"
  using assms
proof (induction rs arbitrary: s)
  case (Cons r rs)
  then obtain s' where "run_request alloc free r s = Inr s'" "client_inv a s'"
    using run_request_client_inv by (metis list.pred_inject(2))
  with Cons show ?case by simp
qed simp

lemma free_all_client_inv:
  assumes "client_inv a (b, live)"
  shows "\<exists>b'. free_all free live b = Inr b' \<and> inv b' \<and> npages b' = npages a \<and> used b' = used a"
  using assms
proof (induction live arbitrary: b)
  case Nil
  then show ?case by (simp add: free_all_def client_inv_def)
next
  case (Cons x live)
  obtain p n where x: "x = (p, n)" by fastforce
  with Cons.prems have "0 < n" "{p..<p + n} \<subseteq> used b" "inv b"
    by (auto simp: client_inv_def)
  then obtain b' where b': "free p n b = Inr b'" "inv b'" "npages b' = npages b"
      "used b' = used b - {p..<p + n}"
    using free_used[of b n p] by auto
  have "used b = used a \<union> ({p..<p + n} \<union> blocks_pages live)" "{p..<p + n} \<inter> used a = {}"
      "{p..<p + n} \<inter> blocks_pages live = {}"
    using Cons.prems x by (auto simp: client_inv_def disjoint_blocks_Cons)
  then have "used b' = used a \<union> blocks_pages live"
    unfolding b'(4) by blast
  with Cons.prems b' x have "client_inv a (b', live)"
    by (simp add: client_inv_def disjoint_blocks_Cons Int_Un_distrib2)
  from Cons.IH[OF this] b'(1) x show ?case by (simp add: free_all_def)
qed

text \<open>Any sequence of requests runs without a panic, the blocks held are
  disjoint from each other and from what was used before, and returning them
  all leaves exactly the pages used at the start.\<close>
lemma requests_safe:
  assumes "inv a" "list_all request_positive rs"
  shows "\<exists>b live b'. for_each (run_request alloc free) rs (a, []) = Inr (b, live) \<and>
    disjoint_blocks live \<and> blocks_pages live \<inter> used a = {} \<and>
    used b = used a \<union> blocks_pages live \<and>
    free_all free live b = Inr b' \<and> used b' = used a \<and> inv b' \<and> npages b' = npages a"
proof -
  have "client_inv a (a, [])"
    using assms(1) by (simp add: client_inv_def)
  from run_requests_client_inv[OF this assms(2)] obtain b live where
    run: "for_each (run_request alloc free) rs (a, []) = Inr (b, live)" "client_inv a (b, live)"
    by auto
  from free_all_client_inv[OF run(2)] obtain b' where
    "free_all free live b = Inr b'" "inv b'" "npages b' = npages a" "used b' = used a"
    by auto
  with run show ?thesis
    by (intro exI[of _ b] exI[of _ live] exI[of _ b']) (simp add: client_inv_def)
qed

end

end
