(* ===== verification/Bitmap_Alloc.thy ===== *)
theory Bitmap_Alloc
  imports Page_Allocator
begin

text \<open>
  The page allocator of crates/bitmap-alloc/src/alloc.rs: one bit of a slice of
  `u64` chunks per page, a first-fit search, and a hint that lets single-page
  searches start where the last one ended. The theory relates the chunks to
  the set of used pages, shows that the search with its hint is exactly
  first-fit, and provides the laws of the \<open>page_allocator\<close> interface that the
  physical-memory and kernel-stack allocators rely on.
\<close>

section \<open>The allocator\<close>

record bitmap_allocator =
  bitmap :: "u64 list"
  last_single_page_allocation :: "nat option"

definition bits_per_chunk :: nat where
  "bits_per_chunk = 64"

definition new_allocator :: "u64 list \<Rightarrow> bitmap_allocator" where
  "new_allocator bm = \<lparr>bitmap = bm, last_single_page_allocation = None\<rparr>"

definition mark_used :: "nat \<Rightarrow> bitmap_allocator \<Rightarrow> bitmap_allocator outcome" where
  "mark_used page a =
     (let index = page div bits_per_chunk; b = page mod bits_per_chunk in
      and_then (index_at (bitmap a) index) (\<lambda>chunk.
      and_then (assert_that (chunk AND push_bit b 1 = 0)) (\<lambda>_.
      Inr (a\<lparr>bitmap := (bitmap a)[index := chunk OR push_bit b 1]\<rparr>))))"

definition mark_unused :: "nat \<Rightarrow> bitmap_allocator \<Rightarrow> bitmap_allocator outcome" where
  "mark_unused page a =
     (let index = page div bits_per_chunk; b = page mod bits_per_chunk in
      and_then (index_at (bitmap a) index) (\<lambda>chunk.
      and_then (assert_that (chunk AND push_bit b 1 \<noteq> 0)) (\<lambda>_.
      Inr (a\<lparr>bitmap := (bitmap a)[index := chunk AND NOT (push_bit b 1)]\<rparr>))))"

text \<open>One turn of the inner loop of the search, at bit \<open>b\<close> of chunk \<open>i\<close>; the
  loop state is the pair of `start` and `current_len`.\<close>
definition search_bit ::
  "nat \<Rightarrow> u64 \<Rightarrow> nat \<Rightarrow> nat \<Rightarrow> nat \<times> nat \<Rightarrow> (nat, nat \<times> nat) flow" where
  "search_bit num_pages byte i b s =
     (let (start, current_len) = s in
      if byte AND push_bit b 1 = 0 then
        (if current_len + 1 = num_pages then Return start
         else Continue (start, current_len + 1))
      else Continue (i * bits_per_chunk + b + 1, 0))"

definition find_next_contiguous :: "nat \<Rightarrow> bitmap_allocator \<Rightarrow> nat option" where
  "find_next_contiguous num_pages a =
     (let start = (if num_pages = 1
                   then (case last_single_page_allocation a of None \<Rightarrow> 0 | Some l \<Rightarrow> l)
                   else 0);
          byte_idx = start div bits_per_chunk
      in case for_loop
           (\<lambda>i. for_loop (search_bit num_pages (bitmap a ! i) i) [0..<bits_per_chunk])
           [byte_idx..<length (bitmap a)] (start, 0)
         of Return s \<Rightarrow> Some s | Continue _ \<Rightarrow> None)"

definition allocate_contiguous ::
  "nat \<Rightarrow> bitmap_allocator \<Rightarrow> (nat option \<times> bitmap_allocator) outcome" where
  "allocate_contiguous num_pages a =
     and_then (assert_that (num_pages > 0)) (\<lambda>_.
     let start = find_next_contiguous num_pages a;
         a' = (if num_pages = 1 then a\<lparr>last_single_page_allocation := start\<rparr> else a)
     in case start of
          None \<Rightarrow> Inr (None, a')
        | Some s \<Rightarrow>
            and_then (usize_add s num_pages) (\<lambda>end_page.
            and_then (for_each mark_used [s..<end_page] a') (\<lambda>a''.
            Inr (Some s, a''))))"

definition free_contiguous ::
  "nat \<Rightarrow> nat \<Rightarrow> bitmap_allocator \<Rightarrow> bitmap_allocator outcome" where
  "free_contiguous start_page num_pages a =
     and_then (assert_that (num_pages > 0)) (\<lambda>_.
     and_then (usize_add start_page num_pages) (\<lambda>end_page.
     and_then (for_each mark_unused [start_page..<end_page] a) (\<lambda>a'.
     Inr (case last_single_page_allocation a' of
            None \<Rightarrow> a'
          | Some l \<Rightarrow> if start_page < l
                      then a'\<lparr>last_single_page_allocation := Some start_page\<rparr>
                      else a'))))"

section \<open>The set of used pages\<close>

definition total_pages :: "bitmap_allocator \<Rightarrow> nat" where
  "total_pages a = bits_per_chunk * length (bitmap a)"

definition page_used :: "bitmap_allocator \<Rightarrow> nat \<Rightarrow> bool" where
  "page_used a p \<longleftrightarrow> p < total_pages a \<and>
     bit (bitmap a ! (p div bits_per_chunk)) (p mod bits_per_chunk)"

definition used_pages :: "bitmap_allocator \<Rightarrow> nat set" where
  "used_pages a = {p. page_used a p}"

text \<open>The invariant behind the search hint: nothing below the hint is free. The
  slice is small enough for its bytes to be addressable.\<close>
definition alloc_inv :: "bitmap_allocator \<Rightarrow> bool" where
  "alloc_inv a \<longleftrightarrow> fits_usize (total_pages a) \<and>
     (\<forall>l. last_single_page_allocation a = Some l \<longrightarrow> {..<l} \<subseteq> used_pages a)"

lemma total_pages_update [simp]:
  "total_pages (a\<lparr>last_single_page_allocation := l\<rparr>) = total_pages a"
  by (simp add: total_pages_def)

lemma used_pages_update [simp]:
  "used_pages (a\<lparr>last_single_page_allocation := l\<rparr>) = used_pages a"
  by (simp add: used_pages_def page_used_def)

lemma used_pages_bounded: "used_pages a \<subseteq> {..<total_pages a}"
  by (auto simp: used_pages_def page_used_def)

lemma chunk_bounds:
  assumes "p < total_pages a"
  shows "p div bits_per_chunk < length (bitmap a)" "p mod bits_per_chunk < 64"
  using assms by (auto simp: total_pages_def bits_per_chunk_def less_mult_imp_div_less mult.commute)

lemma chunk_bit:
  assumes "p < total_pages a"
  shows "bitmap a ! (p div bits_per_chunk) AND push_bit (p mod bits_per_chunk) 1 = 0
     \<longleftrightarrow> p \<notin> used_pages a"
  using assms by (simp add: used_pages_def page_used_def bit_facts)

lemma total_pages_chunk_update [simp]:
  "total_pages (a\<lparr>bitmap := (bitmap a)[i := c]\<rparr>) = total_pages a"
  by (simp add: total_pages_def)

text \<open>The pages of a bitmap whose chunk \<open>p div 64\<close> changed in bit \<open>p mod 64\<close>.\<close>
lemma page_used_chunk_update:
  assumes "p < total_pages a"
    and "\<And>m. m < 64 \<Longrightarrow> m \<noteq> p mod bits_per_chunk \<Longrightarrow>
           bit c m \<longleftrightarrow> bit (bitmap a ! (p div bits_per_chunk)) m"
  shows "page_used (a\<lparr>bitmap := (bitmap a)[p div bits_per_chunk := c]\<rparr>) q \<longleftrightarrow>
           (if q = p then bit c (p mod bits_per_chunk) else page_used a q)"
proof (cases "q div bits_per_chunk = p div bits_per_chunk")
  case True
  then have "q = p \<longleftrightarrow> q mod bits_per_chunk = p mod bits_per_chunk"
    by (metis div_mult_mod_eq)
  moreover have "q mod bits_per_chunk < 64"
    by (simp add: bits_per_chunk_def)
  ultimately show ?thesis
    using True assms chunk_bounds[OF assms(1)] by (auto simp: page_used_def)
next
  case False
  then show ?thesis by (auto simp: page_used_def)
qed

lemma mark_used_free:
  assumes "p < total_pages a" "p \<notin> used_pages a"
  shows "\<exists>a'. mark_used p a = Inr a' \<and> used_pages a' = insert p (used_pages a) \<and>
    total_pages a' = total_pages a \<and>
    last_single_page_allocation a' = last_single_page_allocation a"
  using assms chunk_bounds[OF assms(1)] chunk_bit[OF assms(1)]
  by (auto simp: mark_used_def Let_def used_pages_def page_used_chunk_update bit_facts)

lemma mark_unused_used:
  assumes "p \<in> used_pages a"
  shows "\<exists>a'. mark_unused p a = Inr a' \<and> used_pages a' = used_pages a - {p} \<and>
    total_pages a' = total_pages a \<and>
    last_single_page_allocation a' = last_single_page_allocation a"
proof -
  from assms used_pages_bounded have "p < total_pages a" by auto
  with assms chunk_bounds[OF this] chunk_bit[OF this] show ?thesis
    by (auto simp: mark_unused_def Let_def used_pages_def page_used_chunk_update bit_facts
        split: if_splits)
qed

text \<open>Marking a range of pages, as allocation, freeing and bootstrap do.\<close>

lemma mark_used_range:
  assumes "{s..<e} \<inter> used_pages a = {}" "e \<le> total_pages a" "s \<le> e"
  shows "\<exists>a'. for_each mark_used [s..<e] a = Inr a' \<and> used_pages a' = used_pages a \<union> {s..<e} \<and>
    total_pages a' = total_pages a \<and>
    last_single_page_allocation a' = last_single_page_allocation a"
proof (rule for_range_invariant[where I = "\<lambda>i a'. used_pages a' = used_pages a \<union> {s..<i} \<and>
    total_pages a' = total_pages a \<and>
    last_single_page_allocation a' = last_single_page_allocation a"])
  fix i b
  assume "s \<le> i" "i < e" and I: "used_pages b = used_pages a \<union> {s..<i} \<and>
    total_pages b = total_pages a \<and>
    last_single_page_allocation b = last_single_page_allocation a"
  then have "i < total_pages b" "i \<notin> used_pages b" using assms by auto
  from mark_used_free[OF this] I \<open>s \<le> i\<close>
  show "\<exists>b'. mark_used i b = Inr b' \<and> used_pages b' = used_pages a \<union> {s..<Suc i} \<and>
    total_pages b' = total_pages a \<and>
    last_single_page_allocation b' = last_single_page_allocation a"
    by (force simp: atLeastLessThanSuc)
qed (use assms in auto)

lemma mark_unused_range:
  assumes "{s..<e} \<subseteq> used_pages a" "s \<le> e"
  shows "\<exists>a'. for_each mark_unused [s..<e] a = Inr a' \<and> used_pages a' = used_pages a - {s..<e} \<and>
    total_pages a' = total_pages a \<and>
    last_single_page_allocation a' = last_single_page_allocation a"
proof (rule for_range_invariant[where I = "\<lambda>i a'. used_pages a' = used_pages a - {s..<i} \<and>
    total_pages a' = total_pages a \<and>
    last_single_page_allocation a' = last_single_page_allocation a"])
  fix i b
  assume "s \<le> i" "i < e" and I: "used_pages b = used_pages a - {s..<i} \<and>
    total_pages b = total_pages a \<and>
    last_single_page_allocation b = last_single_page_allocation a"
  then have "i \<in> used_pages b" using assms by auto
  from mark_unused_used[OF this] I \<open>s \<le> i\<close>
  show "\<exists>b'. mark_unused i b = Inr b' \<and> used_pages b' = used_pages a - {s..<Suc i} \<and>
    total_pages b' = total_pages a \<and>
    last_single_page_allocation b' = last_single_page_allocation a"
    by (force simp: atLeastLessThanSuc)
qed (use assms in auto)

section \<open>The search is first-fit\<close>

text \<open>The two nested loops over chunks and bits are one loop over pages.\<close>
definition search_page ::
  "nat set \<Rightarrow> nat \<Rightarrow> nat \<Rightarrow> nat \<times> nat \<Rightarrow> (nat, nat \<times> nat) flow" where
  "search_page used n p s =
     (if p \<notin> used then
        (if snd s + 1 = n then Return (fst s) else Continue (fst s, snd s + 1))
      else Continue (p + 1, 0))"

lemma chunk_page_pairs:
  "concat (map (\<lambda>i. map (Pair i) [0..<c]) [b..<n]) =
     map (\<lambda>p. (p div c, p mod c)) [b * c..<n * c]"
proof (induction n)
  case (Suc n)
  show ?case
  proof (cases "b \<le> n")
    case True
    then have "b * c \<le> n * c" by simp
    then have "[b * c..<Suc n * c] = [b * c..<n * c] @ map (\<lambda>j. n * c + j) [0..<c]"
      using upt_add_eq_append[of "b * c" "n * c" c] by (simp add: add.commute map_add_upt)
    moreover have "map (\<lambda>p. (p div c, p mod c)) (map (\<lambda>j. n * c + j) [0..<c]) = map (Pair n) [0..<c]"
      by simp
    ultimately show ?thesis
      using Suc True by (simp del: upt_Suc add: upt_Suc_append)
  next
    case False
    then show ?thesis
      by (simp add: Suc_leI mult_le_mono1 del: mult_Suc)
  qed
qed simp

lemma search_by_page:
  "for_loop (\<lambda>i. for_loop (search_bit n (bitmap a ! i) i) [0..<bits_per_chunk])
      [b..<length (bitmap a)] s =
   for_loop (search_page (used_pages a) n) [b * bits_per_chunk..<total_pages a] s"
proof -
  have "search_bit n (bitmap a ! (p div bits_per_chunk)) (p div bits_per_chunk)
      (p mod bits_per_chunk) s = search_page (used_pages a) n p s"
    if "p < total_pages a" for p s
    using chunk_bit[OF that] by (simp add: search_bit_def search_page_def split: prod.split)
  then show ?thesis
    unfolding for_loop_nested[of "\<lambda>i. search_bit n (bitmap a ! i) i"] chunk_page_pairs for_loop_map
    by (auto simp: total_pages_def mult.commute intro!: for_loop_cong)
qed

lemma search_pages_correct:
  assumes "s + len = k" "len < n" "{s..<k} \<inter> used = {}" "k \<le> npages"
    and "\<And>t. t < s \<Longrightarrow> \<not> free_run used npages n t"
  shows "case for_loop (search_page used n) [k..<npages] (s, len) of
      Return r \<Rightarrow> free_run used npages n r \<and> (\<forall>t<r. \<not> free_run used npages n t)
    | Continue _ \<Rightarrow> \<forall>t. \<not> free_run used npages n t"
  using assms
proof (induction "npages - k" arbitrary: k s len)
  case 0
  then have "\<not> free_run used npages n t" for t
    using "0.prems"(5)[of t] by (cases "t < s") (auto simp: free_run_def)
  with 0 show ?case by simp
next
  case (Suc d)
  have upt: "[k..<npages] = k # [Suc k..<npages]" and d: "d = npages - Suc k"
    using Suc.hyps(2) by (auto intro!: upt_conv_Cons)
  show ?case
  proof (cases "k \<in> used")
    case True
    have "\<not> free_run used npages n t" if "t < Suc k" for t
    proof (cases "t < s")
      case False
      with True that Suc.prems(1,2) have "k \<in> {t..<t + n} \<inter> used" by auto
      then show ?thesis by (auto simp: free_run_def)
    qed (simp add: Suc.prems(5))
    then have "case for_loop (search_page used n) [Suc k..<npages] (Suc k, 0) of
        Return r \<Rightarrow> free_run used npages n r \<and> (\<forall>t<r. \<not> free_run used npages n t)
      | Continue _ \<Rightarrow> \<forall>t. \<not> free_run used npages n t"
      using Suc.prems Suc.hyps(2) by (intro Suc.hyps(1)[OF d]) auto
    with True show ?thesis
      by (simp add: upt search_page_def)
  next
    case False
    with Suc.prems(3) Suc.prems(1) have free: "{s..<Suc k} \<inter> used = {}"
      by (auto simp: less_Suc_eq)
    show ?thesis
    proof (cases "len + 1 = n")
      case True
      with Suc.prems(1) Suc.hyps(2) have "s + n = Suc k" "Suc k \<le> npages" by linarith+
      with free have "free_run used npages n s" by (simp add: free_run_def)
      with True False Suc.prems(5) show ?thesis
        by (simp add: upt search_page_def)
    next
      case neq: False
      have "case for_loop (search_page used n) [Suc k..<npages] (s, Suc len) of
          Return r \<Rightarrow> free_run used npages n r \<and> (\<forall>t<r. \<not> free_run used npages n t)
        | Continue _ \<Rightarrow> \<forall>t. \<not> free_run used npages n t"
        using neq Suc.prems Suc.hyps(2) free by (intro Suc.hyps(1)[OF d]) auto
      with neq False show ?thesis
        by (simp add: upt search_page_def)
    qed
  qed
qed

text \<open>Pages below the hint are used, so the loop enters the hint in a clean state.\<close>
lemma search_all_used: "set xs \<subseteq> used \<Longrightarrow> \<exists>s'. for_loop (search_page used n) xs s = Continue s'"
  by (induction xs arbitrary: s) (simp_all add: search_page_def)

lemma search_used_prefix:
  assumes "{k..<l} \<subseteq> used" "k \<le> l"
  shows "for_loop (search_page used n) [k..<l] (l, 0) = Continue (l, 0)"
proof (cases l)
  case (Suc m)
  show ?thesis
  proof (cases "k = l")
    case False
    with assms Suc have "k \<le> m" "set [k..<m] \<subseteq> used" "m \<in> used" by auto
    with search_all_used[OF this(2), of n "(l, 0)"] Suc show ?thesis
      by (auto simp: for_loop_append search_page_def)
  qed simp
qed simp

lemma find_next_first_fit:
  assumes "alloc_inv a" "0 < n"
  shows "find_next_contiguous n a = first_fit (used_pages a) (total_pages a) n"
proof -
  define start where "start = (if n = 1
    then (case last_single_page_allocation a of None \<Rightarrow> 0 | Some l \<Rightarrow> l) else 0)"
  let ?k = "start div bits_per_chunk * bits_per_chunk" and ?N = "total_pages a"
  let ?loop = "\<lambda>k. for_loop (search_page (used_pages a) n) [k..<?N] (start, 0)"
  have below: "{..<start} \<subseteq> used_pages a"
    using assms(1) by (auto simp: start_def alloc_inv_def split: option.splits)
  with used_pages_bounded[of a] have "start \<le> ?N"
    by (metis (full_types) lessThan_subset_iff subset_trans)
  moreover have "?k \<le> start" by simp
  ultimately have "[?k..<?N] = [?k..<start] @ [start..<?N]"
    by (metis le_add_diff_inverse upt_add_eq_append)
  moreover have "{?k..<start} \<subseteq> used_pages a"
    using below by auto
  ultimately have loop: "?loop ?k = ?loop start"
    using search_used_prefix[of ?k start "used_pages a" n] by (simp add: for_loop_append)
  have "\<not> free_run (used_pages a) ?N n t" if "t < start" for t
  proof -
    from that below assms(2) have "t \<in> {t..<t + n} \<inter> used_pages a" by auto
    then show ?thesis unfolding free_run_def by blast
  qed
  from search_pages_correct[OF _ assms(2) _ \<open>start \<le> ?N\<close> this] have
    "case ?loop start of Return r \<Rightarrow> first_fit (used_pages a) ?N n = Some r
       | Continue _ \<Rightarrow> first_fit (used_pages a) ?N n = None"
    by (auto split: flow.splits intro: first_fit_SomeI first_fit_NoneI)
  moreover have "find_next_contiguous n a = (case ?loop ?k of Return s \<Rightarrow> Some s | Continue _ \<Rightarrow> None)"
    unfolding find_next_contiguous_def Let_def start_def[symmetric] search_by_page ..
  ultimately show ?thesis
    by (simp add: loop split: flow.splits)
qed

section \<open>The operations implement the contract\<close>

lemma alloc_inv_usize:
  assumes "alloc_inv a" "e \<le> total_pages a"
  shows "fits_usize e"
  using assms by (auto simp: alloc_inv_def fits_usize_iff)

lemma allocate_contiguous_first_fit:
  assumes "alloc_inv a" "0 < n"
  shows "\<exists>a'. allocate_contiguous n a = Inr (first_fit (used_pages a) (total_pages a) n, a') \<and>
    alloc_inv a' \<and> total_pages a' = total_pages a \<and>
    used_pages a' = (case first_fit (used_pages a) (total_pages a) n of
      None \<Rightarrow> used_pages a | Some s \<Rightarrow> used_pages a \<union> {s..<s + n})"
proof -
  let ?r = "first_fit (used_pages a) (total_pages a) n"
  define b where "b = (if n = 1 then a\<lparr>last_single_page_allocation := ?r\<rparr> else a)"
  have b: "used_pages b = used_pages a" "total_pages b = total_pages a"
    by (simp_all add: b_def)
  have hint: "{..<l} \<subseteq> used_pages a" if "last_single_page_allocation b = Some l" for l
    using that assms(1) first_fit_one_below[of "used_pages a" "total_pages a" l]
    by (auto simp: b_def alloc_inv_def split: if_splits)
  show ?thesis
  proof (cases ?r)
    case None
    with hint b assms show ?thesis
      by (auto simp: allocate_contiguous_def Let_def find_next_first_fit b_def[symmetric] alloc_inv_def)
  next
    case (Some s)
    from first_fit_SomeD(1)[OF Some] have run: "s + n \<le> total_pages a" "{s..<s + n} \<inter> used_pages a = {}"
      by (simp_all add: free_run_def)
    then obtain a' where a': "for_each mark_used [s..<s + n] b = Inr a'"
        "used_pages a' = used_pages a \<union> {s..<s + n}" "total_pages a' = total_pages a"
        "last_single_page_allocation a' = last_single_page_allocation b"
      using mark_used_range[of s "s + n" b] b by auto
    moreover have "alloc_inv a'"
      using a' hint assms(1) by (fastforce simp: alloc_inv_def)
    moreover have "allocate_contiguous n a = and_then (for_each mark_used [s..<s + n] b) (\<lambda>a''. Inr (Some s, a''))"
      using Some assms alloc_inv_usize[OF assms(1) run(1)]
      by (auto simp: allocate_contiguous_def Let_def find_next_first_fit b_def)
    ultimately show ?thesis
      using Some by simp
  qed
qed

lemma free_contiguous_used:
  assumes "alloc_inv a" "0 < n" "{s..<s + n} \<subseteq> used_pages a"
  shows "\<exists>a'. free_contiguous s n a = Inr a' \<and> alloc_inv a' \<and> total_pages a' = total_pages a \<and>
    used_pages a' = used_pages a - {s..<s + n}"
proof -
  obtain b where b: "for_each mark_unused [s..<s + n] a = Inr b"
      "used_pages b = used_pages a - {s..<s + n}" "total_pages b = total_pages a"
      "last_single_page_allocation b = last_single_page_allocation a"
    using mark_unused_range[OF assms(3)] by auto
  define a' where "a' = (case last_single_page_allocation b of None \<Rightarrow> b
    | Some l \<Rightarrow> if s < l then b\<lparr>last_single_page_allocation := Some s\<rparr> else b)"
  have "s + n - 1 \<in> used_pages a" using assms(2,3) by auto
  with used_pages_bounded[of a] assms(2) have "s + n \<le> total_pages a" by force
  from alloc_inv_usize[OF assms(1) this] b(1) assms(2) have "free_contiguous s n a = Inr a'"
    by (simp add: free_contiguous_def a'_def)
  moreover have "alloc_inv a'"
    using assms(1) b by (fastforce simp: alloc_inv_def a'_def split: option.splits)
  moreover have "used_pages a' = used_pages b" "total_pages a' = total_pages b"
    by (simp_all add: a'_def split: option.split)
  ultimately show ?thesis using b by simp
qed

interpretation bm: page_allocator alloc_inv used_pages total_pages
  allocate_contiguous free_contiguous
  by unfold_locales
    (rule used_pages_bounded, rule allocate_contiguous_first_fit, assumption+,
     rule free_contiguous_used, assumption+)

text \<open>The chunks are determined by the set of used pages.\<close>
lemma bitmap_eqI:
  assumes "used_pages a = used_pages b" "total_pages a = total_pages b"
  shows "bitmap a = bitmap b"
proof (rule nth_equalityI)
  show len: "length (bitmap a) = length (bitmap b)"
    using assms(2) by (simp add: total_pages_def bits_per_chunk_def)
  fix i assume i: "i < length (bitmap a)"
  show "bitmap a ! i = bitmap b ! i"
  proof (rule bit_word_eqI)
    fix m assume "m < LENGTH(64)"
    then have m: "m < 64" by simp
    let ?p = "i * bits_per_chunk + m"
    from m i have "?p < total_pages a" "?p < total_pages b" "?p div bits_per_chunk = i"
        "?p mod bits_per_chunk = m"
      using len by (auto simp: total_pages_def bits_per_chunk_def)
    moreover have "page_used a ?p \<longleftrightarrow> page_used b ?p"
      using assms(1) by (auto simp: used_pages_def)
    ultimately show "bit (bitmap a ! i) m \<longleftrightarrow> bit (bitmap b ! i) m"
      by (simp add: page_used_def)
  qed
qed

lemma mark_unused_panics:
  "mark_unused p a = Inr a' \<Longrightarrow> p \<in> used_pages a \<and> used_pages a' = used_pages a - {p}"
proof -
  assume ok: "mark_unused p a = Inr a'"
  then have "p div bits_per_chunk < length (bitmap a)"
    by (auto simp: mark_unused_def Let_def run_facts)
  then have "p < total_pages a"
    by (simp add: total_pages_def bits_per_chunk_def div_less_iff_less_mult mult.commute)
  with ok chunk_bit[OF this] have "p \<in> used_pages a"
    by (auto simp: mark_unused_def Let_def run_facts)
  with mark_unused_used[OF this] ok show ?thesis by auto
qed

lemma mark_unused_range_panics:
  "for_each mark_unused ps a = Inr a' \<Longrightarrow> set ps \<subseteq> used_pages a"
  by (induction ps arbitrary: a) (auto simp: run_facts dest!: mark_unused_panics)

lemma alloc_inv_new: "fits_usize (64 * length bm) \<Longrightarrow> alloc_inv (new_allocator bm)"
  by (simp add: alloc_inv_def new_allocator_def total_pages_def bits_per_chunk_def)

section \<open>Properties\<close>



text \<open>C24: Freeing succeeds exactly for a nonempty range of pages that are all in
  use; every other call (an empty range, a page already free, a page beyond
  the bitmap) panics. When it succeeds it releases exactly that range.\<close>
theorem free_contiguous_exact:
  assumes "alloc_inv a"
  shows "if 0 < n \<and> {s..<s + n} \<subseteq> used_pages a
    then \<exists>a'. free_contiguous s n a = Inr a' \<and> alloc_inv a' \<and> total_pages a' = total_pages a \<and>
      used_pages a' = used_pages a - {s..<s + n}
    else \<exists>e. free_contiguous s n a = Inl e"
proof -
  have "0 < n \<and> {s..<s + n} \<subseteq> used_pages a" if "free_contiguous s n a = Inr a'" for a'
    using that mark_unused_range_panics[of "[s..<s + n]" a]
    by (auto simp: free_contiguous_def run_facts)
  then show ?thesis
    using free_contiguous_used[OF assms, of n s] by (cases "free_contiguous s n a") (simp_all, blast)
qed

theorem free_contiguous_exact_witness:
  "let a = new_allocator [0xF0] in
     alloc_inv a \<and> (\<exists>a'. free_contiguous 4 2 a = Inr a' \<and> alloc_inv a') \<and>
     (\<exists>e. free_contiguous 3 2 a = Inl e)"
proof -
  let ?a = "new_allocator [0xF0]"
  have inv: "alloc_inv ?a" by (rule alloc_inv_new) (simp add: fits_usize_def)
  have "page_used ?a 4" "page_used ?a 5" "\<not> page_used ?a 3"
    by code_simp+
  moreover have "{4..<4 + 2} = {4, 5::nat}" "3 \<in> {3..<3 + 2::nat}"
    by auto
  ultimately have "0 < (2::nat) \<and> {4..<4 + 2} \<subseteq> used_pages ?a"
    "\<not> (0 < (2::nat) \<and> {3..<3 + 2} \<subseteq> used_pages ?a)"
    by (auto simp only: used_pages_def)
  with free_contiguous_exact[OF inv, of 2 4] free_contiguous_exact[OF inv, of 2 3]
  have "\<exists>a'. free_contiguous 4 2 ?a = Inr a' \<and> alloc_inv a'" "\<exists>e. free_contiguous 3 2 ?a = Inl e"
    by (simp_all only: if_True if_False simp_thms) blast+
  with inv show ?thesis by (simp only: Let_def)
qed



end
