(* ===== verification/Bootstrap.thy ===== *)
theory Bootstrap
  imports Bitmap_Alloc
begin

text \<open>
  The construction of the page allocator from a memory map,
  crates/bitmap-alloc/src/bootstrap.rs. The bootloader's regions are a list;
  the closure that turns an address and a length into the slice of chunks is
  a parameter that may panic, and of which only the length of its result
  matters because the slice is overwritten at once. The theory determines exactly which pages are
  free afterwards, and shows that the storage reserved for the bitmap is
  eight times too small.
\<close>

section \<open>Regions\<close>

record memory_region =
  start_address :: nat
  len_bytes :: nat
  region_free :: bool

definition shift_up_page_size :: "nat \<Rightarrow> nat \<Rightarrow> nat outcome" where
  "shift_up_page_size v page_size =
     (let shift = (if v mod page_size = 0 then 0 else page_size - v mod page_size)
      in usize_add v shift)"

definition shift_down_page_size :: "nat \<Rightarrow> nat \<Rightarrow> nat" where
  "shift_down_page_size v page_size = v - v mod page_size"

definition page_aligned_start_end_address ::
  "memory_region \<Rightarrow> nat \<Rightarrow> (nat \<times> nat) option outcome" where
  "page_aligned_start_end_address r page_size =
     (if region_free r then
        and_then (shift_up_page_size (start_address r) page_size) (\<lambda>aligned_start.
        and_then (usize_add (start_address r) (len_bytes r)) (\<lambda>end_address.
        let aligned_end = shift_down_page_size end_address page_size in
        Inr (if aligned_end \<le> aligned_start then None else Some (aligned_start, aligned_end))))
      else
        (let aligned_start = shift_down_page_size (start_address r) page_size in
        and_then (usize_add (start_address r) (len_bytes r)) (\<lambda>end_address.
        and_then (shift_up_page_size end_address page_size) (\<lambda>aligned_end.
        Inr (Some (aligned_start, aligned_end))))))"

definition mark_region ::
  "bool \<Rightarrow> memory_region \<Rightarrow> nat \<Rightarrow> bitmap_allocator \<Rightarrow> bitmap_allocator outcome" where
  "mark_region used r page_size a =
     and_then (page_aligned_start_end_address r page_size) (\<lambda>aligned.
     case aligned of
       None \<Rightarrow> Inr a
     | Some (start_addr, end_addr) \<Rightarrow>
         for_each (if used then mark_used else mark_unused)
           [start_addr div page_size..<end_addr div page_size] a)"

section \<open>Bootstrap\<close>

text \<open>`iter.map(|r| r.start_address + r.len_bytes).max()`.\<close>
fun max_end_address :: "memory_region list \<Rightarrow> nat option outcome" where
  "max_end_address [] = Inr None"
| "max_end_address (r # rs) =
     and_then (usize_add (start_address r) (len_bytes r)) (\<lambda>e.
     and_then (max_end_address rs) (\<lambda>m.
     Inr (Some (case m of None \<Rightarrow> e | Some e' \<Rightarrow> max e e'))))"

text \<open>The first free region that the bitmap fits into.\<close>
fun find_bitmap_start :: "nat \<Rightarrow> nat \<Rightarrow> memory_region list \<Rightarrow> nat option outcome" where
  "find_bitmap_start page_size bitmap_bytes [] = Inr None"
| "find_bitmap_start page_size bitmap_bytes (r # rs) =
     (if region_free r then
        and_then (page_aligned_start_end_address r page_size) (\<lambda>aligned.
        case aligned of
          None \<Rightarrow> find_bitmap_start page_size bitmap_bytes rs
        | Some (s, e) \<Rightarrow>
            if bitmap_bytes \<le> e - s then Inr (Some s)
            else find_bitmap_start page_size bitmap_bytes rs)
      else find_bitmap_start page_size bitmap_bytes rs)"

definition bootstrap_allocator ::
  "nat \<Rightarrow> memory_region list \<Rightarrow> (nat \<Rightarrow> nat \<Rightarrow> u64 list outcome) \<Rightarrow> bitmap_allocator outcome" where
  "bootstrap_allocator page_size regions allocate_bitmap =
     and_then (max_end_address regions) (\<lambda>m.
     and_then (expect m) (\<lambda>total_memory.
     let bitmap_bits = div_ceil total_memory page_size;
         bitmap_bytes = div_ceil bitmap_bits 64 in
     and_then (find_bitmap_start page_size bitmap_bytes regions) (\<lambda>s.
     and_then (expect s) (\<lambda>bitmap_start.
     and_then (allocate_bitmap bitmap_start bitmap_bytes) (\<lambda>slice.
     let a = new_allocator (map (\<lambda>_. - 1) slice) in
     and_then (for_each (\<lambda>r a. if \<not> region_free r then Inr a
                               else mark_region False r page_size a) regions a) (\<lambda>a.
     mark_region True
       \<lparr>start_address = bitmap_start, len_bytes = bitmap_bytes, region_free = False\<rparr> page_size a))))))"

section \<open>Rounding regions to pages\<close>

text \<open>The pages that lie entirely inside a region.\<close>
definition inner_pages :: "nat \<Rightarrow> memory_region \<Rightarrow> nat set" where
  "inner_pages page_size r =
     {p. start_address r \<le> p * page_size \<and> p * page_size + page_size \<le> start_address r + len_bytes r}"

text \<open>The pages that a region touches.\<close>
definition touched_pages :: "nat \<Rightarrow> nat \<Rightarrow> nat \<Rightarrow> nat set" where
  "touched_pages page_size s len =
     {p. p * page_size < s + len \<and> s < p * page_size + page_size}"

text \<open>A region whose end, rounded up to a page, is still an address.\<close>
definition region_ok :: "nat \<Rightarrow> memory_region \<Rightarrow> bool" where
  "region_ok page_size r \<longleftrightarrow> fits_usize (start_address r + len_bytes r + page_size)"

lemma shift_down_eq: "shift_down_page_size v page_size = v div page_size * page_size"
  by (simp add: shift_down_page_size_def minus_mod_eq_div_mult)

lemma shift_up_eq:
  assumes "0 < page_size" "fits_usize (v + page_size)"
  shows "shift_up_page_size v page_size = Inr (div_ceil v page_size * page_size)"
proof (cases "v mod page_size = 0")
  case True
  with assms show ?thesis
    by (auto simp: shift_up_page_size_def div_ceil_def fits_usize_iff)
next
  case False
  have "v + (page_size - v mod page_size) = (v div page_size + 1) * page_size"
    using mod_less_divisor[OF assms(1), of v] div_mult_mod_eq[of v page_size]
    unfolding add_mult_distrib mult_1 by linarith
  moreover from assms(2) have "fits_usize (v + (page_size - v mod page_size))"
    by (simp add: fits_usize_iff)
  ultimately show ?thesis
    using False by (simp add: shift_up_page_size_def div_ceil_def)
qed

lemma le_mult_iff_div_ceil: "0 < b \<Longrightarrow> a \<le> p * b \<longleftrightarrow> div_ceil a b \<le> p"
  by (simp add: div_ceil_le_iff)

lemma inner_pages_range:
  assumes "0 < page_size"
  shows "inner_pages page_size r =
    {div_ceil (start_address r) page_size..<(start_address r + len_bytes r) div page_size}"
proof -
  have "p * page_size + page_size \<le> e \<longleftrightarrow> p < e div page_size" for p e
    using assms by (simp add: less_eq_div_iff_mult_less_eq Suc_le_eq[symmetric] add.commute)
  with assms show ?thesis
    by (auto simp: inner_pages_def le_mult_iff_div_ceil)
qed

lemma touched_pages_range:
  assumes "0 < page_size"
  shows "touched_pages page_size (k * page_size) len = {k..<div_ceil (k * page_size + len) page_size}"
proof -
  have "k * page_size < p * page_size + page_size \<longleftrightarrow> k \<le> p" for p
    using assms mult_less_cancel2[of k page_size "Suc p"] by (simp add: less_Suc_eq_le add.commute)
  moreover have "p * page_size < e \<longleftrightarrow> p < div_ceil e page_size" for p e
    using div_ceil_le_iff[OF assms, of e p] by (simp add: not_le[symmetric])
  ultimately show ?thesis by (auto simp: touched_pages_def)
qed

lemma region_okD:
  assumes "region_ok page_size r"
  shows "fits_usize (start_address r + page_size)" "fits_usize (start_address r + len_bytes r)"
    "fits_usize (start_address r + len_bytes r + page_size)"
  using assms by (auto simp: region_ok_def fits_usize_iff)

lemma aligned_free:
  assumes "0 < page_size" "region_ok page_size r" "region_free r"
  shows "page_aligned_start_end_address r page_size =
    Inr (if inner_pages page_size r = {} then None
         else Some (div_ceil (start_address r) page_size * page_size,
                    (start_address r + len_bytes r) div page_size * page_size))"
  using assms region_okD[OF assms(2)]
  by (auto simp: page_aligned_start_end_address_def shift_up_eq shift_down_eq Let_def inner_pages_range)

lemma mark_region_free:
  assumes "0 < page_size" "region_ok page_size r" "region_free r"
    and "inner_pages page_size r \<subseteq> used_pages a"
  shows "\<exists>a'. mark_region False r page_size a = Inr a' \<and>
    used_pages a' = used_pages a - inner_pages page_size r \<and> total_pages a' = total_pages a \<and>
    last_single_page_allocation a' = last_single_page_allocation a"
proof (cases "inner_pages page_size r = {}")
  case True
  with assms show ?thesis by (simp add: mark_region_def aligned_free)
next
  case False
  let ?s = "div_ceil (start_address r) page_size" and ?e = "(start_address r + len_bytes r) div page_size"
  from False assms have range: "inner_pages page_size r = {?s..<?e}" "?s \<le> ?e"
    by (auto simp: inner_pages_range)
  with False assms(1,2,3) have "mark_region False r page_size a = for_each mark_unused [?s..<?e] a"
    by (simp add: mark_region_def aligned_free)
  with mark_unused_range[of ?s ?e a] range assms(4) show ?thesis by simp
qed

lemma mark_bitmap_region:
  assumes "0 < page_size" "fits_usize (k * page_size + len + page_size)"
    and "touched_pages page_size (k * page_size) len \<inter> used_pages a = {}"
    and "touched_pages page_size (k * page_size) len \<subseteq> {..<total_pages a}"
  shows "\<exists>a'. mark_region True \<lparr>start_address = k * page_size, len_bytes = len, region_free = False\<rparr>
      page_size a = Inr a' \<and>
    used_pages a' = used_pages a \<union> touched_pages page_size (k * page_size) len \<and>
    total_pages a' = total_pages a \<and>
    last_single_page_allocation a' = last_single_page_allocation a"
proof -
  let ?e = "div_ceil (k * page_size + len) page_size"
  have range: "touched_pages page_size (k * page_size) len = {k..<?e}"
    by (rule touched_pages_range[OF assms(1)])
  have "fits_usize (k * page_size + len)" using assms(2) by (simp add: fits_usize_iff)
  with assms(1,2) have mark: "mark_region True
      \<lparr>start_address = k * page_size, len_bytes = len, region_free = False\<rparr> page_size a =
      for_each mark_used [k..<?e] a"
    by (simp add: mark_region_def page_aligned_start_end_address_def Let_def shift_down_eq shift_up_eq)
  show ?thesis
  proof (cases "k < ?e")
    case True
    with assms(4) range have "?e - 1 < total_pages a" by auto
    with True have "?e \<le> total_pages a" "k \<le> ?e" by simp_all
    with mark_used_range[of k ?e a] mark range assms(3) show ?thesis by simp
  next
    case False
    with mark range show ?thesis by simp
  qed
qed

section \<open>The allocator that bootstrap returns\<close>

definition end_of_memory :: "memory_region list \<Rightarrow> nat" where
  "end_of_memory rs = foldr (\<lambda>r m. max (start_address r + len_bytes r) m) rs 0"

definition bitmap_chunks :: "nat \<Rightarrow> memory_region list \<Rightarrow> nat" where
  "bitmap_chunks page_size rs = div_ceil (div_ceil (end_of_memory rs) page_size) 64"

definition free_pages_of :: "nat \<Rightarrow> memory_region list \<Rightarrow> nat set" where
  "free_pages_of page_size rs = (\<Union>r\<in>{r \<in> set rs. region_free r}. inner_pages page_size r)"

text \<open>What the memory map of a bootloader satisfies: regions end below the top of
  the address space, free regions share no page, and one of them has room
  for the bitmap as the code measures it.\<close>
definition memory_map_ok :: "nat \<Rightarrow> memory_region list \<Rightarrow> bool" where
  "memory_map_ok page_size rs \<longleftrightarrow> 1 < page_size \<and> list_all (region_ok page_size) rs \<and>
     sorted_wrt (\<lambda>r r'. region_free r \<longrightarrow> region_free r' \<longrightarrow>
       inner_pages page_size r \<inter> inner_pages page_size r' = {}) rs \<and>
     (\<exists>r\<in>set rs. region_free r \<and> inner_pages page_size r \<noteq> {} \<and>
        bitmap_chunks page_size rs \<le> page_size * card (inner_pages page_size r))"

lemma end_of_memory_upper: "r \<in> set rs \<Longrightarrow> start_address r + len_bytes r \<le> end_of_memory rs"
  by (induction rs) (auto simp: end_of_memory_def)

lemma end_of_memory_fits:
  "list_all (region_ok page_size) rs \<Longrightarrow> rs \<noteq> [] \<Longrightarrow> fits_usize (end_of_memory rs + page_size)"
proof (induction rs)
  case (Cons r rs)
  then show ?case
    by (cases "rs = []") (auto simp: end_of_memory_def region_ok_def fits_usize_iff)
qed simp

lemma max_end_address_eq:
  "list_all (region_ok page_size) rs \<Longrightarrow> rs \<noteq> [] \<Longrightarrow>
     max_end_address rs = Inr (Some (end_of_memory rs))"
proof (induction rs)
  case (Cons r rs)
  then show ?case
    using region_okD(2)[of page_size r]
    by (cases "rs = []") (simp_all add: end_of_memory_def)
qed simp

lemma div_ceil_upper: "0 < b \<Longrightarrow> a \<le> b * div_ceil a b"
  using div_ceil_le_iff[of b a "div_ceil a b"] by (simp add: mult.commute)

lemma div_ceil_less:
  assumes "0 < b"
  shows "b * div_ceil a b < a + b"
proof -
  have "b * (a div b) = a - a mod b" by (simp add: minus_mod_eq_mult_div)
  moreover have "a mod b \<le> a" by simp
  ultimately show ?thesis
    using assms by (auto simp: div_ceil_def)
qed

lemma inner_pages_bound:
  assumes "1 < page_size" "r \<in> set rs"
  shows "inner_pages page_size r \<subseteq> {..<64 * bitmap_chunks page_size rs}"
proof
  fix p assume "p \<in> inner_pages page_size r"
  then have "p * page_size + page_size \<le> end_of_memory rs"
    using end_of_memory_upper[OF assms(2)] by (simp add: inner_pages_def)
  then have "p * page_size < page_size * div_ceil (end_of_memory rs) page_size"
    using div_ceil_upper[of page_size "end_of_memory rs"] assms(1) by linarith
  then have "p < div_ceil (end_of_memory rs) page_size"
    by (simp add: mult.commute)
  also have "\<dots> \<le> 64 * bitmap_chunks page_size rs"
    unfolding bitmap_chunks_def by (rule div_ceil_upper) simp
  finally show "p \<in> {..<64 * bitmap_chunks page_size rs}" by simp
qed

lemma bitmap_chunks_fits:
  assumes "1 < page_size" "list_all (region_ok page_size) rs" "rs \<noteq> []"
  shows "fits_usize (64 * bitmap_chunks page_size rs)"
    and "fits_usize (end_of_memory rs + page_size)"
proof -
  let ?m = "end_of_memory rs" and ?b = "div_ceil (end_of_memory rs) page_size"
  show m: "fits_usize (?m + page_size)" by (rule end_of_memory_fits[OF assms(2,3)])
  have "page_size * ?b < ?m + page_size" by (rule div_ceil_less) (use assms in simp)
  moreover have "2 * ?b \<le> page_size * ?b" using assms(1) by (intro mult_le_mono1) simp
  ultimately have "2 * ?b < ?m + page_size" by linarith
  moreover have "64 * bitmap_chunks page_size rs < ?b + 64"
    unfolding bitmap_chunks_def by (rule div_ceil_less) simp
  ultimately show "fits_usize (64 * bitmap_chunks page_size rs)"
    using m by (simp add: fits_usize_iff)
qed

lemma find_bitmap_start_eq:
  assumes "0 < page_size" "list_all (region_ok page_size) rs"
    and "\<exists>r\<in>set rs. region_free r \<and> inner_pages page_size r \<noteq> {} \<and>
      n \<le> page_size * card (inner_pages page_size r)"
  shows "\<exists>r\<in>set rs. find_bitmap_start page_size n rs =
      Inr (Some (div_ceil (start_address r) page_size * page_size)) \<and>
    region_free r \<and> inner_pages page_size r \<noteq> {} \<and> n \<le> page_size * card (inner_pages page_size r)"
  using assms(2,3)
proof (induction rs)
  case (Cons r rs)
  have fits: "(n \<le> (start_address r + len_bytes r) div page_size * page_size -
        div_ceil (start_address r) page_size * page_size) \<longleftrightarrow>
      n \<le> page_size * card (inner_pages page_size r)"
    using assms(1) by (simp add: inner_pages_range diff_mult_distrib2 mult.commute)
  show ?case
  proof (cases "region_free r \<and> inner_pages page_size r \<noteq> {} \<and>
      n \<le> page_size * card (inner_pages page_size r)")
    case True
    with Cons.prems assms(1) fits show ?thesis
      by (intro bexI[of _ r]) (simp_all add: aligned_free)
  next
    case False
    with Cons.prems assms(1) fits
    have "find_bitmap_start page_size n (r # rs) = find_bitmap_start page_size n rs"
      by (auto simp: aligned_free)
    with Cons.IH Cons.prems False show ?thesis by auto
  qed
qed simp

lemma mark_free_regions:
  assumes "0 < page_size" "list_all (region_ok page_size) rs"
    and "sorted_wrt (\<lambda>r r'. region_free r \<longrightarrow> region_free r' \<longrightarrow>
       inner_pages page_size r \<inter> inner_pages page_size r' = {}) rs"
    and "free_pages_of page_size rs \<subseteq> used_pages a"
  shows "\<exists>a'. for_each (\<lambda>r a. if \<not> region_free r then Inr a else mark_region False r page_size a) rs a
      = Inr a' \<and> used_pages a' = used_pages a - free_pages_of page_size rs \<and>
    total_pages a' = total_pages a \<and>
    last_single_page_allocation a' = last_single_page_allocation a"
  using assms(2,3,4)
proof (induction rs arbitrary: a)
  case (Cons r rs)
  show ?case
  proof (cases "region_free r")
    case False
    then have "free_pages_of page_size (r # rs) = free_pages_of page_size rs"
      by (auto simp: free_pages_of_def)
    with False Cons show ?thesis by simp
  next
    case True
    then have split: "free_pages_of page_size (r # rs) =
        inner_pages page_size r \<union> free_pages_of page_size rs"
      by (auto simp: free_pages_of_def)
    with Cons.prems True obtain b where b: "mark_region False r page_size a = Inr b"
        "used_pages b = used_pages a - inner_pages page_size r" "total_pages b = total_pages a"
        "last_single_page_allocation b = last_single_page_allocation a"
      using mark_region_free[OF assms(1), of r a] by auto
    have "inner_pages page_size r \<inter> free_pages_of page_size rs = {}"
      using Cons.prems(2) True by (auto simp: free_pages_of_def)
    with split Cons.prems(3) b(2) have "free_pages_of page_size rs \<subseteq> used_pages b"
      by blast
    from Cons.IH[OF _ _ this] Cons.prems b True split show ?thesis
      by (auto simp: Diff_Un)
  qed
qed (simp add: free_pages_of_def)

text \<open>The law of the slice that the caller builds with `from_raw_parts_mut`: for a
  place inside the memory map it has the length asked for.\<close>
definition slices_of_length :: "nat \<Rightarrow> (nat \<Rightarrow> nat \<Rightarrow> u64 list outcome) \<Rightarrow> bool" where
  "slices_of_length limit allocate_bitmap \<longleftrightarrow>
     (\<forall>s n. s + n \<le> limit \<longrightarrow> (\<exists>xs. allocate_bitmap s n = Inr xs \<and> length xs = n))"

lemma new_allocator_full:
  "used_pages (new_allocator (map (\<lambda>_. - 1) bm)) = {..<64 * length bm}"
  "total_pages (new_allocator (map (\<lambda>_. - 1) bm)) = 64 * length bm"
  "last_single_page_allocation (new_allocator cs) = None"
  by (auto simp: used_pages_def page_used_def new_allocator_def total_pages_def bits_per_chunk_def
      less_mult_imp_div_less mult.commute)

lemma touched_inner:
  assumes "0 < page_size" "inner_pages page_size r \<noteq> {}"
    and "n \<le> page_size * card (inner_pages page_size r)"
  shows "touched_pages page_size (div_ceil (start_address r) page_size * page_size) n
      \<subseteq> inner_pages page_size r"
    and "div_ceil (start_address r) page_size * page_size + n \<le> start_address r + len_bytes r"
proof -
  let ?s = "div_ceil (start_address r) page_size" and ?e = "(start_address r + len_bytes r) div page_size"
  have "?s < ?e" using assms(1,2) by (simp add: inner_pages_range)
  moreover have "n \<le> page_size * (?e - ?s)" using assms(1,3) by (simp add: inner_pages_range)
  ultimately have le: "?s * page_size + n \<le> ?e * page_size"
    by (simp add: diff_mult_distrib2 mult.commute) (metis add_le_mono1 le_add_diff_inverse less_imp_le
        mult_le_mono2 ordered_cancel_comm_monoid_diff_class.le_diff_conv2 add.commute)
  then have "div_ceil (?s * page_size + n) page_size \<le> ?e"
    using assms(1) by (simp add: div_ceil_le_iff)
  then show "touched_pages page_size (?s * page_size) n \<subseteq> inner_pages page_size r"
    using assms(1) by (auto simp: touched_pages_range inner_pages_range)
  show "?s * page_size + n \<le> start_address r + len_bytes r"
    using le div_times_less_eq_dividend[of "start_address r + len_bytes r" page_size] by linarith
qed

lemma bootstrap_allocator_spec:
  assumes "memory_map_ok page_size rs" "slices_of_length (end_of_memory rs) allocate_bitmap"
  shows "\<exists>r a. r \<in> set rs \<and> region_free r \<and>
    bootstrap_allocator page_size rs allocate_bitmap = Inr a \<and> alloc_inv a \<and>
    total_pages a = 64 * bitmap_chunks page_size rs \<and>
    touched_pages page_size (div_ceil (start_address r) page_size * page_size)
      (bitmap_chunks page_size rs) \<subseteq> inner_pages page_size r \<and>
    used_pages a = {..<total_pages a} - free_pages_of page_size rs \<union>
      touched_pages page_size (div_ceil (start_address r) page_size * page_size)
        (bitmap_chunks page_size rs)"
proof -
  let ?n = "bitmap_chunks page_size rs" and ?F = "free_pages_of page_size rs"
  from assms(1) have ps: "0 < page_size" "1 < page_size" and ok: "list_all (region_ok page_size) rs"
    and ne: "rs \<noteq> []" by (auto simp: memory_map_ok_def)
  from find_bitmap_start_eq[OF ps(1) ok] assms(1) obtain r where r: "r \<in> set rs" "region_free r"
      "inner_pages page_size r \<noteq> {}" "?n \<le> page_size * card (inner_pages page_size r)"
      "find_bitmap_start page_size ?n rs = Inr (Some (div_ceil (start_address r) page_size * page_size))"
    unfolding memory_map_ok_def by blast
  let ?s = "div_ceil (start_address r) page_size * page_size"
  let ?T = "touched_pages page_size ?s ?n"
  note T = touched_inner[OF ps(1) r(3,4)]
  obtain xs where xs: "allocate_bitmap ?s ?n = Inr xs" "length xs = ?n"
    using assms(2) T(2) end_of_memory_upper[OF r(1)] unfolding slices_of_length_def
    by (meson order_trans)
  define a0 where "a0 = new_allocator (map (\<lambda>_. - 1) xs)"
  have a0: "used_pages a0 = {..<64 * ?n}" "total_pages a0 = 64 * ?n" "last_single_page_allocation a0 = None"
    by (simp_all add: a0_def new_allocator_full xs(2))
  have "?F \<subseteq> used_pages a0"
    using inner_pages_bound[OF ps(2)] a0(1) by (auto simp: free_pages_of_def)
  with mark_free_regions[OF ps(1) ok, of a0] assms(1) obtain a1 where
    a1: "for_each (\<lambda>r a. if \<not> region_free r then Inr a else mark_region False r page_size a) rs a0 = Inr a1"
      "used_pages a1 = {..<64 * ?n} - ?F" "total_pages a1 = 64 * ?n" "last_single_page_allocation a1 = None"
    unfolding memory_map_ok_def a0 by blast
  from r(1,2) T(1) have TF: "?T \<subseteq> ?F" by (auto simp: free_pages_of_def)
  have "fits_usize (?s + ?n + page_size)"
    using T(2) ok r(1) by (auto simp: list_all_iff region_ok_def fits_usize_iff)
  moreover have "?T \<inter> used_pages a1 = {}" using TF a1(2) by blast
  moreover have "?T \<subseteq> {..<total_pages a1}"
    using T(1) inner_pages_bound[OF ps(2) r(1)] a1(3) by simp
  ultimately obtain a2 where a2: "mark_region True
        \<lparr>start_address = ?s, len_bytes = ?n, region_free = False\<rparr> page_size a1 = Inr a2"
      "used_pages a2 = used_pages a1 \<union> ?T" "total_pages a2 = total_pages a1"
      "last_single_page_allocation a2 = last_single_page_allocation a1"
    using mark_bitmap_region[OF ps(1), of "div_ceil (start_address r) page_size" ?n a1] by blast
  have "bootstrap_allocator page_size rs allocate_bitmap = Inr a2"
    using max_end_address_eq[OF ok ne] r(5) xs(1) a1(1) a2(1)
    by (simp add: bootstrap_allocator_def Let_def bitmap_chunks_def[symmetric] a0_def)
  moreover have "alloc_inv a2"
    using a1 a2 bitmap_chunks_fits(1)[OF ps(2) ok ne] by (simp add: alloc_inv_def)
  ultimately show ?thesis
    using r(1,2) T(1) a1 a2 by auto
qed

section \<open>Properties\<close>


text \<open>A machine with one free region of 144 MiB after the first page.\<close>
definition example_map :: "memory_region list" where
  "example_map = [\<lparr>start_address = 0x1000, len_bytes = 0x9000000, region_free = True\<rparr>]"

lemma example_map_facts:
  "bitmap_chunks 4096 example_map = 577"
  "inner_pages 4096 (hd example_map) = {1..<36865}"
  "free_pages_of 4096 example_map = {1..<36865}"
  "memory_map_ok 4096 example_map"
proof -
  show inner: "inner_pages 4096 (hd example_map) = {1..<36865}"
    by (simp add: inner_pages_range example_map_def div_ceil_def)
  show chunks: "bitmap_chunks 4096 example_map = 577"
    by (simp add: bitmap_chunks_def end_of_memory_def example_map_def div_ceil_def)
  show "free_pages_of 4096 example_map = {1..<36865}"
    using inner by (simp add: free_pages_of_def example_map_def)
  show "memory_map_ok 4096 example_map"
    using inner chunks
    by (simp add: memory_map_ok_def example_map_def region_ok_def fits_usize_def)
qed

lemma slices_of_length_replicate: "slices_of_length limit (\<lambda>_ n. Inr (replicate n c))"
  by (simp add: slices_of_length_def)


text \<open>C25: The area reserved for the bitmap is too small: the code counts 64-bit
  chunks and reserves that many bytes. On a machine with 144 MiB the second
  page of the bitmap's own storage is left free, and it is the page that the
  first single-page allocation hands out.\<close>
theorem bitmap_storage_handed_out:
  assumes "slices_of_length (end_of_memory example_map) allocate_bitmap"
  shows "\<exists>a a'. bootstrap_allocator 4096 example_map allocate_bitmap = Inr a \<and>
    allocate_contiguous 1 a = Inr (Some 2, a') \<and>
    2 \<in> touched_pages 4096 0x1000 (8 * length (bitmap a))"
proof -
  from bootstrap_allocator_spec[OF example_map_facts(4) assms] obtain r a where
    r: "r \<in> set example_map" and a: "bootstrap_allocator 4096 example_map allocate_bitmap = Inr a"
      "alloc_inv a" "total_pages a = 64 * bitmap_chunks 4096 example_map"
    and used: "used_pages a = {..<total_pages a} - free_pages_of 4096 example_map \<union>
      touched_pages 4096 (div_ceil (start_address r) 4096 * 4096) (bitmap_chunks 4096 example_map)"
    by (elim exE conjE)
  have "touched_pages 4096 (1 * 4096) 577 = {1}"
    by (subst touched_pages_range) (auto simp: div_ceil_def)
  moreover have "start_address r = 4096" using r by (simp add: example_map_def)
  ultimately have used': "used_pages a = {..<36928} - {1..<36865} \<union> {1}"
    using used a(3) by (simp add: example_map_facts div_ceil_def)
  have len: "length (bitmap a) = 577"
    using a(3) by (simp add: total_pages_def bits_per_chunk_def example_map_facts)
  have "first_fit (used_pages a) (total_pages a) 1 = Some 2"
  proof (rule first_fit_SomeI)
    show "free_run (used_pages a) (total_pages a) 1 2"
      using a(3) by (auto simp: free_run_def used' example_map_facts)
    show "\<not> free_run (used_pages a) (total_pages a) 1 t" if "t < 2" for t
      using that by (auto simp: free_run_def used' less_2_cases_iff)
  qed
  with allocate_contiguous_first_fit[OF a(2), of 1] a(1) len show ?thesis
    by (auto simp: touched_pages_def)
qed

theorem bitmap_storage_handed_out_witness:
  "slices_of_length (end_of_memory example_map) (\<lambda>_ n. Inr (replicate n 0)) \<and>
   (\<exists>a a'. bootstrap_allocator 4096 example_map (\<lambda>_ n. Inr (replicate n 0)) = Inr a \<and>
      allocate_contiguous 1 a = Inr (Some 2, a'))"
  using bitmap_storage_handed_out[OF slices_of_length_replicate[of _ 0]] slices_of_length_replicate
  by blast

end
