(* ===== verification/Address.thy ===== *)
theory Address
  imports Prelude
begin

text \<open>
  Addresses and pages: kernel/src/memory/address.rs, kernel/src/memory/page.rs
  and the layout constants of kernel/src/memory/mapping.rs. The address types
  of the x86_64 crate are their 64-bit values. The functions of that crate
  that the kernel calls are collected in the record \<open>x86_64\<close>, an argument of
  the definitions that use them, and \<open>x86_64_spec\<close> states what the crate
  documents about them.
\<close>

section \<open>The x86_64 crate\<close>

record x86_64 =
  phys_addr_new :: "u64 \<Rightarrow> u64 outcome"
  virt_addr_new :: "u64 \<Rightarrow> u64 outcome"
  virt_addr_add :: "u64 \<Rightarrow> nat \<Rightarrow> u64 outcome"
  align_down_addr :: "u64 \<Rightarrow> u64 \<Rightarrow> u64"

text \<open>A virtual address whose bits 48 to 63 repeat bit 47.\<close>
definition canonical :: "u64 \<Rightarrow> bool" where
  "canonical a \<longleftrightarrow> a < 0x0000800000000000 \<or> 0xFFFF800000000000 \<le> a"

text \<open>The documented behaviour: `PhysAddr::new` accepts the addresses below
  \<open>2 ^ 52\<close>, `VirtAddr::new` the canonical ones, adding to a `VirtAddr` gives the
  sum when that is a canonical address, and `align_down` returns the greatest
  multiple of a power of two that is not above its argument.\<close>
definition x86_64_spec :: "x86_64 \<Rightarrow> bool" where
  "x86_64_spec x \<longleftrightarrow>
     (\<forall>a. phys_addr_new x a = (if a < 0x0010000000000000 then Inr a else Inl ExplicitPanic)) \<and>
     (\<forall>a. canonical a \<longrightarrow> virt_addr_new x a = Inr a) \<and>
     (\<forall>a n. unat a + n < 2 ^ 64 \<longrightarrow> canonical (a + of_nat n) \<longrightarrow>
        virt_addr_add x a n = Inr (a + of_nat n)) \<and>
     (\<forall>a k. k < 64 \<longrightarrow> align_down_addr x a (2 ^ k) = of_nat (unat a div 2 ^ k * 2 ^ k))"

section \<open>The memory layout\<close>

definition higher_half_start :: u64 where
  "higher_half_start = 0xFFFF800000000000"

definition kernel_physical_mapping_start :: u64 where
  "kernel_physical_mapping_start = higher_half_start"

definition kernel_physical_mapping_end :: u64 where
  "kernel_physical_mapping_end = 0xFFFFB77777777777"

definition kernel_heap_region_start :: u64 where
  "kernel_heap_region_start = 0xFFFFC00000000000"

definition kernel_heap_region_max_size :: u64 where
  "kernel_heap_region_max_size = 0x0000100000000000"

definition kernel_stack_region_start :: u64 where
  "kernel_stack_region_start = 0xFFFFD00000000000"

definition kernel_stack_region_max_size :: u64 where
  "kernel_stack_region_max_size = 0xFFFF100000000000"

definition kernel_text_data_region_start :: u64 where
  "kernel_text_data_region_start = 0xFFFFFFFF80000000"

lemmas layout_defs =
  higher_half_start_def kernel_physical_mapping_start_def kernel_physical_mapping_end_def
  kernel_heap_region_start_def kernel_heap_region_max_size_def
  kernel_stack_region_start_def kernel_stack_region_max_size_def kernel_text_data_region_start_def

section \<open>Kernel physical addresses\<close>

definition u64_add :: "u64 \<Rightarrow> u64 \<Rightarrow> u64 outcome" where
  "u64_add a b = (if uint a + uint b < 2 ^ 64 then Inr (a + b) else Inl Overflow)"

definition u64_sub :: "u64 \<Rightarrow> u64 \<Rightarrow> u64 outcome" where
  "u64_sub a b = (if b \<le> a then Inr (a - b) else Inl Overflow)"

definition in_physical_mapping :: "u64 \<Rightarrow> bool" where
  "in_physical_mapping a \<longleftrightarrow> kernel_physical_mapping_start \<le> a \<and> a \<le> kernel_physical_mapping_end"

definition kern_phys_addr_new :: "u64 \<Rightarrow> u64 outcome" where
  "kern_phys_addr_new a =
     and_then (assert_that (in_physical_mapping a)) (\<lambda>_. Inr a)"

definition to_phys_addr :: "x86_64 \<Rightarrow> u64 \<Rightarrow> u64 outcome" where
  "to_phys_addr x a =
     and_then (assert_that (in_physical_mapping a)) (\<lambda>_.
     and_then (u64_sub a kernel_physical_mapping_start) (phys_addr_new x))"

definition from_phys_addr :: "u64 \<Rightarrow> u64 outcome" where
  "from_phys_addr p =
     and_then (u64_add p kernel_physical_mapping_start) kern_phys_addr_new"

definition kern_phys_addr_add :: "u64 \<Rightarrow> nat \<Rightarrow> u64 outcome" where
  "kern_phys_addr_add a rhs = and_then (u64_add a (of_nat rhs)) kern_phys_addr_new"

definition kern_phys_addr_sub :: "u64 \<Rightarrow> nat \<Rightarrow> u64 outcome" where
  "kern_phys_addr_sub a rhs = and_then (u64_sub a (of_nat rhs)) kern_phys_addr_new"

section \<open>Pages\<close>

datatype page_size = Size4KiB | Size2MiB | Size1GiB

fun size_bytes :: "page_size \<Rightarrow> nat" where
  "size_bytes Size4KiB = 4096"
| "size_bytes Size2MiB = 2 * 1024 * 1024"
| "size_bytes Size1GiB = 1024 * 1024 * 1024"

record page =
  start_addr :: u64
  size_of_page :: page_size

definition is_aligned_addr :: "x86_64 \<Rightarrow> u64 \<Rightarrow> u64 \<Rightarrow> bool" where
  "is_aligned_addr x a align \<longleftrightarrow> align_down_addr x a align = a"

definition from_start_addr :: "x86_64 \<Rightarrow> u64 \<Rightarrow> page_size \<Rightarrow> page outcome" where
  "from_start_addr x a sz =
     and_then (assert_that (is_aligned_addr x a (of_nat (size_bytes sz)))) (\<lambda>_.
     Inr \<lparr>start_addr = a, size_of_page = sz\<rparr>)"

definition containing_address :: "x86_64 \<Rightarrow> u64 \<Rightarrow> page_size \<Rightarrow> page" where
  "containing_address x a sz =
     \<lparr>start_addr = align_down_addr x a (of_nat (size_bytes sz)), size_of_page = sz\<rparr>"

record page_range =
  range_start :: page
  num_pages :: nat

definition page_range_new :: "page \<Rightarrow> nat \<Rightarrow> page_range" where
  "page_range_new p n = \<lparr>range_start = p, num_pages = n\<rparr>"

definition from_num_bytes :: "page \<Rightarrow> nat \<Rightarrow> page_range" where
  "from_num_bytes p num_bytes =
     \<lparr>range_start = p, num_pages = div_ceil num_bytes (size_bytes (size_of_page p))\<rparr>"

definition range_num_bytes :: "page_range \<Rightarrow> nat outcome" where
  "range_num_bytes r = usize_mul (num_pages r) (size_bytes (size_of_page (range_start r)))"

text \<open>The iterator over a range; \<open>add\<close> is the addition of the address type.\<close>
definition page_range_next ::
  "(u64 \<Rightarrow> nat \<Rightarrow> u64 outcome) \<Rightarrow> page_range \<times> nat \<Rightarrow> (page option \<times> (page_range \<times> nat)) outcome" where
  "page_range_next add it =
     (let (r, current_page) = it in
      if current_page \<ge> num_pages r then Inr (None, it)
      else
        and_then (usize_mul current_page (size_bytes (size_of_page (range_start r)))) (\<lambda>off.
        and_then (add (start_addr (range_start r)) off) (\<lambda>a.
        Inr (Some \<lparr>start_addr = a, size_of_page = size_of_page (range_start r)\<rparr>,
             (r, current_page + 1)))))"

text \<open>The pages that a `for` loop over the iterator visits; \<open>fuel\<close> bounds the
  turns, one more than the pages of the range.\<close>
fun collect_pages ::
  "(u64 \<Rightarrow> nat \<Rightarrow> u64 outcome) \<Rightarrow> nat \<Rightarrow> page_range \<times> nat \<Rightarrow> page list outcome" where
  "collect_pages add 0 it = Inr []"
| "collect_pages add (Suc fuel) it =
     and_then (page_range_next add it) (\<lambda>(p, it').
     case p of
       None \<Rightarrow> Inr []
     | Some p \<Rightarrow> and_then (collect_pages add fuel it') (\<lambda>ps. Inr (p # ps)))"

definition pages_of_range :: "(u64 \<Rightarrow> nat \<Rightarrow> u64 outcome) \<Rightarrow> page_range \<Rightarrow> page list outcome" where
  "pages_of_range add r = collect_pages add (Suc (num_pages r)) (r, 0)"

section \<open>Facts\<close>

lemma x86_64_specD:
  assumes "x86_64_spec x"
  shows "a < 0x0010000000000000 \<Longrightarrow> phys_addr_new x a = Inr a"
    and "canonical a \<Longrightarrow> virt_addr_new x a = Inr a"
    and "unat a + n < 2 ^ 64 \<Longrightarrow> canonical (a + of_nat n) \<Longrightarrow> virt_addr_add x a n = Inr (a + of_nat n)"
    and "k < 64 \<Longrightarrow> align_down_addr x a (2 ^ k) = of_nat (unat a div 2 ^ k * 2 ^ k)"
  using assms by (simp_all add: x86_64_spec_def)

lemma size_bytes_power: "\<exists>k<64. size_bytes sz = 2 ^ k"
proof (cases sz)
  case Size4KiB then show ?thesis by (intro exI[of _ 12]) simp
next
  case Size2MiB then show ?thesis by (intro exI[of _ 21]) simp
next
  case Size1GiB then show ?thesis by (intro exI[of _ 30]) simp
qed

lemma is_aligned_addr_iff:
  assumes "x86_64_spec x"
  shows "is_aligned_addr x a (of_nat (size_bytes sz)) \<longleftrightarrow> size_bytes sz dvd unat a"
proof -
  obtain k where k: "k < 64" "size_bytes sz = 2 ^ k" using size_bytes_power by blast
  have "unat a div 2 ^ k * 2 ^ k \<le> unat a" by simp
  then have "unat (of_nat (unat a div 2 ^ k * 2 ^ k) :: u64) = unat a div 2 ^ k * 2 ^ k"
    using unat_u64_bound[of a] by (intro unat_of_nat_u64) linarith
  then have "of_nat (unat a div 2 ^ k * 2 ^ k) = a \<longleftrightarrow> 2 ^ k dvd unat a"
    by (metis dvd_div_mult_self dvd_triv_right word_unat_eq_iff)
  then show ?thesis
    using x86_64_specD(4)[OF assms k(1)] by (simp add: is_aligned_addr_def k(2))
qed

text \<open>The physical addresses that the direct mapping covers.\<close>
definition mapped_phys :: "u64 \<Rightarrow> bool" where
  "mapped_phys p \<longleftrightarrow> p \<le> 0x0000377777777777"

lemma unat_start: "unat kernel_physical_mapping_start = 0xFFFF800000000000"
  by (simp add: layout_defs)

lemma unat_mapped_phys:
  "mapped_phys p \<Longrightarrow> unat (p + kernel_physical_mapping_start) = unat p + 0xFFFF800000000000"
  by (subst unat_add_u64) (simp_all add: unat_start mapped_phys_def word_le_nat_alt)

lemma from_phys_addr_mapped:
  assumes "mapped_phys p"
  shows "from_phys_addr p = Inr (p + kernel_physical_mapping_start)"
    and "in_physical_mapping (p + kernel_physical_mapping_start)"
proof -
  have "uint p + uint kernel_physical_mapping_start < 2 ^ 64"
    using assms by (simp add: mapped_phys_def layout_defs word_le_def)
  moreover show "in_physical_mapping (p + kernel_physical_mapping_start)"
    using assms
    by (simp add: in_physical_mapping_def word_le_nat_alt unat_mapped_phys unat_start)
      (simp add: layout_defs mapped_phys_def word_le_nat_alt)
  ultimately show "from_phys_addr p = Inr (p + kernel_physical_mapping_start)"
    by (simp add: from_phys_addr_def u64_add_def kern_phys_addr_new_def)
qed

lemma in_physical_mapping_split:
  "in_physical_mapping a \<Longrightarrow> \<exists>p. a = p + kernel_physical_mapping_start \<and> mapped_phys p"
  by (intro exI[of _ "a - kernel_physical_mapping_start"])
    (auto simp: in_physical_mapping_def mapped_phys_def word_le_nat_alt unat_sub layout_defs)

lemma mapped_phys_less: "mapped_phys p \<Longrightarrow> p < 0x0010000000000000"
  by (simp add: mapped_phys_def word_le_nat_alt word_less_nat_alt)

lemma to_phys_addr_mapped:
  assumes "x86_64_spec x" "mapped_phys p"
  shows "to_phys_addr x (p + kernel_physical_mapping_start) = Inr p"
proof -
  have "kernel_physical_mapping_start \<le> p + kernel_physical_mapping_start"
    using from_phys_addr_mapped(2)[OF assms(2)] by (simp add: in_physical_mapping_def)
  then show ?thesis
    using assms from_phys_addr_mapped(2)[OF assms(2)]
    by (simp add: to_phys_addr_def u64_sub_def x86_64_specD mapped_phys_less)
qed

lemma from_start_addr_ok:
  "x86_64_spec x \<Longrightarrow> from_start_addr x a sz =
     (if size_bytes sz dvd unat a then Inr \<lparr>start_addr = a, size_of_page = sz\<rparr> else Inl AssertFailed)"
  by (simp add: from_start_addr_def is_aligned_addr_iff assert_that_def)

lemma collect_pages_eq:
  assumes "\<And>i. i < num_pages r \<Longrightarrow> fits_usize (i * size_bytes (size_of_page (range_start r))) \<and>
      add (start_addr (range_start r)) (i * size_bytes (size_of_page (range_start r))) = Inr (addr i)"
    and "i \<le> num_pages r" "num_pages r < i + fuel"
  shows "collect_pages add fuel (r, i) =
    Inr (map (\<lambda>i. \<lparr>start_addr = addr i, size_of_page = size_of_page (range_start r)\<rparr>) [i..<num_pages r])"
  using assms(2,3)
proof (induction fuel arbitrary: i)
  case (Suc fuel)
  then show ?case
    using assms(1)[of i] by (cases "i < num_pages r") (simp_all add: page_range_next_def upt_conv_Cons)
qed simp

section \<open>Properties\<close>

text \<open>Kernel physical addresses and physical addresses convert into each other
  without loss. A physical address converts exactly when the direct mapping
  covers it, and converting back gives it again; an address in the direct
  mapping converts to a physical one that converts back to it.\<close>
theorem kern_phys_addr_round_trip:
  assumes "x86_64_spec x"
  shows "(\<forall>p. (\<exists>a. from_phys_addr p = Inr a \<and> to_phys_addr x a = Inr p) \<longleftrightarrow> mapped_phys p) \<and>
    (\<forall>p. \<not> mapped_phys p \<longrightarrow> (\<exists>e. from_phys_addr p = Inl e)) \<and>
    (\<forall>a. in_physical_mapping a \<longleftrightarrow> (\<exists>p. to_phys_addr x a = Inr p \<and> from_phys_addr p = Inr a))"
proof (intro conjI allI)
  have mapped: "mapped_phys p" if "from_phys_addr p = Inr a" for p a
  proof -
    from that have "uint p + uint kernel_physical_mapping_start < 2 ^ 64" "in_physical_mapping a"
        "a = p + kernel_physical_mapping_start"
      by (auto simp: from_phys_addr_def u64_add_def kern_phys_addr_new_def run_facts split: if_splits)
    from in_physical_mapping_split[OF this(2)] this(3) show ?thesis by auto
  qed
  show "(\<exists>a. from_phys_addr p = Inr a \<and> to_phys_addr x a = Inr p) \<longleftrightarrow> mapped_phys p" for p
    using mapped from_phys_addr_mapped(1) to_phys_addr_mapped[OF assms] by blast
  show "\<not> mapped_phys p \<longrightarrow> (\<exists>e. from_phys_addr p = Inl e)" for p
    using mapped by (cases "from_phys_addr p") auto
  show "in_physical_mapping a \<longleftrightarrow> (\<exists>p. to_phys_addr x a = Inr p \<and> from_phys_addr p = Inr a)" for a
  proof
    assume "in_physical_mapping a"
    then show "\<exists>p. to_phys_addr x a = Inr p \<and> from_phys_addr p = Inr a"
      using in_physical_mapping_split from_phys_addr_mapped(1) to_phys_addr_mapped[OF assms] by blast
  qed (auto simp: to_phys_addr_def run_facts)
qed

text \<open>An instance of the crate's functions that satisfies its documentation.\<close>
definition x86_64_example :: x86_64 where
  "x86_64_example = \<lparr>
     phys_addr_new = (\<lambda>a. if a < 0x0010000000000000 then Inr a else Inl ExplicitPanic),
     virt_addr_new = (\<lambda>a. if canonical a then Inr a else Inl ExplicitPanic),
     virt_addr_add = (\<lambda>a n. if unat a + n < 2 ^ 64 \<and> canonical (a + of_nat n)
                            then Inr (a + of_nat n) else Inl ExplicitPanic),
     align_down_addr = (\<lambda>a n. of_nat (unat a div unat n * unat n))\<rparr>"

lemma x86_64_example_spec: "x86_64_spec x86_64_example"
  by (simp add: x86_64_spec_def x86_64_example_def unat_power_u64)

theorem kern_phys_addr_round_trip_witness:
  "x86_64_spec x86_64_example \<and>
   (\<exists>a. from_phys_addr 0x1000 = Inr a \<and> to_phys_addr x86_64_example a = Inr 0x1000)"
  using kern_phys_addr_round_trip[OF x86_64_example_spec] x86_64_example_spec
  by (simp add: mapped_phys_def)

end
