(* ===== verification/Phys_Mem.thy ===== *)
theory Phys_Mem
  imports Bootstrap Address
begin

text \<open>
  The physical memory allocator, kernel/src/memory/physical.rs: the bitmap
  allocator behind a lock that is empty until initialisation, with page
  numbers turned into pages of the direct mapping. Memory is a map from the
  kernel physical address of a 4 KiB page to its 512 words. The theory is the
  client of the \<open>page_allocator\<close> contract and gives the users of single frames,
  the page tables and the kernel stacks, the \<open>frame_allocator\<close> contract.
\<close>

section \<open>The allocator\<close>

datatype alloc_error = AllocError

type_synonym phys_allocator = bitmap_allocator
type_synonym memory = "u64 \<Rightarrow> u64 list option"

definition PAGE_SIZE :: nat where
  "PAGE_SIZE = 4096"

text \<open>`PhysicalMemoryAllocator::new`. The slice that the closure builds at the
  kernel physical address of the bitmap is given by \<open>slice_at\<close>.\<close>
definition phys_allocator_new ::
  "x86_64 \<Rightarrow> (u64 \<Rightarrow> nat \<Rightarrow> u64 list) \<Rightarrow> memory_region list \<Rightarrow> phys_allocator outcome" where
  "phys_allocator_new x slice_at regions =
     bootstrap_allocator PAGE_SIZE regions (\<lambda>bitmap_addr bitmap_len.
       and_then (phys_addr_new x (of_nat bitmap_addr)) (\<lambda>phys_addr.
       and_then (from_phys_addr phys_addr) (\<lambda>kern_phys_addr.
       Inr (slice_at kern_phys_addr bitmap_len))))"

definition with_phys_lock ::
  "(phys_allocator \<Rightarrow> ('r \<times> phys_allocator) outcome) \<Rightarrow> phys_allocator option \<Rightarrow>
   ('r \<times> phys_allocator option) outcome" where
  "with_phys_lock f lock =
     and_then (expect lock) (\<lambda>a.
     and_then (f a) (\<lambda>(r, a'). Inr (r, Some a')))"

definition allocate_pages ::
  "x86_64 \<Rightarrow> nat \<Rightarrow> phys_allocator \<Rightarrow> ((page_range, alloc_error) result \<times> phys_allocator) outcome" where
  "allocate_pages x n a =
     and_then (allocate_contiguous n a) (\<lambda>(r, a').
     case r of
       None \<Rightarrow> Inr (Err AllocError, a')
     | Some p \<Rightarrow>
         and_then (assert_that (p > 0)) (\<lambda>_.
         and_then (usize_mul p PAGE_SIZE) (\<lambda>off.
         and_then (phys_addr_new x (of_nat off)) (\<lambda>phys_addr.
         and_then (from_phys_addr phys_addr) (\<lambda>addr.
         and_then (from_start_addr x addr Size4KiB) (\<lambda>start_page.
         Inr (Ok (page_range_new start_page n), a')))))))"

definition allocate_page ::
  "x86_64 \<Rightarrow> phys_allocator \<Rightarrow> ((page, alloc_error) result \<times> phys_allocator) outcome" where
  "allocate_page x a =
     and_then (allocate_pages x 1 a) (\<lambda>(r, a').
     case r of
       Err e \<Rightarrow> Inr (Err e, a')
     | Ok pages \<Rightarrow>
         and_then (page_range_next kern_phys_addr_add (pages, 0)) (\<lambda>(first, it).
         and_then (expect first) (\<lambda>p.
         and_then (page_range_next kern_phys_addr_add it) (\<lambda>(second, _).
         and_then (assert_that (second = None)) (\<lambda>_.
         Inr (Ok p, a'))))))"

definition free_pages :: "x86_64 \<Rightarrow> page_range \<Rightarrow> phys_allocator \<Rightarrow> phys_allocator outcome" where
  "free_pages x pages a =
     and_then (to_phys_addr x (start_addr (range_start pages))) (\<lambda>phys_addr.
     free_contiguous (unat phys_addr div size_bytes (size_of_page (range_start pages)))
       (num_pages pages) a)"

definition free_page :: "x86_64 \<Rightarrow> page \<Rightarrow> phys_allocator \<Rightarrow> phys_allocator outcome" where
  "free_page x p a = free_pages x (page_range_new p 1) a"

section \<open>Physical buffers\<close>

definition zero_page :: "u64 \<Rightarrow> memory \<Rightarrow> memory" where
  "zero_page a m = m(a \<mapsto> replicate 512 0)"

text \<open>`PageRange::zero` on a range of 4 KiB pages.\<close>
definition zero_range :: "page_range \<Rightarrow> memory \<Rightarrow> memory" where
  "zero_range r m =
     fold (\<lambda>i. zero_page (start_addr (range_start r) + of_nat (i * PAGE_SIZE))) [0..<num_pages r] m"

record physical_buffer =
  buffer_pages :: page_range

definition allocate_zeroed_pages ::
  "x86_64 \<Rightarrow> nat \<Rightarrow> phys_allocator \<times> memory \<Rightarrow>
   ((physical_buffer, alloc_error) result \<times> phys_allocator \<times> memory) outcome" where
  "allocate_zeroed_pages x n s =
     (let (a, m) = s in
      and_then (allocate_pages x n a) (\<lambda>(r, a').
      case r of
        Err e \<Rightarrow> Inr (Err e, a', m)
      | Ok pages \<Rightarrow> Inr (Ok \<lparr>buffer_pages = pages\<rparr>, a', zero_range pages m)))"

definition allocate_zeroed ::
  "x86_64 \<Rightarrow> nat \<Rightarrow> phys_allocator \<times> memory \<Rightarrow>
   ((physical_buffer, alloc_error) result \<times> phys_allocator \<times> memory) outcome" where
  "allocate_zeroed x min_bytes = allocate_zeroed_pages x (div_ceil min_bytes PAGE_SIZE)"

definition buffer_address :: "physical_buffer \<Rightarrow> u64" where
  "buffer_address b = start_addr (range_start (buffer_pages b))"

text \<open>The length of the slice `as_slice_mut` returns.\<close>
definition buffer_len_bytes :: "physical_buffer \<Rightarrow> nat outcome" where
  "buffer_len_bytes b =
     usize_mul (num_pages (buffer_pages b)) (size_bytes (size_of_page (range_start (buffer_pages b))))"

definition drop_buffer :: "x86_64 \<Rightarrow> physical_buffer \<Rightarrow> phys_allocator \<Rightarrow> phys_allocator outcome" where
  "drop_buffer x b a = free_pages x (buffer_pages b) a"

section \<open>Frames\<close>

text \<open>The kernel physical address of a frame, and the frame of an address.\<close>
definition frame_addr :: "nat \<Rightarrow> u64" where
  "frame_addr p = of_nat (p * PAGE_SIZE) + kernel_physical_mapping_start"

definition frame_index :: "u64 \<Rightarrow> nat" where
  "frame_index a = unat (a - kernel_physical_mapping_start) div PAGE_SIZE"

definition frame_page :: "nat \<Rightarrow> page" where
  "frame_page p = \<lparr>start_addr = frame_addr p, size_of_page = Size4KiB\<rparr>"

text \<open>The allocator after bootstrap: the zero page is reserved, and all its pages
  are inside the direct mapping.\<close>
definition phys_inv :: "phys_allocator \<Rightarrow> bool" where
  "phys_inv a \<longleftrightarrow> alloc_inv a \<and> 0 \<in> used_pages a \<and> total_pages a * PAGE_SIZE \<le> 0x377777777777"

lemma frame_mapped:
  assumes "p * PAGE_SIZE \<le> 0x377777777777"
  shows "mapped_phys (of_nat (p * PAGE_SIZE))" "unat (of_nat (p * PAGE_SIZE) :: u64) = p * PAGE_SIZE"
proof -
  show "unat (of_nat (p * PAGE_SIZE) :: u64) = p * PAGE_SIZE"
    using assms by (intro unat_of_nat_u64) simp
  then show "mapped_phys (of_nat (p * PAGE_SIZE))"
    using assms by (simp add: mapped_phys_def word_le_nat_alt)
qed

lemma frame_index_addr [simp]:
  "p * PAGE_SIZE \<le> 0x377777777777 \<Longrightarrow> frame_index (frame_addr p) = p"
  using frame_mapped(2)[of p] by (simp add: frame_index_def frame_addr_def PAGE_SIZE_def)

lemma unat_frame_addr:
  "p * PAGE_SIZE \<le> 0x377777777777 \<Longrightarrow> unat (frame_addr p) = p * PAGE_SIZE + 0xFFFF800000000000"
  using unat_mapped_phys[OF frame_mapped(1)] frame_mapped(2)[of p] by (simp add: frame_addr_def)

lemma frame_addr_facts:
  assumes "x86_64_spec x" "p * PAGE_SIZE \<le> 0x377777777777"
  shows "phys_addr_new x (of_nat (p * PAGE_SIZE)) = Inr (of_nat (p * PAGE_SIZE))"
    and "from_phys_addr (of_nat (p * PAGE_SIZE)) = Inr (frame_addr p)"
    and "to_phys_addr x (frame_addr p) = Inr (of_nat (p * PAGE_SIZE))"
    and "from_start_addr x (frame_addr p) Size4KiB = Inr (frame_page p)"
    and "in_physical_mapping (frame_addr p)"
proof -
  note m = frame_mapped(1)[OF assms(2)]
  show "phys_addr_new x (of_nat (p * PAGE_SIZE)) = Inr (of_nat (p * PAGE_SIZE))"
    by (rule x86_64_specD(1)[OF assms(1) mapped_phys_less[OF m]])
  show "from_phys_addr (of_nat (p * PAGE_SIZE)) = Inr (frame_addr p)" "in_physical_mapping (frame_addr p)"
    using from_phys_addr_mapped[OF m] by (simp_all add: frame_addr_def)
  show "to_phys_addr x (frame_addr p) = Inr (of_nat (p * PAGE_SIZE))"
    using to_phys_addr_mapped[OF assms(1) m] by (simp add: frame_addr_def)
  have "4096 dvd unat (frame_addr p)"
    using unat_frame_addr[OF assms(2)] by (auto simp: PAGE_SIZE_def intro: dvd_add)
  then show "from_start_addr x (frame_addr p) Size4KiB = Inr (frame_page p)"
    by (simp add: from_start_addr_ok[OF assms(1)] frame_page_def)
qed

lemma frame_addr_inj:
  assumes "p * PAGE_SIZE \<le> 0x377777777777" "q * PAGE_SIZE \<le> 0x377777777777"
  shows "frame_addr p = frame_addr q \<longleftrightarrow> p = q"
  using frame_index_addr[OF assms(1)] frame_index_addr[OF assms(2)] by metis

section \<open>The operations\<close>

lemma allocate_pages_spec:
  assumes "x86_64_spec x" "phys_inv a" "0 < n"
  shows "\<exists>r a'. allocate_pages x n a = Inr (r, a') \<and> phys_inv a' \<and> total_pages a' = total_pages a \<and>
    (case r of
       Err e \<Rightarrow> used_pages a' = used_pages a \<and> (\<forall>s. \<not> free_run (used_pages a) (total_pages a) n s)
     | Ok rg \<Rightarrow> \<exists>p. 0 < p \<and> rg = page_range_new (frame_page p) n \<and>
         free_run (used_pages a) (total_pages a) n p \<and> used_pages a' = used_pages a \<union> {p..<p + n})"
proof -
  from assms(2) have inv: "alloc_inv a" and zero: "0 \<in> used_pages a"
    and small: "total_pages a * PAGE_SIZE \<le> 0x377777777777" by (auto simp: phys_inv_def)
  from bm.alloc_first_fit[OF inv assms(3)] obtain r a' where
    run: "allocate_contiguous n a = Inr (r, a')" by blast
  note ret = bm.alloc_returns[OF inv assms(3) run]
  show ?thesis
  proof (cases r)
    case None
    with run ret bm.alloc_complete(1)[OF inv assms(3)] assms(2) show ?thesis
      by (simp add: allocate_pages_def phys_inv_def)
  next
    case (Some p)
    from bm.alloc_result(1)[OF inv assms(3)] run Some
    have free: "free_run (used_pages a) (total_pages a) n p" by simp
    then have "p \<in> {p..<p + n}" "p + n \<le> total_pages a" using assms(3) by (auto simp: free_run_def)
    with free zero have "p \<noteq> 0" by (auto simp: free_run_def)
    have "p * PAGE_SIZE \<le> total_pages a * PAGE_SIZE" using \<open>p + n \<le> total_pages a\<close> by simp
    then have p: "p * PAGE_SIZE \<le> 0x377777777777" using small by linarith
    then have "fits_usize (p * PAGE_SIZE)" by (simp add: fits_usize_iff)
    with run Some \<open>p \<noteq> 0\<close> frame_addr_facts[OF assms(1) p]
    have "allocate_pages x n a = Inr (Ok (page_range_new (frame_page p) n), a')"
      by (simp add: allocate_pages_def)
    with ret Some free \<open>p \<noteq> 0\<close> assms(2) show ?thesis by (auto simp: phys_inv_def)
  qed
qed

lemma page_range_next_frame:
  "in_physical_mapping (frame_addr p) \<Longrightarrow>
   page_range_next kern_phys_addr_add (page_range_new (frame_page p) 1, 0) =
     Inr (Some (frame_page p), (page_range_new (frame_page p) 1, 1))"
  "page_range_next kern_phys_addr_add (page_range_new q 1, 1) = Inr (None, (page_range_new q 1, 1))"
  using uint_bounded[of "frame_addr p"]
  by (simp_all add: page_range_next_def page_range_new_def frame_page_def usize_mul_def fits_usize_def
      kern_phys_addr_add_def u64_add_def kern_phys_addr_new_def)

lemma free_run_frame:
  assumes "phys_inv a" "free_run (used_pages a) (total_pages a) n p" "i < n"
  shows "(p + i) * PAGE_SIZE \<le> 0x377777777777" "p + i \<notin> used_pages a"
proof -
  have "p + i < total_pages a" using assms(2,3) by (simp add: free_run_def)
  then have "(p + i) * PAGE_SIZE \<le> total_pages a * PAGE_SIZE" by simp
  then show "(p + i) * PAGE_SIZE \<le> 0x377777777777" using assms(1) unfolding phys_inv_def by linarith
  have "p + i \<in> {p..<p + n}" using assms(3) by simp
  then show "p + i \<notin> used_pages a" using assms(2) unfolding free_run_def by blast
qed

lemma allocate_page_spec:
  assumes "x86_64_spec x" "phys_inv a"
  shows "\<exists>r a'. allocate_page x a = Inr (r, a') \<and> phys_inv a' \<and> total_pages a' = total_pages a \<and>
    (case r of
       Err e \<Rightarrow> used_pages a' = used_pages a \<and> used_pages a = {..<total_pages a}
     | Ok pg \<Rightarrow> \<exists>p. pg = frame_page p \<and> p \<notin> used_pages a \<and> p * PAGE_SIZE \<le> 0x377777777777 \<and>
         used_pages a' = insert p (used_pages a))"
proof -
  from allocate_pages_spec[OF assms, of 1] obtain r a' where
    run: "allocate_pages x 1 a = Inr (r, a')" "phys_inv a'" "total_pages a' = total_pages a" and
    res: "case r of
       Err e \<Rightarrow> used_pages a' = used_pages a \<and> (\<forall>s. \<not> free_run (used_pages a) (total_pages a) 1 s)
     | Ok rg \<Rightarrow> \<exists>p. 0 < p \<and> rg = page_range_new (frame_page p) 1 \<and>
         free_run (used_pages a) (total_pages a) 1 p \<and> used_pages a' = used_pages a \<union> {p..<p + 1}"
    by auto
  show ?thesis
  proof (cases r)
    case (Ok rg)
    with res obtain p where p: "rg = page_range_new (frame_page p) 1"
        "free_run (used_pages a) (total_pages a) 1 p" "used_pages a' = insert p (used_pages a)"
      by auto
    from free_run_frame[OF assms(2) p(2), of 0] have
      f: "p * PAGE_SIZE \<le> 0x377777777777" "p \<notin> used_pages a" by simp_all
    have "allocate_page x a = Inr (Ok (frame_page p), a')"
      using run(1) Ok p(1) page_range_next_frame frame_addr_facts(5)[OF assms(1) f(1)]
      by (simp add: allocate_page_def)
    with run(2,3) p f show ?thesis by auto
  next
    case (Err e)
    with res have "used_pages a = {..<total_pages a}"
      using used_pages_bounded[of a] by (fastforce simp: free_run_def)
    with run res Err show ?thesis by (simp add: allocate_page_def)
  qed
qed

text \<open>The number of frames that are left: an allocation takes one and fails only at none.\<close>
definition free_frames :: "phys_allocator \<Rightarrow> nat" where
  "free_frames a = card ({..<total_pages a} - used_pages a)"

lemma allocate_page_count:
  assumes "x86_64_spec x" "phys_inv a" "allocate_page x a = Inr (r, a')"
  shows "phys_inv a' \<and> (case r of Err e \<Rightarrow> free_frames a = 0 | Ok pg \<Rightarrow> free_frames a = Suc (free_frames a'))"
proof -
  obtain r0 a0 where spec: "allocate_page x a = Inr (r0, a0)" "phys_inv a0" "total_pages a0 = total_pages a"
    "case r0 of
       Err e \<Rightarrow> used_pages a0 = used_pages a \<and> used_pages a = {..<total_pages a}
     | Ok pg \<Rightarrow> \<exists>p. pg = frame_page p \<and> p \<notin> used_pages a \<and> p * PAGE_SIZE \<le> 0x377777777777 \<and>
         used_pages a0 = insert p (used_pages a)"
    using allocate_page_spec[OF assms(1,2)] by blast
  have "r0 = r" "a0 = a'" using spec(1) assms(3) by simp_all
  note inv = spec(2)[unfolded this] and same = spec(3)[unfolded this] and res = spec(4)[unfolded this]
  show ?thesis
  proof (cases r)
    case (Ok pg)
    with res obtain p where p: "p \<notin> used_pages a" "used_pages a' = insert p (used_pages a)" by auto
    then have "p < total_pages a" using used_pages_bounded[of a'] same by auto
    with p have split: "{..<total_pages a} - used_pages a = insert p ({..<total_pages a} - used_pages a')"
      by auto
    have "p \<notin> {..<total_pages a} - used_pages a'" using p(2) by simp
    then have "card ({..<total_pages a} - used_pages a) = Suc (card ({..<total_pages a} - used_pages a'))"
      unfolding split by (intro card_insert_disjoint) simp_all
    then show ?thesis using Ok inv same by (simp add: free_frames_def)
  next
    case (Err e)
    with res inv show ?thesis by (simp add: free_frames_def)
  qed
qed

lemma free_pages_spec:
  assumes "x86_64_spec x" "phys_inv a" "0 < p" "0 < n" "{p..<p + n} \<subseteq> used_pages a"
  shows "\<exists>a'. free_pages x (page_range_new (frame_page p) n) a = Inr a' \<and> phys_inv a' \<and>
    total_pages a' = total_pages a \<and> used_pages a' = used_pages a - {p..<p + n}"
proof -
  have inv: "alloc_inv a" using assms(2) by (simp add: phys_inv_def)
  have "p \<in> used_pages a" using assms(4,5) by auto
  then have "p < total_pages a" using used_pages_bounded by blast
  then have "p * PAGE_SIZE \<le> total_pages a * PAGE_SIZE" by simp
  then have p: "p * PAGE_SIZE \<le> 0x377777777777" using assms(2) unfolding phys_inv_def by linarith
  from frame_addr_facts(3)[OF assms(1) p] frame_mapped(2)[OF p]
  have "free_pages x (page_range_new (frame_page p) n) a = free_contiguous p n a"
    by (simp add: free_pages_def page_range_new_def frame_page_def PAGE_SIZE_def)
  with bm.free_used[OF inv assms(4,5)] assms(2,3) show ?thesis
    by (auto simp: phys_inv_def)
qed

section \<open>The contract of single frames\<close>

locale frame_allocator =
  fixes inv :: "'s \<Rightarrow> bool"
    and frames :: "'s \<Rightarrow> nat set"
    and alloc :: "'s \<Rightarrow> ((page, alloc_error) result \<times> 's) outcome"
    and free :: "page \<Rightarrow> 's \<Rightarrow> 's outcome"
  assumes alloc_law: "inv s \<Longrightarrow> \<exists>r s'. alloc s = Inr (r, s') \<and> inv s' \<and>
      (case r of Err e \<Rightarrow> frames s' = frames s
       | Ok pg \<Rightarrow> \<exists>p. pg = frame_page p \<and> p \<notin> frames s \<and> p * PAGE_SIZE \<le> 0x377777777777 \<and>
           frames s' = insert p (frames s))"
    and zero_frame: "inv s \<Longrightarrow> 0 \<in> frames s"
    and free_law: "inv s \<Longrightarrow> p \<in> frames s \<Longrightarrow> p \<noteq> 0 \<Longrightarrow>
      \<exists>s'. free (frame_page p) s = Inr s' \<and> inv s' \<and> frames s' = frames s - {p}"
begin

text \<open>A frame just allocated is at an address that no frame in use has.\<close>
lemma alloc_ok:
  assumes "inv s" "alloc s = Inr (Ok pg, s')"
  obtains p where "pg = frame_page p" "p * PAGE_SIZE \<le> 0x377777777777" "p \<notin> frames s" "p \<noteq> 0"
    "frames s' = insert p (frames s)" "inv s'"
    "\<And>a. frame_index a \<in> frames s \<Longrightarrow> a \<noteq> frame_addr p"
proof -
  from alloc_law[OF assms(1)] assms(2) obtain p where p: "pg = frame_page p" "p \<notin> frames s"
      "p * PAGE_SIZE \<le> 0x377777777777" "frames s' = insert p (frames s)" "inv s'"
    by auto
  moreover have "a \<noteq> frame_addr p" if "frame_index a \<in> frames s" for a
    using that p(2,3) by auto
  moreover have "p \<noteq> 0" using p(2) zero_frame[OF assms(1)] by metis
  ultimately show thesis using that by blast
qed

lemma alloc_err:
  assumes "inv s" "alloc s = Inr (Err e, s')"
  shows "inv s'" "frames s' = frames s"
  using alloc_law[OF assms(1)] assms(2) by auto

lemma alloc_total:
  assumes "inv s"
  shows "\<exists>r s'. alloc s = Inr (r, s')"
  using alloc_law[OF assms] by blast

lemma alloc_then_free:
  assumes "inv s" "alloc s = Inr (Ok pg, s')"
  shows "\<exists>s''. free pg s' = Inr s'' \<and> inv s'' \<and> frames s'' = frames s"
proof -
  from alloc_ok[OF assms] obtain p where p: "pg = frame_page p" "p \<notin> frames s" "p \<noteq> 0"
      "frames s' = insert p (frames s)" "inv s'" by blast
  with free_law[OF p(5), of p] show ?thesis by auto
qed

end

text \<open>The kernel's allocator satisfies it, for every x86_64 crate that does what it
  documents.\<close>
interpretation frames: frame_allocator "\<lambda>a. x86_64_spec x \<and> phys_inv a" used_pages
  "allocate_page x" "free_page x" for x
proof
  fix a :: bitmap_allocator assume "x86_64_spec x \<and> phys_inv a"
  then have x: "x86_64_spec x" and a: "phys_inv a" by simp_all
  show "0 \<in> used_pages a" using a by (simp add: phys_inv_def)
  from allocate_page_spec[OF x a] x
  show "\<exists>r a'. allocate_page x a = Inr (r, a') \<and> (x86_64_spec x \<and> phys_inv a') \<and>
      (case r of Err e \<Rightarrow> used_pages a' = used_pages a
       | Ok pg \<Rightarrow> \<exists>p. pg = frame_page p \<and> p \<notin> used_pages a \<and> p * PAGE_SIZE \<le> 0x377777777777 \<and>
           used_pages a' = insert p (used_pages a))"
    by (elim exE conjE) (auto split: result.splits)
  fix p assume "p \<in> used_pages a" "p \<noteq> 0"
  with free_pages_spec[OF x a, of p 1] x
  show "\<exists>a'. free_page x (frame_page p) a = Inr a' \<and> (x86_64_spec x \<and> phys_inv a') \<and>
      used_pages a' = used_pages a - {p}"
    by (auto simp: free_page_def)
qed

section \<open>Properties\<close>

text \<open>A request for \<open>n\<close> physical pages never panics. It either fails because no
  run of \<open>n\<close> frames is free, or returns a range of \<open>n\<close> frames in the direct
  mapping that nobody held, not the zero page; returning that range makes the
  allocator's bitmap what it was.\<close>
theorem physical_pages_round_trip:
  assumes "x86_64_spec x" "phys_inv a" "0 < n"
  shows "\<exists>r a'. allocate_pages x n a = Inr (r, a') \<and> phys_inv a' \<and>
    (case r of
       Err e \<Rightarrow> \<forall>s. \<not> free_run (used_pages a) (total_pages a) n s
     | Ok rg \<Rightarrow> num_pages rg = n \<and>
         (\<exists>p>0. start_addr (range_start rg) = frame_addr p \<and> {p..<p + n} \<inter> used_pages a = {} \<and>
            (\<forall>i<n. in_physical_mapping (frame_addr (p + i)))) \<and>
         (\<exists>a''. free_pages x rg a' = Inr a'' \<and> bitmap a'' = bitmap a))"
proof -
  from allocate_pages_spec[OF assms] obtain r a' where run: "allocate_pages x n a = Inr (r, a')"
      "phys_inv a'" "total_pages a' = total_pages a" and res: "case r of
       Err e \<Rightarrow> used_pages a' = used_pages a \<and> (\<forall>s. \<not> free_run (used_pages a) (total_pages a) n s)
     | Ok rg \<Rightarrow> \<exists>p. 0 < p \<and> rg = page_range_new (frame_page p) n \<and>
         free_run (used_pages a) (total_pages a) n p \<and> used_pages a' = used_pages a \<union> {p..<p + n}"
    by auto
  show ?thesis
  proof (cases r)
    case (Ok rg)
    with res obtain p where p: "0 < p" "rg = page_range_new (frame_page p) n"
        "free_run (used_pages a) (total_pages a) n p" "used_pages a' = used_pages a \<union> {p..<p + n}"
      by auto
    have map: "in_physical_mapping (frame_addr (p + i))" if "i < n" for i
      using frame_addr_facts(5)[OF assms(1)] free_run_frame(1)[OF assms(2) p(3) that] by blast
    have disj: "{p..<p + n} \<inter> used_pages a = {}" using p(3) by (simp add: free_run_def)
    obtain a'' where a'': "free_pages x rg a' = Inr a''" "total_pages a'' = total_pages a"
        "used_pages a'' = used_pages a' - {p..<p + n}"
      using free_pages_spec[OF assms(1) run(2) p(1) assms(3)] p(2,4) run(3) by auto
    have "used_pages a'' = used_pages a" using a''(3) p(4) disj by blast
    from bitmap_eqI[OF this a''(2)] a''(1)
    have "\<exists>a''. free_pages x rg a' = Inr a'' \<and> bitmap a'' = bitmap a" by blast
    moreover have "\<exists>p>0. start_addr (range_start rg) = frame_addr p \<and> {p..<p + n} \<inter> used_pages a = {} \<and>
            (\<forall>i<n. in_physical_mapping (frame_addr (p + i)))"
      using p(1,2) map disj by (intro exI[of _ p]) (simp add: page_range_new_def frame_page_def)
    moreover have "num_pages rg = n" using p(2) by (simp add: page_range_new_def)
    ultimately show ?thesis using run(1,2) Ok by auto
  qed (use run res in auto)
qed

text \<open>The allocator that boot builds meets the conditions that its users rely
  on: with memory below the end of the direct mapping and the first page not
  reported as free, initialisation succeeds, the zero page is reserved and
  every page has an address in the direct mapping.\<close>
theorem phys_allocator_new_inv:
  assumes "x86_64_spec x" "memory_map_ok PAGE_SIZE rs" "end_of_memory rs \<le> 0x377777700000"
    and "0 \<notin> free_pages_of PAGE_SIZE rs" "\<And>a n. length (slice_at a n) = n"
  shows "\<exists>a. phys_allocator_new x slice_at rs = Inr a \<and> phys_inv a"
proof -
  let ?f = "\<lambda>bitmap_addr bitmap_len. and_then (phys_addr_new x (of_nat bitmap_addr)) (\<lambda>phys_addr.
       and_then (from_phys_addr phys_addr) (\<lambda>kern_phys_addr. Inr (slice_at kern_phys_addr bitmap_len)))"
  have "slices_of_length (end_of_memory rs) ?f"
    unfolding slices_of_length_def
  proof (intro allI impI)
    fix s n :: nat assume "s + n \<le> end_of_memory rs"
    then have s: "s \<le> 0x377777777777" using assms(3) by linarith
    then have "mapped_phys (of_nat s)" by (simp add: mapped_phys_def word_le_nat_alt)
    then show "\<exists>xs. ?f s n = Inr xs \<and> length xs = n"
      using x86_64_specD(1)[OF assms(1) mapped_phys_less] from_phys_addr_mapped(1) assms(5) by simp
  qed
  from bootstrap_allocator_spec[OF assms(2) this] obtain r a where
    a: "bootstrap_allocator PAGE_SIZE rs ?f = Inr a" "alloc_inv a"
      "total_pages a = 64 * bitmap_chunks PAGE_SIZE rs"
    and used: "used_pages a = {..<total_pages a} - free_pages_of PAGE_SIZE rs \<union>
      touched_pages PAGE_SIZE (div_ceil (start_address r) PAGE_SIZE * PAGE_SIZE) (bitmap_chunks PAGE_SIZE rs)"
    and r: "r \<in> set rs" "touched_pages PAGE_SIZE (div_ceil (start_address r) PAGE_SIZE * PAGE_SIZE)
      (bitmap_chunks PAGE_SIZE rs) \<subseteq> inner_pages PAGE_SIZE r"
    by blast
  let ?b = "div_ceil (end_of_memory rs) PAGE_SIZE"
  have "64 * bitmap_chunks PAGE_SIZE rs < ?b + 64" "PAGE_SIZE * ?b < end_of_memory rs + PAGE_SIZE"
    unfolding bitmap_chunks_def by (rule div_ceil_less; simp add: PAGE_SIZE_def)+
  then have "total_pages a * PAGE_SIZE \<le> 0x377777777777"
    using a(3) assms(3) by (simp add: PAGE_SIZE_def)
  moreover have "0 < total_pages a"
  proof -
    from assms(2) obtain r' p where "r' \<in> set rs" "p \<in> inner_pages PAGE_SIZE r'"
      unfolding memory_map_ok_def by blast
    with inner_pages_bound[of PAGE_SIZE r' rs] a(3) show ?thesis by (force simp: PAGE_SIZE_def)
  qed
  ultimately have "phys_inv a" using a(2) used assms(4) by (simp add: phys_inv_def)
  with a(1) show ?thesis by (simp add: phys_allocator_new_def)
qed

theorem phys_allocator_new_inv_witness:
  "x86_64_spec x86_64_example \<and> memory_map_ok PAGE_SIZE example_map \<and>
   end_of_memory example_map \<le> 0x377777700000 \<and> 0 \<notin> free_pages_of PAGE_SIZE example_map \<and>
   (\<exists>a. phys_allocator_new x86_64_example (\<lambda>_ n. replicate n 0) example_map = Inr a \<and> phys_inv a)"
proof -
  have "memory_map_ok PAGE_SIZE example_map" "0 \<notin> free_pages_of PAGE_SIZE example_map"
      "end_of_memory example_map \<le> 0x377777700000"
    using example_map_facts by (simp_all add: PAGE_SIZE_def)
      (simp add: end_of_memory_def example_map_def)
  with phys_allocator_new_inv[OF x86_64_example_spec this(1,3,2), of "\<lambda>_ n. replicate n 0"]
  show ?thesis using x86_64_example_spec by simp
qed

text \<open>A small allocator: two chunks of pages of which the first eight are reserved.\<close>
definition small_allocator :: phys_allocator where
  "small_allocator = new_allocator [0xFF, 0]"

lemma small_allocator_inv: "phys_inv small_allocator"
proof -
  have "page_used small_allocator 0" by code_simp
  moreover have "alloc_inv small_allocator"
    unfolding small_allocator_def by (rule alloc_inv_new) (simp add: fits_usize_def)
  moreover have "total_pages small_allocator = 128"
    by (simp add: small_allocator_def new_allocator_def total_pages_def bits_per_chunk_def)
  ultimately show ?thesis by (simp add: phys_inv_def used_pages_def PAGE_SIZE_def)
qed

theorem physical_pages_round_trip_witness:
  "x86_64_spec x86_64_example \<and> phys_inv small_allocator \<and> 0 < (3::nat) \<and>
   (\<exists>r a'. allocate_pages x86_64_example 3 small_allocator = Inr (r, a') \<and> phys_inv a')"
  using physical_pages_round_trip[OF x86_64_example_spec small_allocator_inv, of 3]
    x86_64_example_spec small_allocator_inv by auto

end
