(* ===== verification/Page_Table.thy ===== *)
theory Page_Table
  imports Phys_Mem
begin

text \<open>
  Four-level page tables, kernel/src/memory/page_table.rs. A table is a page of
  memory, 512 entries of 64 bits, and a reference to a table is its kernel
  physical address; following an entry reads the memory again, so aliasing of
  tables is visible in the model. TLB flushes have no effect on this state.
  The operations are modelled with the frames they allocate, the errors they
  return and the panics of entries they cannot interpret. This theory holds
  the definitions; \<open>Page_Table_Proofs\<close> shows what they do on well-formed
  tables.
\<close>

section \<open>Flags\<close>

text \<open>The `bitflags` type is its bits.\<close>
type_synonym entry_flags = u64

definition PRESENT :: entry_flags where "PRESENT = 1"
definition WRITABLE :: entry_flags where "WRITABLE = push_bit 1 1"
definition USER_ACCESSIBLE :: entry_flags where "USER_ACCESSIBLE = push_bit 2 1"
definition HUGE_PAGE :: entry_flags where "HUGE_PAGE = push_bit 7 1"
definition NO_EXECUTE :: entry_flags where "NO_EXECUTE = push_bit 63 1"

text \<open>The union of all the declared flags: bits 0 to 11 and 52 to 63.\<close>
definition all_flags :: entry_flags where
  "all_flags = 0xFFF0000000000FFF"

definition contains_flag :: "entry_flags \<Rightarrow> entry_flags \<Rightarrow> bool" where
  "contains_flag fs f \<longleftrightarrow> fs AND f = f"

section \<open>Levels and indices\<close>

datatype page_table_level = Level1 | Level2 | Level3 | Level4

fun level_number :: "page_table_level \<Rightarrow> nat" where
  "level_number Level1 = 1"
| "level_number Level2 = 2"
| "level_number Level3 = 3"
| "level_number Level4 = 4"

fun next_lower_level :: "page_table_level \<Rightarrow> page_table_level option" where
  "next_lower_level Level4 = Some Level3"
| "next_lower_level Level3 = Some Level2"
| "next_lower_level Level2 = Some Level1"
| "next_lower_level Level1 = None"

definition NUM_PAGE_TABLE_ENTRIES :: nat where
  "NUM_PAGE_TABLE_ENTRIES = 512"

definition page_table_index_new :: "u16 \<Rightarrow> u16 outcome" where
  "page_table_index_new index =
     and_then (assert_that (unat index < NUM_PAGE_TABLE_ENTRIES)) (\<lambda>_. Inr index)"

definition page_table_index_from_address :: "page_table_level \<Rightarrow> u64 \<Rightarrow> u16 outcome" where
  "page_table_index_from_address level a =
     (let shift = 12 + (level_number level - 1) * 9;
          index = ucast (drop_bit shift a AND 0x1FF)
      in page_table_index_new index)"

definition sign_extend_virtual_address :: "u64 \<Rightarrow> u64" where
  "sign_extend_virtual_address a =
     (if a AND 0x0000800000000000 = 0 then a
      else (a OR 0x0000800000000000) OR 0xFFFF800000000000)"

definition page_table_entry_virtual_address :: "x86_64 \<Rightarrow> page_table_level \<Rightarrow> u16 \<Rightarrow> u64 outcome" where
  "page_table_entry_virtual_address x level index =
     (let shift = (level_number level - 1) * 9 + 12;
          raw_addr = push_bit shift (ucast index)
      in virt_addr_new x (sign_extend_virtual_address raw_addr))"

section \<open>Entries\<close>

definition address_mask :: u64 where
  "address_mask = 0x000FFFFFFFFFF000"

definition flags_of :: "u64 \<Rightarrow> entry_flags" where
  "flags_of e = e AND all_flags"

definition raw_address :: "u64 \<Rightarrow> u64" where
  "raw_address e = e AND address_mask"

definition set_entry_flags :: "entry_flags \<Rightarrow> u64 \<Rightarrow> u64" where
  "set_entry_flags fs e = raw_address e OR fs"

definition entry_address :: "x86_64 \<Rightarrow> u64 \<Rightarrow> u64 outcome" where
  "entry_address x e = and_then (phys_addr_new x (raw_address e)) from_phys_addr"

definition set_entry_address :: "u64 \<Rightarrow> u64 \<Rightarrow> u64 outcome" where
  "set_entry_address p e =
     and_then (assert_that (p AND NOT address_mask = 0)) (\<lambda>_. Inr (e OR p))"

definition is_present :: "u64 \<Rightarrow> bool" where
  "is_present e \<longleftrightarrow> contains_flag (flags_of e) PRESENT"

datatype page_table_target =
    Unmapped
  | PageTarget page entry_flags
  | NextTable page_table_level u64

definition entry_target :: "x86_64 \<Rightarrow> page_table_level \<Rightarrow> u64 \<Rightarrow> page_table_target outcome" where
  "entry_target x level e =
     (if \<not> is_present e then Inr Unmapped
      else if contains_flag (flags_of e) HUGE_PAGE then
        and_then (case level of
             Level4 \<Rightarrow> Inl ExplicitPanic
           | Level3 \<Rightarrow> Inr Size1GiB
           | Level2 \<Rightarrow> Inr Size2MiB
           | Level1 \<Rightarrow> Inl ExplicitPanic) (\<lambda>sz.
        and_then (entry_address x e) (\<lambda>a.
        and_then (from_start_addr x a sz) (\<lambda>p.
        Inr (PageTarget p (flags_of e)))))
      else
        and_then (entry_address x e) (\<lambda>a.
        case next_lower_level level of
          None \<Rightarrow>
            and_then (from_start_addr x a Size4KiB) (\<lambda>p.
            Inr (PageTarget p (flags_of e)))
        | Some lower \<Rightarrow> Inr (NextTable lower a)))"

definition set_target_page :: "x86_64 \<Rightarrow> page \<Rightarrow> entry_flags \<Rightarrow> u64 \<Rightarrow> u64 outcome" where
  "set_target_page x p fs e =
     and_then (to_phys_addr x (start_addr p)) (\<lambda>phys.
     and_then (set_entry_address phys e) (\<lambda>e'.
     Inr (set_entry_flags (fs OR PRESENT) e')))"

section \<open>Tables in memory\<close>

record vm =
  vm_alloc :: phys_allocator
  vm_mem :: memory

text \<open>Reading and writing one entry through a reference to a table.\<close>
definition read_entry :: "memory \<Rightarrow> u64 \<Rightarrow> nat \<Rightarrow> u64 outcome" where
  "read_entry m table i =
     (case m table of None \<Rightarrow> Inl UndefinedBehaviour | Some t \<Rightarrow> index_at t i)"

definition write_entry :: "u64 \<Rightarrow> nat \<Rightarrow> u64 \<Rightarrow> memory \<Rightarrow> memory" where
  "write_entry table i e m =
     (case m table of None \<Rightarrow> m | Some t \<Rightarrow> m(table \<mapsto> t[i := e]))"

definition address_entry :: "memory \<Rightarrow> u64 \<Rightarrow> page_table_level \<Rightarrow> u64 \<Rightarrow> (nat \<times> u64) outcome" where
  "address_entry m table level a =
     and_then (page_table_index_from_address level a) (\<lambda>index.
     and_then (read_entry m table (unat index)) (\<lambda>e.
     Inr (unat index, e)))"

definition allocate_and_map_child_table ::
  "x86_64 \<Rightarrow> u64 \<Rightarrow> nat \<Rightarrow> u64 \<Rightarrow> entry_flags \<Rightarrow> vm \<Rightarrow> ((u64, alloc_error) result \<times> vm) outcome" where
  "allocate_and_map_child_table x table i e fs s =
     and_then (allocate_page x (vm_alloc s)) (\<lambda>(r, a').
     case r of
       Err err \<Rightarrow> Inr (Err err, s\<lparr>vm_alloc := a'\<rparr>)
     | Ok new_page \<Rightarrow>
         let m = zero_page (start_addr new_page) (vm_mem s) in
         and_then (set_target_page x new_page fs e) (\<lambda>e'.
         Inr (Ok (start_addr new_page),
              s\<lparr>vm_alloc := a', vm_mem := write_entry table i e' m\<rparr>)))"

section \<open>Translation\<close>

record address_page_mapping =
  mapped_page :: page
  mapped_flags :: entry_flags
  mapped_offset :: u64

datatype translate_result = NotMapped | Mapped address_page_mapping

lemma entry_target_lower:
  "entry_target x level e = Inr (NextTable lower a) \<Longrightarrow> next_lower_level level = Some lower"
  by (auto simp: entry_target_def run_facts split: if_splits option.splits)

lemma next_lower_level_less:
  "next_lower_level level = Some lower \<Longrightarrow> level_number lower < level_number level"
  by (cases level) auto

function translate_from ::
  "x86_64 \<Rightarrow> memory \<Rightarrow> page_table_level \<Rightarrow> u64 \<Rightarrow> u64 \<Rightarrow> translate_result outcome" where
  "translate_from x m level table a =
     and_then (address_entry m table level a) (\<lambda>(_, e).
     and_then (entry_target x level e) (\<lambda>target.
     case target of
       Unmapped \<Rightarrow> Inr NotMapped
     | PageTarget p fs \<Rightarrow>
         Inr (Mapped \<lparr>mapped_page = p, mapped_flags = fs,
                     mapped_offset = a mod of_nat (size_bytes (size_of_page p))\<rparr>)
     | NextTable lower table' \<Rightarrow> translate_from x m lower table' a))"
  by pat_completeness auto
termination
  by (relation "measure (\<lambda>(x, m, level, table, a). level_number level)")
    (auto dest!: entry_target_lower next_lower_level_less)

declare translate_from.simps [simp del]

definition translate_address :: "x86_64 \<Rightarrow> memory \<Rightarrow> u64 \<Rightarrow> u64 \<Rightarrow> translate_result outcome" where
  "translate_address x m root a = translate_from x m Level4 root a"

definition mapping_address :: "address_page_mapping \<Rightarrow> u64 outcome" where
  "mapping_address am = kern_phys_addr_add (start_addr (mapped_page am)) (unat (mapped_offset am))"

section \<open>Mapping\<close>

datatype map_target = ExistingPhysPage page | NewPhysPage

definition get_target_page ::
  "x86_64 \<Rightarrow> map_target \<Rightarrow> page_size \<Rightarrow> phys_allocator \<Rightarrow> ((page, alloc_error) result \<times> phys_allocator) outcome" where
  "get_target_page x target sz a =
     (case target of
        ExistingPhysPage p \<Rightarrow>
          and_then (assert_that (size_of_page p = sz)) (\<lambda>_. Inr (Ok p, a))
      | NewPhysPage \<Rightarrow>
          and_then (assert_that (size_bytes sz = PAGE_SIZE)) (\<lambda>_. allocate_page x a))"

datatype map_error =
    PhysicalPageAllocationFailed alloc_error
  | PageAlreadyMapped page entry_flags

function map_from ::
  "x86_64 \<Rightarrow> page_table_level \<Rightarrow> u64 \<Rightarrow> page \<Rightarrow> map_target \<Rightarrow> entry_flags \<Rightarrow> vm \<Rightarrow>
   ((page, map_error) result \<times> vm) outcome" where
  "map_from x level table p target fs s =
     and_then (address_entry (vm_mem s) table level (start_addr p)) (\<lambda>(i, e).
     and_then (entry_target x level e) (\<lambda>t.
     case t of
       Unmapped \<Rightarrow>
         (case next_lower_level level of
            None \<Rightarrow>
              and_then (get_target_page x target (size_of_page p) (vm_alloc s)) (\<lambda>(r, a').
              case r of
                Err err \<Rightarrow> Inr (Err (PhysicalPageAllocationFailed err), s\<lparr>vm_alloc := a'\<rparr>)
              | Ok target_page \<Rightarrow>
                  and_then (set_target_page x target_page fs e) (\<lambda>e'.
                  Inr (Ok target_page,
                       s\<lparr>vm_alloc := a', vm_mem := write_entry table i e' (vm_mem s)\<rparr>)))
          | Some lower \<Rightarrow>
              and_then (allocate_and_map_child_table x table i e
                  (fs AND (PRESENT OR WRITABLE OR USER_ACCESSIBLE)) s) (\<lambda>(r, s').
              case r of
                Err err \<Rightarrow> Inr (Err (PhysicalPageAllocationFailed err), s')
              | Ok table' \<Rightarrow> map_from x lower table' p target fs s'))
     | PageTarget existing efs \<Rightarrow> Inr (Err (PageAlreadyMapped existing efs), s)
     | NextTable lower table' \<Rightarrow> map_from x lower table' p target fs s))"
  by pat_completeness auto
termination
  by (relation "measure (\<lambda>(x, level, table, p, target, fs, s). level_number level)")
    (auto dest!: entry_target_lower next_lower_level_less)

declare map_from.simps [simp del]

definition map_to ::
  "x86_64 \<Rightarrow> u64 \<Rightarrow> page \<Rightarrow> map_target \<Rightarrow> entry_flags \<Rightarrow> vm \<Rightarrow> ((page, map_error) result \<times> vm) outcome" where
  "map_to x root p target fs s = map_from x Level4 root p target fs s"

section \<open>Changing flags\<close>

datatype set_flags_error = SetFlagsPageNotMapped

function set_flags_from ::
  "x86_64 \<Rightarrow> page_table_level \<Rightarrow> u64 \<Rightarrow> page \<Rightarrow> entry_flags \<Rightarrow> memory \<Rightarrow>
   ((unit, set_flags_error) result \<times> memory) outcome" where
  "set_flags_from x level table p fs m =
     and_then (address_entry m table level (start_addr p)) (\<lambda>(i, e).
     and_then (entry_target x level e) (\<lambda>t.
     case t of
       Unmapped \<Rightarrow> Inr (Err SetFlagsPageNotMapped, m)
     | PageTarget _ _ \<Rightarrow> Inr (Ok (), write_entry table i (set_entry_flags fs e) m)
     | NextTable lower table' \<Rightarrow> set_flags_from x lower table' p fs m))"
  by pat_completeness auto
termination
  by (relation "measure (\<lambda>(x, level, table, p, fs, m). level_number level)")
    (auto dest!: entry_target_lower next_lower_level_less)

declare set_flags_from.simps [simp del]

definition set_flags ::
  "x86_64 \<Rightarrow> u64 \<Rightarrow> page \<Rightarrow> entry_flags \<Rightarrow> memory \<Rightarrow> ((unit, set_flags_error) result \<times> memory) outcome" where
  "set_flags x root p fs m = set_flags_from x Level4 root p fs m"

section \<open>Unmapping\<close>

datatype unmap_error = UnmapPageNotMapped | PageWrongSize page_size page_size

function unmap_from ::
  "x86_64 \<Rightarrow> page_table_level \<Rightarrow> u64 \<Rightarrow> page \<Rightarrow> bool \<Rightarrow> vm \<Rightarrow> ((page, unmap_error) result \<times> vm) outcome" where
  "unmap_from x level table p free_physical_page s =
     and_then (address_entry (vm_mem s) table level (start_addr p)) (\<lambda>(i, e).
     and_then (entry_target x level e) (\<lambda>t.
     case t of
       Unmapped \<Rightarrow> Inr (Err UnmapPageNotMapped, s)
     | PageTarget target_page _ \<Rightarrow>
         if size_of_page target_page \<noteq> size_of_page p then
           Inr (Err (PageWrongSize (size_of_page p) (size_of_page target_page)), s)
         else
           let s' = s\<lparr>vm_mem := write_entry table i 0 (vm_mem s)\<rparr> in
           if free_physical_page then
             and_then (free_page x target_page (vm_alloc s')) (\<lambda>a'.
             Inr (Ok target_page, s'\<lparr>vm_alloc := a'\<rparr>))
           else Inr (Ok target_page, s')
     | NextTable lower table' \<Rightarrow> unmap_from x lower table' p free_physical_page s))"
  by pat_completeness auto
termination
  by (relation "measure (\<lambda>(x, level, table, p, f, s). level_number level)")
    (auto dest!: entry_target_lower next_lower_level_less)

declare unmap_from.simps [simp del]

definition unmap ::
  "x86_64 \<Rightarrow> u64 \<Rightarrow> page \<Rightarrow> bool \<Rightarrow> vm \<Rightarrow> ((page, unmap_error) result \<times> vm) outcome" where
  "unmap x root p free_physical_page s = unmap_from x Level4 root p free_physical_page s"

section \<open>Whole tables\<close>

definition allocate_clone :: "x86_64 \<Rightarrow> u64 \<Rightarrow> vm \<Rightarrow> (u64 \<times> vm) outcome" where
  "allocate_clone x root s =
     and_then (allocate_page x (vm_alloc s)) (\<lambda>(r, a').
     case r of
       Err _ \<Rightarrow> Inl ExpectFailed
     | Ok p \<Rightarrow>
         (case vm_mem s root of
            None \<Rightarrow> Inl UndefinedBehaviour
          | Some t \<Rightarrow>
              Inr (start_addr p, s\<lparr>vm_alloc := a', vm_mem := (vm_mem s)(start_addr p \<mapsto> t)\<rparr>)))"

definition unmap_lower_half :: "u64 \<Rightarrow> memory \<Rightarrow> memory outcome" where
  "unmap_lower_half root =
     for_each (\<lambda>i m. and_then (read_entry m root i) (\<lambda>_. Inr (write_entry root i 0 m))) [0..<256]"

text \<open>One turn of the loop of `fill_top_half_entries`.\<close>
definition fill_top_half_entry :: "x86_64 \<Rightarrow> u64 \<Rightarrow> nat \<Rightarrow> vm \<Rightarrow> vm outcome" where
  "fill_top_half_entry x root i s =
     and_then (read_entry (vm_mem s) root i) (\<lambda>e.
     and_then (entry_target x Level4 e) (\<lambda>t.
     case t of
       Unmapped \<Rightarrow>
         and_then (allocate_and_map_child_table x root i e (PRESENT OR WRITABLE) s) (\<lambda>(r, s').
         case r of Err _ \<Rightarrow> Inl ExpectFailed | Ok _ \<Rightarrow> Inr s')
     | PageTarget _ _ \<Rightarrow> Inl ExplicitPanic
     | NextTable _ _ \<Rightarrow>
         Inr (s\<lparr>vm_mem := write_entry root i (set_entry_flags (PRESENT OR WRITABLE) e) (vm_mem s)\<rparr>)))"

definition fill_top_half_entries :: "x86_64 \<Rightarrow> u64 \<Rightarrow> vm \<Rightarrow> vm outcome" where
  "fill_top_half_entries x root = for_each (fill_top_half_entry x root) [256..<512]"

end
