(* ===== verification/Page_Table_Proofs.thy ===== *)
theory Page_Table_Proofs
  imports Page_Table
begin

text \<open>
  What the page-table operations do. Well-formed tables are trees in memory:
  no table is shared or reached twice, entries can be interpreted, and entries
  that are not present hold no address. On such tables mapping, unmapping and
  changing flags affect the translation of exactly the page they are called
  for.
\<close>

section \<open>Entries\<close>

lemma address_mask_bit: "bit address_mask n \<longleftrightarrow> 12 \<le> n \<and> n < 52"
proof -
  have "address_mask = push_bit 12 (mask 40)" by (simp add: address_mask_def mask_eq_exp_minus_1)
  then have "bit address_mask n = bit (push_bit 12 (mask 40) :: u64) n" by (rule arg_cong)
  also have "\<dots> \<longleftrightarrow> 12 \<le> n \<and> n < 52" by (auto simp: bit_push_bit_iff bit_mask_iff)
  finally show ?thesis .
qed

lemma all_flags_eq: "all_flags = NOT address_mask"
  by (simp add: all_flags_def address_mask_def)

text \<open>A physical address of a 4 KiB page of the direct mapping.\<close>
definition phys_frame :: "u64 \<Rightarrow> bool" where
  "phys_frame w \<longleftrightarrow> mapped_phys w \<and> 4096 dvd unat w"

lemma phys_frame_mask:
  assumes "phys_frame w"
  shows "w AND NOT address_mask = 0" "w AND address_mask = w"
proof -
  have "bit address_mask n" if "bit w n" for n
  proof -
    have odd: "odd (unat w div 2 ^ n)"
      using that by (simp add: bit_iff_odd[of "unat w" n, symmetric] bit_unsigned_iff)
    have "n < 52"
    proof (rule ccontr)
      assume "\<not> n < 52"
      then have "(2::nat) ^ 52 \<le> 2 ^ n" by (intro power_increasing) simp_all
      moreover have "unat w < 2 ^ 52"
        using assms by (simp add: phys_frame_def mapped_phys_def word_le_nat_alt)
      ultimately have "unat w div 2 ^ n = 0" by simp
      with odd show False by simp
    qed
    moreover have "12 \<le> n"
    proof (rule ccontr)
      assume "\<not> 12 \<le> n"
      then have "(2::nat) ^ (n + 1) dvd 2 ^ 12" by (intro le_imp_power_dvd) simp
      then have "2 ^ (n + 1) dvd unat w" using assms by (auto simp: phys_frame_def intro: dvd_trans)
      then obtain k where "unat w = 2 ^ n * (2 * k)" by (auto simp: ac_simps)
      with odd show False by simp
    qed
    ultimately show ?thesis by (simp add: address_mask_bit)
  qed
  then show "w AND NOT address_mask = 0" "w AND address_mask = w"
    by (auto intro!: bit_word_eqI simp: bit_simps)
qed

text \<open>Flags as the `bitflags` type holds them, without the huge-page flag.\<close>
definition flags_ok :: "entry_flags \<Rightarrow> bool" where
  "flags_ok fs \<longleftrightarrow> fs AND address_mask = 0 \<and> \<not> bit fs 7"

lemma and_power_eq:
  assumes "k < 64"
  shows "fs AND 2 ^ k = (2 ^ k :: u64) \<longleftrightarrow> bit fs k"
proof
  assume "fs AND 2 ^ k = 2 ^ k"
  then have "bit (fs AND 2 ^ k) k = bit (2 ^ k :: u64) k" by simp
  then show "bit fs k" using assms by (simp add: bit_simps)
next
  assume "bit fs k"
  then show "fs AND 2 ^ k = 2 ^ k" by (intro bit_word_eqI) (auto simp: bit_simps)
qed

lemma flag_bits:
  "contains_flag fs PRESENT \<longleftrightarrow> bit fs 0"
  "contains_flag fs HUGE_PAGE \<longleftrightarrow> bit fs 7"
  using and_power_eq[of 0 fs] and_power_eq[of 7 fs]
  by (simp_all add: contains_flag_def PRESENT_def HUGE_PAGE_def)

lemma is_present_bit: "is_present e \<longleftrightarrow> bit e 0"
  by (simp add: is_present_def flag_bits flags_of_def all_flags_eq bit_simps address_mask_bit)

lemma huge_bit: "contains_flag (flags_of e) HUGE_PAGE \<longleftrightarrow> bit e 7"
  by (simp add: flag_bits flags_of_def all_flags_eq bit_simps address_mask_bit)

text \<open>The entry that `set_target_page` leaves, over an entry without an address.\<close>
lemma set_target_page_entry:
  assumes "x86_64_spec x" "phys_frame w" "start_addr p = w + kernel_physical_mapping_start"
    and "raw_address e = 0" "flags_ok fs"
  shows "set_target_page x p fs e = Inr (w OR (fs OR PRESENT))"
    and "is_present (w OR (fs OR PRESENT))" "\<not> bit (w OR (fs OR PRESENT)) 7"
    and "raw_address (w OR (fs OR PRESENT)) = w" "flags_of (w OR (fs OR PRESENT)) = fs OR PRESENT"
proof -
  have w: "bit w n \<Longrightarrow> bit address_mask n" for n
    using phys_frame_mask(2)[OF assms(2)] by (metis bit_and_iff)
  have fs: "bit fs n \<Longrightarrow> \<not> bit address_mask n" for n
    using assms(5) by (metis bit_0_eq bit_and_iff flags_ok_def bot_apply bot_bool_def)
  have e: "bit e n \<Longrightarrow> \<not> bit address_mask n" for n
    using assms(4) by (metis bit_0_eq bit_and_iff raw_address_def bot_apply bot_bool_def)
  have P: "bit PRESENT n \<longleftrightarrow> n = 0" for n by (simp add: PRESENT_def bit_simps)
  have "to_phys_addr x (start_addr p) = Inr w"
    using to_phys_addr_mapped[OF assms(1)] assms(2,3) by (simp add: phys_frame_def)
  moreover have "raw_address (e OR w) = w"
    using w e by (auto intro!: bit_word_eqI simp: raw_address_def bit_simps)
  ultimately show "set_target_page x p fs e = Inr (w OR (fs OR PRESENT))"
    using phys_frame_mask(1)[OF assms(2)]
    by (simp add: set_target_page_def set_entry_address_def set_entry_flags_def)
  show "is_present (w OR (fs OR PRESENT))" by (simp add: is_present_bit bit_simps P)
  show "\<not> bit (w OR (fs OR PRESENT)) 7"
    using w[of 7] assms(5) by (auto simp: bit_simps P address_mask_bit flags_ok_def)
  show "raw_address (w OR (fs OR PRESENT)) = w"
    using w fs by (auto intro!: bit_word_eqI simp: raw_address_def bit_simps P address_mask_bit)
  show "flags_of (w OR (fs OR PRESENT)) = fs OR PRESENT"
    using w fs by (auto intro!: bit_word_eqI simp: flags_of_def all_flags_eq bit_simps P address_mask_bit)
qed

lemma entry_address_frame:
  "x86_64_spec x \<Longrightarrow> phys_frame (raw_address e) \<Longrightarrow>
   entry_address x e = Inr (raw_address e + kernel_physical_mapping_start)"
  using from_phys_addr_mapped(1) x86_64_specD(1) mapped_phys_less
  by (simp add: entry_address_def phys_frame_def)

lemma frame_addr_aligned:
  assumes "phys_frame w"
  shows "4096 dvd unat (w + kernel_physical_mapping_start)"
  using assms unat_mapped_phys[of w] by (auto simp: phys_frame_def intro!: dvd_add)

lemma entry_target_frame:
  assumes "x86_64_spec x" "is_present e" "\<not> bit e 7" "phys_frame (raw_address e)"
  shows "entry_target x level e = Inr (case next_lower_level level of
      None \<Rightarrow> PageTarget \<lparr>start_addr = raw_address e + kernel_physical_mapping_start, size_of_page = Size4KiB\<rparr>
        (flags_of e)
    | Some lower \<Rightarrow> NextTable lower (raw_address e + kernel_physical_mapping_start))"
  using assms frame_addr_aligned[OF assms(4)]
  by (simp add: entry_target_def huge_bit entry_address_frame from_start_addr_ok split: option.split)

lemma entry_target_zero [simp]: "entry_target x level 0 = Inr Unmapped"
  by (simp add: entry_target_def is_present_bit)

section \<open>Indices\<close>

fun level_of :: "nat \<Rightarrow> page_table_level" where
  "level_of 0 = Level1"
| "level_of (Suc 0) = Level2"
| "level_of (Suc (Suc 0)) = Level3"
| "level_of (Suc (Suc (Suc _))) = Level4"

text \<open>The index of an address in a table \<open>d\<close> levels above the lowest.\<close>
definition idx :: "nat \<Rightarrow> u64 \<Rightarrow> nat" where
  "idx d a = unat (drop_bit (12 + d * 9) a AND 0x1FF)"

lemma idx_less: "idx d a < 512"
proof -
  have "drop_bit (12 + d * 9) a AND 0x1FF \<le> 0x1FF" by (rule word_and_le1)
  then show ?thesis by (simp add: idx_def word_le_nat_alt)
qed

lemma level_of_number: "d < 4 \<Longrightarrow> level_number (level_of d) - 1 = d"
  by (auto simp: less_Suc_eq numeral_eq_Suc)

lemma level_of_lower: "d < 4 \<Longrightarrow> next_lower_level (level_of d) =
    (case d of 0 \<Rightarrow> None | Suc d' \<Rightarrow> Some (level_of d'))"
  by (auto simp: less_Suc_eq numeral_eq_Suc)

lemma page_table_index_eq:
  assumes "d < 4"
  shows "page_table_index_from_address (level_of d) a = Inr (of_nat (idx d a))"
    and "unat (of_nat (idx d a) :: u16) = idx d a"
proof -
  show unat: "unat (of_nat (idx d a) :: u16) = idx d a"
    using idx_less[of d a] by (simp add: unat_of_nat take_bit_nat_eq_self)
  have "(ucast (drop_bit (12 + d * 9) a AND 0x1FF) :: u16) = of_nat (idx d a)"
    by (simp add: idx_def)
  with unat idx_less[of d a] level_of_number[OF assms]
  show "page_table_index_from_address (level_of d) a = Inr (of_nat (idx d a))"
    by (simp add: page_table_index_from_address_def page_table_index_new_def NUM_PAGE_TABLE_ENTRIES_def)
qed

lemma address_entry_eq:
  assumes "d < 4" "m a = Some t" "length t = 512"
  shows "address_entry m a (level_of d) v = Inr (idx d v, t ! idx d v)"
  using assms idx_less[of d v]
  by (simp add: address_entry_def page_table_index_eq read_entry_def)

section \<open>Tables as trees\<close>

definition table_ok :: "x86_64 \<Rightarrow> nat \<Rightarrow> u64 list \<Rightarrow> bool" where
  "table_ok x d t \<longleftrightarrow> length t = 512 \<and>
     (\<forall>e\<in>set t. (\<exists>tg. entry_target x (level_of d) e = Inr tg) \<and> (\<not> is_present e \<longrightarrow> raw_address e = 0))"

definition child :: "x86_64 \<Rightarrow> memory \<Rightarrow> nat \<Rightarrow> u64 \<Rightarrow> nat \<Rightarrow> u64 option" where
  "child x m d a i =
     (case m a of
        None \<Rightarrow> None
      | Some t \<Rightarrow>
          if i < length t then
            (case entry_target x (level_of d) (t ! i) of Inr (NextTable _ c) \<Rightarrow> Some c | _ \<Rightarrow> None)
          else None)"

text \<open>The addresses of the tables reached from a table.\<close>
primrec tree :: "x86_64 \<Rightarrow> memory \<Rightarrow> nat \<Rightarrow> u64 \<Rightarrow> u64 set" where
  "tree x m 0 a = {a}"
| "tree x m (Suc d) a =
     insert a (\<Union>i. case child x m (Suc d) a i of None \<Rightarrow> {} | Some c \<Rightarrow> tree x m d c)"

primrec wf_table :: "x86_64 \<Rightarrow> memory \<Rightarrow> nat \<Rightarrow> u64 \<Rightarrow> bool" where
  "wf_table x m 0 a \<longleftrightarrow> (\<exists>t. m a = Some t \<and> table_ok x 0 t)"
| "wf_table x m (Suc d) a \<longleftrightarrow> (\<exists>t. m a = Some t \<and> table_ok x (Suc d) t) \<and>
     (\<forall>i c. child x m (Suc d) a i = Some c \<longrightarrow> wf_table x m d c \<and> a \<notin> tree x m d c \<and>
        (\<forall>j c'. j \<noteq> i \<longrightarrow> child x m (Suc d) a j = Some c' \<longrightarrow> tree x m d c \<inter> tree x m d c' = {}))"

text \<open>The part of the tree below one entry.\<close>
definition subtree :: "x86_64 \<Rightarrow> memory \<Rightarrow> nat \<Rightarrow> u64 \<Rightarrow> nat \<Rightarrow> u64 set" where
  "subtree x m d a i =
     (case d of 0 \<Rightarrow> {}
      | Suc d' \<Rightarrow> (case child x m d a i of None \<Rightarrow> {} | Some c \<Rightarrow> tree x m d' c))"

declare tree.simps(2) [simp del] wf_table.simps(2) [simp del]

lemma tree_root [simp]: "a \<in> tree x m d a"
  by (cases d) (simp_all add: tree.simps)

lemma wf_table_table:
  assumes "wf_table x m d a"
  obtains t where "m a = Some t" "table_ok x d t"
  using assms by (cases d) (auto simp: wf_table.simps)

lemma child_tree: "child x m (Suc d) a i = Some c \<Longrightarrow> tree x m d c \<subseteq> tree x m (Suc d) a"
proof
  fix b assume "child x m (Suc d) a i = Some c" "b \<in> tree x m d c"
  then have "b \<in> (case child x m (Suc d) a i of None \<Rightarrow> {} | Some c \<Rightarrow> tree x m d c)" by simp
  then show "b \<in> tree x m (Suc d) a" unfolding tree.simps by blast
qed

lemma subtree_subset: "subtree x m d a i \<subseteq> tree x m d a"
  using child_tree by (cases d; cases "child x m d a i") (auto simp: subtree_def)

lemma tree_SucE:
  assumes "b \<in> tree x m (Suc d) a"
  obtains "b = a" | i c where "child x m (Suc d) a i = Some c" "b \<in> tree x m d c"
  using assms unfolding tree.simps by (auto split: option.splits)

lemma table_ok_target:
  assumes "table_ok x d t" "i < 512"
  obtains tg where "entry_target x (level_of d) (t ! i) = Inr tg" "\<not> is_present (t ! i) \<longrightarrow> raw_address (t ! i) = 0"
  using assms unfolding table_ok_def by (metis nth_mem)

lemma wf_table_SucI:
  assumes "\<exists>t. m a = Some t \<and> table_ok x (Suc d) t"
    and "\<And>i c. child x m (Suc d) a i = Some c \<Longrightarrow> wf_table x m d c \<and> a \<notin> tree x m d c"
    and "\<And>i j c c'. i \<noteq> j \<Longrightarrow> child x m (Suc d) a i = Some c \<Longrightarrow> child x m (Suc d) a j = Some c' \<Longrightarrow>
      tree x m d c \<inter> tree x m d c' = {}"
  shows "wf_table x m (Suc d) a"
  unfolding wf_table.simps
proof (intro conjI allI impI)
  show "\<exists>t. m a = Some t \<and> table_ok x (Suc d) t" by (rule assms(1))
qed (use assms(2,3) in \<open>blast+\<close>)

lemma wf_table_SucD:
  assumes "wf_table x m (Suc d) a" "child x m (Suc d) a i = Some c"
  shows "wf_table x m d c" "a \<notin> tree x m d c"
    "i \<noteq> j \<Longrightarrow> child x m (Suc d) a j = Some c' \<Longrightarrow> tree x m d c \<inter> tree x m d c' = {}"
  using assms(1)[unfolded wf_table.simps, THEN conjunct2, rule_format, OF assms(2)] by (blast, blast, metis)

lemma child_agree: "m' a = m a \<Longrightarrow> child x m' d a i = child x m d a i"
  by (simp add: child_def)

lemma translate_from_agree:
  assumes "m' a = m a"
    and "\<And>lower c. next_lower_level level = Some lower \<Longrightarrow>
      (\<And>i t e. m a = Some t \<Longrightarrow> i < length t \<Longrightarrow> entry_target x level (t ! i) = Inr (NextTable lower c) \<Longrightarrow>
        translate_from x m' lower c v = translate_from x m lower c v)"
  shows "translate_from x m' level a v = translate_from x m level a v"
proof -
  have "address_entry m' a level v = address_entry m a level v"
    using assms(1) by (simp add: address_entry_def read_entry_def)
  moreover have "translate_from x m' lower c v = translate_from x m lower c v"
    if "address_entry m a level v = Inr (i, e)" "entry_target x level e = Inr (NextTable lower c)" for i e lower c
    using that assms(2)[OF entry_target_lower[OF that(2)]]
    by (auto simp: address_entry_def read_entry_def run_facts split: option.splits)
  ultimately show ?thesis
    by (subst (1 2) translate_from.simps)
      (auto intro!: and_then_cong split: page_table_target.splits)
qed

lemma tree_agree:
  assumes "d < 4" "\<forall>b\<in>tree x m d a. m' b = m b"
  shows "tree x m' d a = tree x m d a \<and> wf_table x m' d a = wf_table x m d a \<and>
    (\<forall>v. translate_from x m' (level_of d) a v = translate_from x m (level_of d) a v)"
  using assms
proof (induction d arbitrary: a)
  case 0
  then have "m' a = m a" by simp
  with translate_from_agree[of m' a m "level_of 0" x] show ?case by simp
next
  case (Suc d)
  then have a: "m' a = m a" by simp
  have sub: "tree x m' d c = tree x m d c \<and> wf_table x m' d c = wf_table x m d c \<and>
      (\<forall>v. translate_from x m' (level_of d) c v = translate_from x m (level_of d) c v)"
    if "child x m (Suc d) a i = Some c" for i c
    using Suc.prems child_tree[OF that] by (intro Suc.IH) auto
  have tree: "tree x m' (Suc d) a = tree x m (Suc d) a"
    unfolding tree.simps child_agree[of m' a m, OF a]
    using sub by (intro arg_cong[of _ _ "insert a"] SUP_cong) (simp_all split: option.split)
  have wf: "wf_table x m' (Suc d) a = wf_table x m (Suc d) a"
    unfolding wf_table.simps child_agree[of m' a m, OF a] a using sub by metis
  have "translate_from x m' (level_of (Suc d)) a v = translate_from x m (level_of (Suc d)) a v" for v
  proof (rule translate_from_agree[where m = m and m' = m', OF a])
    fix lower c i t
    assume "next_lower_level (level_of (Suc d)) = Some lower" and t: "m a = Some t" "i < length t"
      "entry_target x (level_of (Suc d)) (t ! i) = Inr (NextTable lower c)"
    then have "lower = level_of d" using Suc.prems(1) level_of_lower[of "Suc d"] by simp
    moreover from t have "child x m (Suc d) a i = Some c" by (simp add: child_def)
    ultimately show "translate_from x m' lower c v = translate_from x m lower c v"
      using sub by blast
  qed
  with tree wf show ?case by blast
qed

text \<open>What a translation does at an entry, by the target of the entry.\<close>
definition follow :: "x86_64 \<Rightarrow> memory \<Rightarrow> page_table_target \<Rightarrow> u64 \<Rightarrow> translate_result outcome" where
  "follow x m tg v =
     (case tg of
        Unmapped \<Rightarrow> Inr NotMapped
      | PageTarget p fs \<Rightarrow> Inr (Mapped \<lparr>mapped_page = p, mapped_flags = fs,
          mapped_offset = v mod of_nat (size_bytes (size_of_page p))\<rparr>)
      | NextTable lower c \<Rightarrow> translate_from x m lower c v)"

lemma translate_from_entry:
  assumes "d < 4" "m a = Some t" "length t = 512" "entry_target x (level_of d) (t ! idx d v) = Inr tg"
  shows "translate_from x m (level_of d) a v = follow x m tg v"
  using assms by (subst translate_from.simps) (simp add: address_entry_eq follow_def)

section \<open>Replacing one entry\<close>

text \<open>The memory \<open>m'\<close> is \<open>m\<close> with entry \<open>i\<close> of the table at \<open>a\<close> replaced by \<open>e'\<close> and
  with changes below that entry and in the fresh pages \<open>F\<close> only.\<close>
definition entry_replaced ::
  "x86_64 \<Rightarrow> memory \<Rightarrow> memory \<Rightarrow> nat \<Rightarrow> u64 \<Rightarrow> nat \<Rightarrow> u64 \<Rightarrow> u64 set \<Rightarrow> bool" where
  "entry_replaced x m m' d a i e' F \<longleftrightarrow>
     (\<exists>t. m a = Some t \<and> m' a = Some (t[i := e'])) \<and> i < 512 \<and> F \<inter> tree x m d a = {} \<and>
     (\<forall>b. b \<notin> insert a (subtree x m d a i \<union> F) \<longrightarrow> m' b = m b)"

lemma child_list_update:
  assumes "m a = Some t" "m' a = Some (t[i := e'])" "j \<noteq> i"
  shows "child x m' d a j = child x m d a j"
  using assms by (simp add: child_def)

lemma entry_replacedD:
  assumes "entry_replaced x m m' d a i e' F"
  shows "\<exists>t. m a = Some t \<and> m' a = Some (t[i := e'])" "i < 512" "F \<inter> tree x m d a = {}"
    "\<And>b. b \<noteq> a \<Longrightarrow> b \<notin> subtree x m d a i \<Longrightarrow> b \<notin> F \<Longrightarrow> m' b = m b"
  using assms unfolding entry_replaced_def by blast+

lemma other_subtree:
  assumes "d < 3" "wf_table x m (Suc d) a" "entry_replaced x m m' (Suc d) a i e' F"
    and "j \<noteq> i" "child x m (Suc d) a j = Some c"
  shows "tree x m' d c = tree x m d c" "wf_table x m' d c" "a \<notin> tree x m d c"
    "tree x m d c \<inter> (subtree x m (Suc d) a i \<union> F) = {}"
    "translate_from x m' (level_of d) c v = translate_from x m (level_of d) c v"
proof -
  note wf = wf_table_SucD[OF assms(2,5)]
  note same = entry_replacedD(4)[OF assms(3)]
  from entry_replacedD(3)[OF assms(3)] child_tree[OF assms(5)] have disjF: "tree x m d c \<inter> F = {}" by blast
  have disjS: "tree x m d c \<inter> subtree x m (Suc d) a i = {}"
  proof (cases "child x m (Suc d) a i")
    case (Some c')
    with wf(3)[OF assms(4)] show ?thesis by (simp add: subtree_def)
  qed (simp add: subtree_def)
  from disjF disjS show "tree x m d c \<inter> (subtree x m (Suc d) a i \<union> F) = {}" by blast
  have "\<forall>b\<in>tree x m d c. m' b = m b"
  proof
    fix b assume "b \<in> tree x m d c"
    with wf(2) disjF disjS have "b \<noteq> a" "b \<notin> subtree x m (Suc d) a i" "b \<notin> F" by blast+
    then show "m' b = m b" by (rule same)
  qed
  from tree_agree[OF _ this] assms(1) wf(1) show "tree x m' d c = tree x m d c" "wf_table x m' d c"
      "translate_from x m' (level_of d) c v = translate_from x m (level_of d) c v"
    by simp_all
  show "a \<notin> tree x m d c" by (rule wf(2))
qed

lemma wf_table_set_entry:
  assumes "\<exists>t. m a = Some t \<and> table_ok x d t" "entry_replaced x m m' d a i e' F"
    and "entry_target x (level_of d) e' = Inr tg" "\<not> is_present e' \<longrightarrow> raw_address e' = 0"
  shows "\<exists>t. m' a = Some t \<and> table_ok x d t"
proof -
  from entry_replacedD(1)[OF assms(2)] assms(1) obtain t where
    t: "m' a = Some (t[i := e'])" "table_ok x d t" by auto
  have "set (t[i := e']) \<subseteq> insert e' (set t)" by (rule set_update_subset_insert)
  with t assms(3,4) show ?thesis unfolding table_ok_def by fastforce
qed

lemma entry_replaced_wf:
  assumes "d < 4" "wf_table x m d a" "entry_replaced x m m' d a i e' F"
    and "entry_target x (level_of d) e' = Inr tg" "\<not> is_present e' \<longrightarrow> raw_address e' = 0"
    and "\<And>lower c. tg = NextTable lower c \<Longrightarrow>
      \<exists>d'. d = Suc d' \<and> wf_table x m' d' c \<and> tree x m' d' c \<subseteq> subtree x m d a i \<union> F \<and>
        a \<notin> tree x m' d' c"
  shows "wf_table x m' d a \<and> tree x m' d a \<subseteq> tree x m d a \<union> F"
proof (cases d)
  case 0
  with wf_table_set_entry[OF _ assms(3,4,5)] assms(2) show ?thesis by simp
next
  case (Suc n)
  note wf = assms(2)[unfolded Suc] and rep = assms(3)[unfolded Suc]
  have n: "n < 3" using assms(1) Suc by simp
  from entry_replacedD(1)[OF rep] obtain t where t: "m a = Some t" "m' a = Some (t[i := e'])" by blast
  from wf_table_table[OF wf] t(1) have ok: "table_ok x (Suc n) t" by (metis option.inject)
  have i: "i < length t" using ok entry_replacedD(2)[OF rep] by (simp add: table_ok_def)
  have child_i: "tg = NextTable (level_of n) c" if "child x m' (Suc n) a i = Some c" for c
  proof -
    from that t i assms(4) Suc obtain lower where "tg = NextTable lower c"
      by (auto simp: child_def split: page_table_target.splits)
    moreover from this assms(4) Suc have "next_lower_level (level_of (Suc n)) = Some lower"
      by (auto dest: entry_target_lower)
    ultimately show ?thesis using level_of_lower[of "Suc n"] n by simp
  qed
  have child_j: "child x m' (Suc n) a j = child x m (Suc n) a j" if "j \<noteq> i" for j
    using child_list_update[of m a t m' i e' j x] t that by simp
  note other = other_subtree[OF n wf rep]
  have new: "wf_table x m' n c" "tree x m' n c \<subseteq> subtree x m (Suc n) a i \<union> F" "a \<notin> tree x m' n c"
    if "child x m' (Suc n) a i = Some c" for c
    using assms(6)[OF child_i[OF that]] Suc by simp_all
  have old: "wf_table x m' n c" "tree x m' n c = tree x m n c" "a \<notin> tree x m' n c"
      "tree x m' n c \<inter> (subtree x m (Suc n) a i \<union> F) = {}" "child x m (Suc n) a j = Some c"
    if "child x m' (Suc n) a j = Some c" "j \<noteq> i" for j c
    using other[OF that(2)] child_j[OF that(2)] that(1) by simp_all
  have sub: "wf_table x m' n c \<and> a \<notin> tree x m' n c" if "child x m' (Suc n) a j = Some c" for j c
    using that new(1,3) old(1,3) by (cases "j = i") blast+
  have disj: "tree x m' n c \<inter> tree x m' n c' = {}"
    if "j \<noteq> k" "child x m' (Suc n) a j = Some c" "child x m' (Suc n) a k = Some c'" for j k c c'
  proof -
    consider "j = i" | "k = i" | "j \<noteq> i" "k \<noteq> i" by blast
    then show ?thesis
    proof cases
      case 1
      with that new(2)[of c] old(4)[of k c'] show ?thesis by blast
    next
      case 2
      with that new(2)[of c'] old(4)[of j c] show ?thesis by blast
    next
      case 3
      with that old(2,5)[of j c] old(2,5)[of k c'] wf_table_SucD(3)[OF wf, of j c k c'] show ?thesis
        by simp
    qed
  qed
  have "\<exists>t. m a = Some t \<and> table_ok x (Suc n) t" using t(1) ok by blast
  from wf_table_SucI[OF wf_table_set_entry[OF this rep assms(4,5)[unfolded Suc]] sub disj]
  have "wf_table x m' (Suc n) a" .
  moreover have child_sub: "tree x m' n c \<subseteq> tree x m (Suc n) a \<union> F"
    if "child x m' (Suc n) a j = Some c" for j c
  proof (cases "j = i")
    case True
    with that new(2) subtree_subset[of x m "Suc n" a i] show ?thesis by blast
  next
    case False
    with that old(2,5)[of j c] child_tree[of x m n a j c] show ?thesis by blast
  qed
  have "tree x m' (Suc n) a \<subseteq> tree x m (Suc n) a \<union> F"
  proof
    fix b assume "b \<in> tree x m' (Suc n) a"
    then show "b \<in> tree x m (Suc n) a \<union> F"
      by (rule tree_SucE) (use child_sub in auto)
  qed
  ultimately show ?thesis using Suc by simp
qed

lemma entry_replaced_translate:
  assumes "d < 4" "wf_table x m d a" "entry_replaced x m m' d a i e' F"
    and "entry_target x (level_of d) e' = Inr tg"
  shows "idx d v = i \<Longrightarrow> translate_from x m' (level_of d) a v = follow x m' tg v"
    and "idx d v \<noteq> i \<Longrightarrow> translate_from x m' (level_of d) a v = translate_from x m (level_of d) a v"
proof -
  from assms(2) obtain t where t: "m a = Some t" "table_ok x d t" by (rule wf_table_table)
  with entry_replacedD(1,2)[OF assms(3)] have t': "m' a = Some (t[i := e'])" "length t = 512" "i < 512"
    by (simp_all add: table_ok_def)
  show "translate_from x m' (level_of d) a v = follow x m' tg v" if "idx d v = i"
    using translate_from_entry[of d m' a "t[i := e']" x v tg] assms(1) t' that assms(4) by simp
  show "translate_from x m' (level_of d) a v = translate_from x m (level_of d) a v" if v: "idx d v \<noteq> i"
  proof -
    from table_ok_target[OF t(2) idx_less[of d v]] obtain tg' where
      tg': "entry_target x (level_of d) (t ! idx d v) = Inr tg'" .
    have "follow x m' tg' v = follow x m tg' v"
    proof (cases tg')
      case (NextTable lower c)
      with tg' assms(1) obtain n where n: "d = Suc n" "lower = level_of n"
        using entry_target_lower[of x "level_of d" "t ! idx d v" lower c] level_of_lower[OF assms(1)]
        by (cases d) auto
      have "child x m (Suc n) a (idx d v) = Some c"
        using t(1) t'(2) idx_less[of d v] tg' NextTable n by (simp add: child_def)
      from other_subtree(5)[OF _ assms(2,3)[unfolded n(1)] v[unfolded n(1)] this[unfolded n(1)]] assms(1) n NextTable
      show ?thesis by (simp add: follow_def)
    qed (simp_all add: follow_def)
    moreover have "translate_from x m' (level_of d) a v = follow x m' tg' v"
      using translate_from_entry[of d m' a "t[i := e']" x v tg'] assms(1) t' v tg' by simp
    moreover have "translate_from x m (level_of d) a v = follow x m tg' v"
      by (rule translate_from_entry[of d m a t x v tg', OF assms(1) t(1) t'(2) tg'])
    ultimately show ?thesis by simp
  qed
qed

section \<open>Mapping a page\<close>

text \<open>The addresses that go the same way from a table \<open>d\<close> levels above the lowest.\<close>
definition same_idx :: "nat \<Rightarrow> u64 \<Rightarrow> u64 \<Rightarrow> bool" where
  "same_idx d v w \<longleftrightarrow> (\<forall>k\<le>d. idx k v = idx k w)"

lemma same_idx_0: "same_idx 0 v w \<longleftrightarrow> idx 0 v = idx 0 w"
  by (simp add: same_idx_def)

lemma same_idx_Suc: "same_idx (Suc d) v w \<longleftrightarrow> idx (Suc d) v = idx (Suc d) w \<and> same_idx d v w"
  by (auto simp: same_idx_def le_Suc_eq)

text \<open>The tables of a tree are frames that the allocator knows to be in use.\<close>
definition tables_owned :: "x86_64 \<Rightarrow> vm \<Rightarrow> nat \<Rightarrow> u64 \<Rightarrow> bool" where
  "tables_owned x s d a \<longleftrightarrow> (\<forall>b\<in>tree x (vm_mem s) d a. frame_index b \<in> used_pages (vm_alloc s))"

definition vm_inv :: "x86_64 \<Rightarrow> vm \<Rightarrow> nat \<Rightarrow> u64 \<Rightarrow> bool" where
  "vm_inv x s d a \<longleftrightarrow> x86_64_spec x \<and> phys_inv (vm_alloc s) \<and> wf_table x (vm_mem s) d a \<and>
     tables_owned x s d a"

text \<open>An existing target is a 4 KiB page of the direct mapping.\<close>
definition target_ok :: "map_target \<Rightarrow> bool" where
  "target_ok target \<longleftrightarrow>
     (case target of
        NewPhysPage \<Rightarrow> True
      | ExistingPhysPage p \<Rightarrow> size_of_page p = Size4KiB \<and>
          (\<exists>w. phys_frame w \<and> start_addr p = w + kernel_physical_mapping_start))"

text \<open>The mapping that `map_to` installs, as a translation reports it.\<close>
definition mapping_of :: "page \<Rightarrow> entry_flags \<Rightarrow> u64 \<Rightarrow> translate_result" where
  "mapping_of p fs v = Mapped \<lparr>mapped_page = p, mapped_flags = fs,
     mapped_offset = v mod of_nat (size_bytes (size_of_page p))\<rparr>"

text \<open>What mapping page \<open>p\<close> leaves: \<open>F\<close> are the tables it created.\<close>
definition map_post ::
  "x86_64 \<Rightarrow> nat \<Rightarrow> u64 \<Rightarrow> page \<Rightarrow> map_target \<Rightarrow> entry_flags \<Rightarrow> vm \<Rightarrow> (page, map_error) result \<Rightarrow> vm \<Rightarrow>
   u64 set \<Rightarrow> bool" where
  "map_post x d a p target fs s r s' F \<longleftrightarrow>
     phys_inv (vm_alloc s') \<and> used_pages (vm_alloc s) \<subseteq> used_pages (vm_alloc s') \<and>
     wf_table x (vm_mem s') d a \<and> tree x (vm_mem s') d a \<subseteq> tree x (vm_mem s) d a \<union> F \<and>
     (\<forall>b. b \<notin> tree x (vm_mem s) d a \<union> F \<longrightarrow> vm_mem s' b = vm_mem s b) \<and>
     (\<forall>b\<in>F. frame_index b \<notin> used_pages (vm_alloc s) \<and> frame_index b \<in> used_pages (vm_alloc s')) \<and>
     (case r of
        Ok tp \<Rightarrow>
          (\<forall>v. translate_from x (vm_mem s') (level_of d) a v =
             (if same_idx d v (start_addr p) then Inr (mapping_of tp (fs OR PRESENT) v)
              else translate_from x (vm_mem s) (level_of d) a v)) \<and>
          translate_from x (vm_mem s) (level_of d) a (start_addr p) = Inr NotMapped \<and>
          (case target of
             ExistingPhysPage q \<Rightarrow> tp = q
           | NewPhysPage \<Rightarrow> \<exists>n. tp = frame_page n \<and> n * PAGE_SIZE \<le> 0x377777777777 \<and>
               n \<notin> used_pages (vm_alloc s) \<and> n \<in> used_pages (vm_alloc s') \<and> n \<notin> frame_index ` F)
      | Err e \<Rightarrow>
          (\<forall>v. translate_from x (vm_mem s') (level_of d) a v = translate_from x (vm_mem s) (level_of d) a v) \<and>
          (\<forall>q qfs. e = PageAlreadyMapped q qfs \<longrightarrow> s' = s \<and>
             translate_from x (vm_mem s) (level_of d) a (start_addr p) =
               Inr (mapping_of q qfs (start_addr p))))"

lemma vm_invD:
  assumes "vm_inv x s d a"
  shows "x86_64_spec x" "phys_inv (vm_alloc s)" "wf_table x (vm_mem s) d a"
    "\<And>b. b \<in> tree x (vm_mem s) d a \<Longrightarrow> frame_index b \<in> used_pages (vm_alloc s)"
  using assms by (simp_all add: vm_inv_def tables_owned_def)

lemma write_entry_eq: "m a = Some t \<Longrightarrow> write_entry a i e m = m(a \<mapsto> t[i := e])"
  by (simp add: write_entry_def)

lemma frame_page_frame:
  assumes "n * PAGE_SIZE \<le> 0x377777777777"
  shows "phys_frame (of_nat (n * PAGE_SIZE))"
    "start_addr (frame_page n) = of_nat (n * PAGE_SIZE) + kernel_physical_mapping_start"
    "size_of_page (frame_page n) = Size4KiB"
  using frame_mapped[OF assms] by (simp_all add: phys_frame_def frame_page_def frame_addr_def PAGE_SIZE_def)

lemma zero_table_tree:
  assumes "d < 4" "m c = Some (replicate 512 0)"
  shows "wf_table x m d c" "tree x m d c = {c}" "translate_from x m (level_of d) c v = Inr NotMapped"
proof -
  have ok: "table_ok x d (replicate 512 0)" by (simp add: table_ok_def is_present_bit raw_address_def)
  have no_child: "child x m d c i = None" for d i
    using assms(2) by (simp add: child_def)
  show "wf_table x m d c"
    using assms(2) ok no_child by (cases d) (auto simp: wf_table.simps)
  show "tree x m d c = {c}"
    using no_child by (cases d) (simp_all add: tree.simps)
  show "translate_from x m (level_of d) c v = Inr NotMapped"
    using translate_from_entry[of d m c "replicate 512 0" x v Unmapped] assms idx_less[of d v]
    by (simp add: follow_def)
qed

lemma allocate_page_ok:
  assumes "x86_64_spec x" "phys_inv a" "allocate_page x a = Inr (Ok pg, a')"
  shows "\<exists>n. pg = frame_page n \<and> n * PAGE_SIZE \<le> 0x377777777777 \<and> n \<notin> used_pages a \<and>
    used_pages a' = insert n (used_pages a) \<and> phys_inv a' \<and>
    (\<forall>b. frame_index b \<in> used_pages a \<longrightarrow> b \<noteq> frame_addr n)"
proof -
  have "x86_64_spec x \<and> phys_inv a" using assms by simp
  then show ?thesis by (rule frames.alloc_ok[OF _ assms(3)]) blast
qed

text \<open>The target of a map request, and the state of the allocator after it.\<close>
lemma get_target_page_spec:
  assumes "x86_64_spec x" "phys_inv a" "target_ok target"
  shows "\<exists>r a'. get_target_page x target Size4KiB a = Inr (r, a') \<and> phys_inv a' \<and>
    used_pages a \<subseteq> used_pages a' \<and>
    (\<forall>tp. r = Ok tp \<longrightarrow> size_of_page tp = Size4KiB \<and>
       (\<exists>w. phys_frame w \<and> start_addr tp = w + kernel_physical_mapping_start) \<and>
       (case target of
          ExistingPhysPage q \<Rightarrow> tp = q
        | NewPhysPage \<Rightarrow> \<exists>n. tp = frame_page n \<and> n * PAGE_SIZE \<le> 0x377777777777 \<and>
            n \<notin> used_pages a \<and> n \<in> used_pages a'))"
proof (cases target)
  case (ExistingPhysPage p)
  with assms show ?thesis by (auto simp: get_target_page_def target_ok_def)
next
  case NewPhysPage
  from frames.alloc_total[of x a] assms(1,2) obtain r a' where run: "allocate_page x a = Inr (r, a')"
    by auto
  then have get: "get_target_page x target Size4KiB a = Inr (r, a')"
    using NewPhysPage by (simp add: get_target_page_def PAGE_SIZE_def)
  show ?thesis
  proof (cases r)
    case (Ok tp)
    with allocate_page_ok[OF assms(1,2)] run obtain n where "tp = frame_page n"
        "n * PAGE_SIZE \<le> 0x377777777777" "n \<notin> used_pages a" "used_pages a' = insert n (used_pages a)"
        "phys_inv a'"
      by blast
    with Ok NewPhysPage get frame_page_frame[of n] show ?thesis by auto
  next
    case (Err e)
    with frames.alloc_err[of x a e a'] run assms(1,2) get show ?thesis by auto
  qed
qed

lemma map_from_PageTarget:
  assumes "d < 4" "vm_inv x s d a" "vm_mem s a = Some t"
    and "entry_target x (level_of d) (t ! idx d (start_addr p)) = Inr (PageTarget q qfs)"
  shows "map_from x (level_of d) a p target fs s = Inr (Err (PageAlreadyMapped q qfs), s)"
    and "map_post x d a p target fs s (Err (PageAlreadyMapped q qfs)) s {}"
proof -
  note inv = vm_invD[OF assms(2)]
  have len: "length t = 512" using wf_table_table[OF inv(3)] assms(3) by (metis option.inject table_ok_def)
  show "map_from x (level_of d) a p target fs s = Inr (Err (PageAlreadyMapped q qfs), s)"
    using assms len by (subst map_from.simps) (simp add: address_entry_eq)
  have "translate_from x (vm_mem s) (level_of d) a (start_addr p) = Inr (mapping_of q qfs (start_addr p))"
    using translate_from_entry[of d "vm_mem s" a t x "start_addr p" "PageTarget q qfs"] assms len
    by (simp add: follow_def mapping_of_def)
  with inv show "map_post x d a p target fs s (Err (PageAlreadyMapped q qfs)) s {}"
    by (simp add: map_post_def)
qed

lemma entry_replaced_leaf:
  assumes "m a = Some t" "i < 512"
  shows "entry_replaced x m (m(a \<mapsto> t[i := e'])) d a i e' {}"
  using assms by (simp add: entry_replaced_def)

text \<open>Mapping at the lowest level, into an entry that is not present.\<close>
lemma map_from_leaf:
  assumes "vm_inv x s 0 a" "target_ok target" "flags_ok fs" "size_of_page p = Size4KiB"
    and "vm_mem s a = Some t" "entry_target x Level1 (t ! idx 0 (start_addr p)) = Inr Unmapped"
  shows "\<exists>r s'. map_from x Level1 a p target fs s = Inr (r, s') \<and> map_post x 0 a p target fs s r s' {}"
proof -
  let ?i = "idx 0 (start_addr p)" and ?e = "t ! idx 0 (start_addr p)" and ?m = "vm_mem s"
  note inv = vm_invD[OF assms(1)]
  have ok: "table_ok x 0 t" using wf_table_table[OF inv(3)] assms(5) by (metis option.inject)
  then have len: "length t = 512" by (simp add: table_ok_def)
  have pre: "translate_from x ?m Level1 a v = Inr NotMapped" if "idx 0 v = ?i" for v
    using translate_from_entry[of 0 ?m a t x v Unmapped] assms(5,6) len that by (simp add: follow_def)
  have "\<not> is_present ?e" using assms(6)
    by (auto simp: entry_target_def run_facts split: if_splits)
  then have raw: "raw_address ?e = 0" using ok len idx_less[of 0 "start_addr p"] by (simp add: table_ok_def)
  from get_target_page_spec[OF inv(1,2) assms(2)] obtain r a' where
    get: "get_target_page x target Size4KiB (vm_alloc s) = Inr (r, a')" "phys_inv a'"
      "used_pages (vm_alloc s) \<subseteq> used_pages a'" and
    res: "\<And>tp. r = Ok tp \<Longrightarrow> size_of_page tp = Size4KiB \<and>
       (\<exists>w. phys_frame w \<and> start_addr tp = w + kernel_physical_mapping_start) \<and>
       (case target of ExistingPhysPage q \<Rightarrow> tp = q
        | NewPhysPage \<Rightarrow> \<exists>n. tp = frame_page n \<and> n * PAGE_SIZE \<le> 0x377777777777 \<and>
            n \<notin> used_pages (vm_alloc s) \<and> n \<in> used_pages a')"
    by blast
  have entry: "address_entry ?m a Level1 (start_addr p) = Inr (?i, ?e)"
    using address_entry_eq[of 0 ?m a t "start_addr p"] assms(5) len by simp
  show ?thesis
  proof (cases r)
    case (Err err)
    with get assms(4,6) entry inv show ?thesis
      by (subst map_from.simps) (simp add: map_post_def)
  next
    case (Ok tp)
    from res[OF Ok] obtain w where tp: "size_of_page tp = Size4KiB" "phys_frame w"
        "start_addr tp = w + kernel_physical_mapping_start" by blast
    let ?e' = "w OR (fs OR PRESENT)"
    note e' = set_target_page_entry[OF inv(1) tp(2,3) raw assms(3)]
    let ?m' = "?m(a \<mapsto> t[?i := ?e'])"
    have "tp = \<lparr>start_addr = w + kernel_physical_mapping_start, size_of_page = Size4KiB\<rparr>"
      using tp by simp
    then have tgt: "entry_target x (level_of 0) ?e' = Inr (PageTarget tp (fs OR PRESENT))"
      using entry_target_frame[OF inv(1) e'(2,3), of "level_of 0"] e'(4,5) tp(2) by simp
    have rep: "entry_replaced x ?m ?m' 0 a ?i ?e' {}"
      by (rule entry_replaced_leaf) (simp_all add: assms(5) idx_less)
    have wf: "wf_table x ?m' 0 a \<and> tree x ?m' 0 a \<subseteq> tree x ?m 0 a \<union> {}"
      using entry_replaced_wf[OF _ inv(3) rep tgt] e'(2) by simp
    have tr: "translate_from x ?m' Level1 a v =
        (if same_idx 0 v (start_addr p) then Inr (mapping_of tp (fs OR PRESENT) v)
         else translate_from x ?m Level1 a v)" for v
      using entry_replaced_translate[OF _ inv(3) rep tgt, of v]
      by (simp add: same_idx_0 follow_def mapping_of_def)
    let ?s' = "s\<lparr>vm_alloc := a', vm_mem := ?m'\<rparr>"
    have "map_from x Level1 a p target fs s = Inr (Ok tp, ?s')"
      using get(1) assms(4,6) entry Ok e'(1) write_entry_eq[of "vm_mem s" a t, OF assms(5)]
      by (subst map_from.simps) simp
    moreover have "map_post x 0 a p target fs s (Ok tp) ?s' {}"
      using get(2,3) wf tr pre[of "start_addr p"] res[OF Ok]
      by (simp add: map_post_def split: map_target.splits)
    ultimately show ?thesis by blast
  qed
qed

text \<open>From a child table to its parent: \<open>sc\<close> is the state in which the child was
  entered, \<open>G\<close> the child if it was created on the way.\<close>
lemma map_post_parent:
  fixes i d :: nat and p :: page
  defines "i \<equiv> idx (Suc d) (start_addr p)"
  assumes "d < 3" "vm_inv x s (Suc d) a" "vm_mem s a = Some t" "vm_mem sc a = Some (t[i := e'])"
    and e': "entry_target x (level_of (Suc d)) e' = Inr (NextTable (level_of d) c)" "is_present e'"
    and m1: "\<And>b. b \<noteq> a \<Longrightarrow> b \<notin> G \<Longrightarrow> vm_mem sc b = vm_mem s b"
    and tree1: "tree x (vm_mem sc) d c \<subseteq> subtree x (vm_mem s) (Suc d) a i \<union> G"
      "a \<notin> tree x (vm_mem sc) d c"
    and G: "\<And>b. b \<in> G \<Longrightarrow> frame_index b \<notin> used_pages (vm_alloc s) \<and> frame_index b \<in> used_pages (vm_alloc sc)"
      "used_pages (vm_alloc s) \<subseteq> used_pages (vm_alloc sc)"
    and tr1: "\<And>v. idx (Suc d) v = i \<Longrightarrow>
      translate_from x (vm_mem sc) (level_of d) c v = translate_from x (vm_mem s) (level_of (Suc d)) a v"
    and same: "sc = s \<or> translate_from x (vm_mem s) (level_of (Suc d)) a (start_addr p) = Inr NotMapped"
    and post: "map_post x d c p target fs sc r s' F1"
  shows "map_post x (Suc d) a p target fs s r s' (G \<union> F1)"
proof -
  let ?m = "vm_mem s" and ?m1 = "vm_mem sc" and ?m' = "vm_mem s'"
  note inv = vm_invD[OF assms(3)]
  have P: "phys_inv (vm_alloc s')" "used_pages (vm_alloc sc) \<subseteq> used_pages (vm_alloc s')"
      "wf_table x ?m' d c" "tree x ?m' d c \<subseteq> tree x ?m1 d c \<union> F1"
      "\<And>b. b \<notin> tree x ?m1 d c \<union> F1 \<Longrightarrow> ?m' b = ?m1 b"
      "\<And>b. b \<in> F1 \<Longrightarrow> frame_index b \<notin> used_pages (vm_alloc sc) \<and> frame_index b \<in> used_pages (vm_alloc s')"
    using post unfolding map_post_def by blast+
  have fresh: "frame_index b \<notin> used_pages (vm_alloc s)" "frame_index b \<in> used_pages (vm_alloc s')"
    if "b \<in> G \<union> F1" for b
    using that G P(2,6) by blast+
  have disj: "(G \<union> F1) \<inter> tree x ?m (Suc d) a = {}" using fresh(1) inv(4) by blast
  have aF: "a \<notin> G \<union> F1" using disj tree_root[of a x ?m "Suc d"] by blast
  have m'a: "?m' a = Some (t[i := e'])"
    using P(5)[of a] tree1(2) aF assms(5) by simp
  have frame: "?m' b = ?m b" if "b \<noteq> a" "b \<notin> subtree x ?m (Suc d) a i" "b \<notin> G \<union> F1" for b
  proof -
    have "b \<notin> tree x ?m1 d c \<union> F1" "b \<notin> G" using tree1(1) that by blast+
    then show ?thesis using P(5)[of b] m1[of b] that(1) by simp
  qed
  have rep: "entry_replaced x ?m ?m' (Suc d) a i e' (G \<union> F1)"
    unfolding entry_replaced_def using assms(4) m'a idx_less[of "Suc d"] disj frame
    by (auto simp: i_def)
  have below: "tree x ?m' d c \<subseteq> subtree x ?m (Suc d) a i \<union> (G \<union> F1)" using P(4) tree1(1) by blast
  have a_not: "a \<notin> tree x ?m' d c" using P(4) tree1(2) aF by blast
  have wf: "wf_table x ?m' (Suc d) a \<and> tree x ?m' (Suc d) a \<subseteq> tree x ?m (Suc d) a \<union> (G \<union> F1)"
    using assms(2) P(3) below a_not e'(2) by (intro entry_replaced_wf[OF _ inv(3) rep e'(1)]) auto
  have tr': "translate_from x ?m' (level_of (Suc d)) a v =
      (if idx (Suc d) v = i then translate_from x ?m' (level_of d) c v
       else translate_from x ?m (level_of (Suc d)) a v)" for v
    using entry_replaced_translate[OF _ inv(3) rep e'(1), of v] assms(2) by (simp add: follow_def)
  have "?m' b = ?m b" if "b \<notin> tree x ?m (Suc d) a \<union> (G \<union> F1)" for b
    using frame[of b] that subtree_subset[of x ?m "Suc d" a i] tree_root[of a x ?m "Suc d"] by blast
  note base = P(1) subset_trans[OF G(2) P(2)] wf this fresh
  show ?thesis
  proof (cases r)
    case (Ok tp)
    have "\<forall>v. translate_from x ?m' (level_of (Suc d)) a v =
        (if same_idx (Suc d) v (start_addr p) then Inr (mapping_of tp (fs OR PRESENT) v)
         else translate_from x ?m (level_of (Suc d)) a v)"
      and "translate_from x ?m (level_of (Suc d)) a (start_addr p) = Inr NotMapped"
      using post Ok tr' tr1 by (auto simp: map_post_def same_idx_Suc i_def)
    moreover have "case target of ExistingPhysPage q \<Rightarrow> tp = q
        | NewPhysPage \<Rightarrow> \<exists>n. tp = frame_page n \<and> n * PAGE_SIZE \<le> 0x377777777777 \<and>
            n \<notin> used_pages (vm_alloc s) \<and> n \<in> used_pages (vm_alloc s') \<and> n \<notin> frame_index ` (G \<union> F1)"
    proof (cases target)
      case NewPhysPage
      with post Ok obtain n where n: "tp = frame_page n" "n * PAGE_SIZE \<le> 0x377777777777"
          "n \<notin> used_pages (vm_alloc sc)" "n \<in> used_pages (vm_alloc s')" "n \<notin> frame_index ` F1"
        by (auto simp: map_post_def)
      moreover have "n \<notin> frame_index ` G" using G(1) n(3) by blast
      ultimately show ?thesis using NewPhysPage G(2) by auto
    qed (use post Ok in \<open>simp add: map_post_def\<close>)
    ultimately show ?thesis
      unfolding map_post_def using base Ok by auto
  next
    case (Err e)
    have "\<forall>v. translate_from x ?m' (level_of (Suc d)) a v = translate_from x ?m (level_of (Suc d)) a v"
      using post Err tr' tr1 by (auto simp: map_post_def)
    moreover have "s' = s \<and> translate_from x ?m (level_of (Suc d)) a (start_addr p) = Inr (mapping_of q qfs (start_addr p))"
      if "e = PageAlreadyMapped q qfs" for q qfs
      using post Err that tr1[of "start_addr p"] same by (auto simp: map_post_def i_def mapping_of_def)
    ultimately show ?thesis
      unfolding map_post_def using base Err by auto
  qed
qed

text \<open>A new child table: empty, in a fresh frame, installed in the entry.\<close>
lemma allocate_child_spec:
  assumes "d < 3" "x86_64_spec x" "phys_inv (vm_alloc s)" "vm_mem s a = Some t"
    and "frame_index a \<in> used_pages (vm_alloc s)" "raw_address e = 0" "flags_ok fs"
  obtains (failed) err a' where "allocate_and_map_child_table x a i e fs s = Inr (Err err, s\<lparr>vm_alloc := a'\<rparr>)"
      "phys_inv a'" "used_pages a' = used_pages (vm_alloc s)"
  | (created) n a' e' where "allocate_and_map_child_table x a i e fs s =
        Inr (Ok (frame_addr n), s\<lparr>vm_alloc := a',
          vm_mem := (vm_mem s)(frame_addr n \<mapsto> replicate 512 0, a \<mapsto> t[i := e'])\<rparr>)"
      "phys_inv a'" "used_pages a' = insert n (used_pages (vm_alloc s))" "n \<notin> used_pages (vm_alloc s)"
      "frame_index (frame_addr n) = n" "frame_addr n \<noteq> a" "is_present e'"
      "entry_target x (level_of (Suc d)) e' = Inr (NextTable (level_of d) (frame_addr n))"
proof -
  from frames.alloc_total[of x "vm_alloc s"] assms(2,3) obtain r a' where
    run: "allocate_page x (vm_alloc s) = Inr (r, a')" by auto
  show thesis
  proof (cases r)
    case (Err err)
    with frames.alloc_err[of x "vm_alloc s" err a'] run assms(2,3) show ?thesis
      by (intro failed[of err a']) (auto simp: allocate_and_map_child_table_def)
  next
    case (Ok pg)
    with allocate_page_ok[OF assms(2,3)] run obtain n where n: "pg = frame_page n"
        "n * PAGE_SIZE \<le> 0x377777777777" "n \<notin> used_pages (vm_alloc s)"
        "used_pages a' = insert n (used_pages (vm_alloc s))" "phys_inv a'"
        "a \<noteq> frame_addr n" "frame_index (frame_addr n) = n"
      using assms(5) frame_index_addr by blast
    note fr = frame_page_frame[OF n(2)]
    let ?e = "of_nat (n * PAGE_SIZE) OR (fs OR PRESENT)"
    note e' = set_target_page_entry[OF assms(2) fr(1,2) assms(6,7)]
    have addr: "start_addr (frame_page n) = frame_addr n" by (simp add: frame_page_def)
    have "entry_target x (level_of (Suc d)) ?e = Inr (NextTable (level_of d) (frame_addr n))"
      using entry_target_frame[OF assms(2) e'(2,3)] e'(4) fr(1,2) level_of_lower[of "Suc d"] assms(1) addr by simp
    moreover have "allocate_and_map_child_table x a i e fs s = Inr (Ok (frame_addr n), s\<lparr>vm_alloc := a',
          vm_mem := (vm_mem s)(frame_addr n \<mapsto> replicate 512 0, a \<mapsto> t[i := ?e])\<rparr>)"
      using run Ok n(1,6) e'(1) addr assms(4)
      by (simp add: allocate_and_map_child_table_def zero_page_def write_entry_def)
    ultimately show ?thesis using created[where n = n and a' = a' and e' = ?e] n e'(2) by simp
  qed
qed

lemma flags_ok_and: "flags_ok fs \<Longrightarrow> flags_ok (fs AND ms)"
  by (simp add: flags_ok_def bit_simps and.assoc and.commute[of ms]) (simp flip: and.assoc)

lemma map_post_alloc_failed:
  "vm_inv x s d a \<Longrightarrow> phys_inv a' \<Longrightarrow> used_pages a' = used_pages (vm_alloc s) \<Longrightarrow>
   map_post x d a p target fs s (Err (PhysicalPageAllocationFailed err)) (s\<lparr>vm_alloc := a'\<rparr>) {}"
  by (auto simp: map_post_def dest: vm_invD)

text \<open>Descending into a child that the entry already has.\<close>
lemma map_from_next:
  assumes "d < 3" "vm_inv x s (Suc d) a" "vm_mem s a = Some t"
    and "entry_target x (level_of (Suc d)) (t ! idx (Suc d) (start_addr p)) = Inr (NextTable (level_of d) c)"
    and IH: "vm_inv x s d c \<Longrightarrow> \<exists>r s' F. map_from x (level_of d) c p target fs s = Inr (r, s') \<and>
      map_post x d c p target fs s r s' F"
  shows "\<exists>r s' F. map_from x (level_of (Suc d)) a p target fs s = Inr (r, s') \<and>
      map_post x (Suc d) a p target fs s r s' F"
proof -
  let ?i = "idx (Suc d) (start_addr p)" and ?m = "vm_mem s"
  note inv = vm_invD[OF assms(2)]
  from wf_table_table[OF inv(3)] assms(3) have ok: "table_ok x (Suc d) t" by (metis option.inject)
  then have len: "length t = 512" by (simp add: table_ok_def)
  have ch: "child x ?m (Suc d) a ?i = Some c"
    using assms(3,4) len idx_less[of "Suc d"] by (simp add: child_def)
  note wf = wf_table_SucD[OF inv(3) ch]
  have "vm_inv x s d c"
    using inv wf(1) child_tree[OF ch] by (auto simp: vm_inv_def tables_owned_def)
  from IH[OF this] obtain r s' F where
    run: "map_from x (level_of d) c p target fs s = Inr (r, s')" "map_post x d c p target fs s r s' F"
    by blast
  have present: "is_present (t ! ?i)" using assms(4)
    by (auto simp: entry_target_def run_facts split: if_splits)
  have tr: "translate_from x ?m (level_of d) c v = translate_from x ?m (level_of (Suc d)) a v"
    if "idx (Suc d) v = ?i" for v
    using translate_from_entry[of "Suc d" ?m a t x v "NextTable (level_of d) c"] assms(1,3,4) len that
    by (simp add: follow_def)
  have "map_post x (Suc d) a p target fs s r s' ({} \<union> F)"
    using assms(3,4) present wf(2) tr run(2) ch
    by (intro map_post_parent[OF assms(1,2,3), where c = c and e' = "t ! ?i" and sc = s])
      (simp_all add: subtree_def)
  moreover have "map_from x (level_of (Suc d)) a p target fs s = Inr (r, s')"
    using run(1) assms(1,3,4) len by (subst map_from.simps) (simp add: address_entry_eq)
  ultimately show ?thesis by blast
qed

text \<open>Creating the child of an entry that is not present.\<close>
lemma map_from_create:
  assumes "d < 3" "vm_inv x s (Suc d) a" "vm_mem s a = Some t" "flags_ok fs"
    and "entry_target x (level_of (Suc d)) (t ! idx (Suc d) (start_addr p)) = Inr Unmapped"
    and IH: "\<And>s c. vm_inv x s d c \<Longrightarrow> \<exists>r s' F. map_from x (level_of d) c p target fs s = Inr (r, s') \<and>
      map_post x d c p target fs s r s' F"
  shows "\<exists>r s' F. map_from x (level_of (Suc d)) a p target fs s = Inr (r, s') \<and>
      map_post x (Suc d) a p target fs s r s' F"
proof -
  let ?i = "idx (Suc d) (start_addr p)" and ?m = "vm_mem s"
  let ?cfs = "fs AND (PRESENT OR WRITABLE OR USER_ACCESSIBLE)"
  note inv = vm_invD[OF assms(2)]
  from wf_table_table[OF inv(3)] assms(3) have ok: "table_ok x (Suc d) t" by (metis option.inject)
  then have len: "length t = 512" by (simp add: table_ok_def)
  have "\<not> is_present (t ! ?i)" using assms(5)
    by (auto simp: entry_target_def run_facts split: if_splits option.splits)
  then have raw: "raw_address (t ! ?i) = 0" using ok len idx_less[of "Suc d"] by (simp add: table_ok_def)
  have step: "map_from x (level_of (Suc d)) a p target fs s =
      and_then (allocate_and_map_child_table x a ?i (t ! ?i) ?cfs s) (\<lambda>(r, s').
        case r of Err err \<Rightarrow> Inr (Err (PhysicalPageAllocationFailed err), s')
        | Ok table' \<Rightarrow> map_from x (level_of d) table' p target fs s')"
    using assms(1,3,5) len level_of_lower[of "Suc d"]
    by (subst map_from.simps) (simp add: address_entry_eq)
  show ?thesis
  proof (rule allocate_child_spec[OF assms(1) inv(1,2) assms(3) inv(4)[OF tree_root] raw
        flags_ok_and[OF assms(4)], where i = ?i])
    fix err a' assume "allocate_and_map_child_table x a ?i (t ! ?i) ?cfs s = Inr (Err err, s\<lparr>vm_alloc := a'\<rparr>)"
      "phys_inv a'" "used_pages a' = used_pages (vm_alloc s)"
    with step map_post_alloc_failed[OF assms(2)] show ?thesis by fastforce
  next
    fix n a' e'
    let ?c = "frame_addr n"
    let ?s1 = "s\<lparr>vm_alloc := a', vm_mem := ?m(?c \<mapsto> replicate 512 0, a \<mapsto> t[?i := e'])\<rparr>"
    assume new: "allocate_and_map_child_table x a ?i (t ! ?i) ?cfs s = Inr (Ok ?c, ?s1)"
      "phys_inv a'" "used_pages a' = insert n (used_pages (vm_alloc s))" "n \<notin> used_pages (vm_alloc s)"
      "frame_index ?c = n" "?c \<noteq> a" "is_present e'"
      "entry_target x (level_of (Suc d)) e' = Inr (NextTable (level_of d) ?c)"
    note zero = zero_table_tree[of d "vm_mem ?s1" ?c x]
    have "vm_inv x ?s1 d ?c"
      using inv(1) new zero assms(1) by (simp add: vm_inv_def tables_owned_def)
    from IH[OF this] obtain r s' F where
      run: "map_from x (level_of d) ?c p target fs ?s1 = Inr (r, s')" "map_post x d ?c p target fs ?s1 r s' F"
      by blast
    have tr: "translate_from x ?m (level_of (Suc d)) a v = Inr NotMapped" if "idx (Suc d) v = ?i" for v
      using translate_from_entry[of "Suc d" ?m a t x v Unmapped] assms(1,3,5) len that by (simp add: follow_def)
    have "map_post x (Suc d) a p target fs s r s' ({?c} \<union> F)"
      using assms(1) new zero tr run(2)
      by (intro map_post_parent[OF assms(1,2,3), where c = ?c and e' = e' and sc = ?s1]) auto
    with step new(1) run(1) show ?thesis by auto
  qed
qed

lemma map_from_spec:
  assumes "target_ok target" "flags_ok fs" "size_of_page p = Size4KiB"
  shows "d < 4 \<Longrightarrow> vm_inv x s d a \<Longrightarrow> \<exists>r s' F. map_from x (level_of d) a p target fs s = Inr (r, s') \<and>
    map_post x d a p target fs s r s' F"
proof (induction d arbitrary: a s)
  case 0
  from vm_invD(3)[OF 0(2)] obtain t where t: "vm_mem s a = Some t" "table_ok x 0 t" by (rule wf_table_table)
  from table_ok_target[OF t(2) idx_less[of 0 "start_addr p"]] obtain tg where
    tg: "entry_target x Level1 (t ! idx 0 (start_addr p)) = Inr tg" by auto
  show ?case
  proof (cases tg)
    case Unmapped
    with map_from_leaf[OF 0(2) assms t(1)] tg show ?thesis by auto
  next
    case (PageTarget q qfs)
    with map_from_PageTarget[OF _ 0(2), of t p q qfs] t tg show ?thesis by fastforce
  next
    case (NextTable l c)
    with tg show ?thesis using entry_target_lower by fastforce
  qed
next
  case (Suc d)
  from vm_invD(3)[OF Suc.prems(2)] obtain t where t: "vm_mem s a = Some t" "table_ok x (Suc d) t"
    by (rule wf_table_table)
  from table_ok_target[OF t(2) idx_less[of "Suc d" "start_addr p"]] obtain tg where
    tg: "entry_target x (level_of (Suc d)) (t ! idx (Suc d) (start_addr p)) = Inr tg" by auto
  have d: "d < 3" "d < 4" using Suc.prems(1) by simp_all
  show ?case
  proof (cases tg)
    case Unmapped
    with map_from_create[OF d(1) Suc.prems(2) t(1) assms(2)] tg Suc.IH[OF d(2)] show ?thesis by blast
  next
    case (PageTarget q qfs)
    with map_from_PageTarget[OF Suc.prems, of t p q qfs] t tg show ?thesis by blast
  next
    case (NextTable l c)
    then have "l = level_of d" using tg entry_target_lower level_of_lower[of "Suc d"] Suc.prems(1) by fastforce
    with NextTable map_from_next[OF d(1) Suc.prems(2) t(1) _ Suc.IH[OF d(2)]] tg show ?thesis by simp
  qed
qed

end
