(* ===== verification/Page_Table_Ops.thy ===== *)
theory Page_Table_Ops
  imports Page_Table_Proofs
begin

text \<open>
  Changing flags and unmapping. Both operations walk down to the entry that decides
  an address, the leaf, and replace that entry; the properties of the page-table
  operations are stated at the end.
\<close>

section \<open>The entry that decides an address\<close>

text \<open>The table and level of the entry at which the walk for \<open>v\<close> ends.\<close>
primrec leaf :: "x86_64 \<Rightarrow> memory \<Rightarrow> nat \<Rightarrow> u64 \<Rightarrow> u64 \<Rightarrow> u64 \<times> nat" where
  "leaf x m 0 a v = (a, 0)"
| "leaf x m (Suc d) a v =
     (case child x m (Suc d) a (idx (Suc d) v) of None \<Rightarrow> (a, Suc d) | Some c \<Rightarrow> leaf x m d c v)"

text \<open>The addresses whose walk from level \<open>d\<close> down to level \<open>k\<close> is that of \<open>v\<close>.\<close>
definition same_walk :: "nat \<Rightarrow> nat \<Rightarrow> u64 \<Rightarrow> u64 \<Rightarrow> bool" where
  "same_walk k d v w \<longleftrightarrow> (\<forall>j. k \<le> j \<longrightarrow> j \<le> d \<longrightarrow> idx j v = idx j w)"

lemma same_walk_Suc: "k \<le> d \<Longrightarrow> same_walk k (Suc d) v w \<longleftrightarrow> idx (Suc d) v = idx (Suc d) w \<and> same_walk k d v w"
  unfolding same_walk_def by (metis le_Suc_eq)

lemma same_walk_same: "same_walk d d v w \<longleftrightarrow> idx d v = idx d w"
  by (auto simp: same_walk_def)

lemma leaf_level: "snd (leaf x m d a v) \<le> d"
  by (induction d arbitrary: a) (auto split: option.split intro: le_SucI)

lemma wf_child:
  assumes "d < 3" "wf_table x m (Suc d) a" "m a = Some t"
  shows "child x m (Suc d) a (idx (Suc d) v) = Some c \<longleftrightarrow>
    entry_target x (level_of (Suc d)) (t ! idx (Suc d) v) = Inr (NextTable (level_of d) c)"
proof -
  from wf_table_table[OF assms(2)] assms(3) have "length t = 512" by (metis option.inject table_ok_def)
  then show ?thesis
    using assms(1,3) idx_less[of "Suc d" v] level_of_lower[of "Suc d"]
    by (auto simp: child_def split: sum.splits page_table_target.splits dest: entry_target_lower)
qed

text \<open>The leaf is a table of the tree, its entry for \<open>v\<close> can be read, and it points to no table.\<close>
lemma leaf_spec:
  assumes "d < 4" "wf_table x m d a" "leaf x m d a v = (b, k)"
  obtains t tg where "b \<in> tree x m d a" "k < 4" "m b = Some t" "table_ok x k t"
    "entry_target x (level_of k) (t ! idx k v) = Inr tg" "tg = Unmapped \<or> (\<exists>q qfs. tg = PageTarget q qfs)"
  using assms
proof (induction d arbitrary: a thesis)
  case 0
  from wf_table_table[OF 0(3)] obtain t where t: "m a = Some t" "table_ok x 0 t" .
  from table_ok_target[OF t(2) idx_less[of 0 v]] obtain tg where
    tg: "entry_target x Level1 (t ! idx 0 v) = Inr tg" by auto
  have "tg = Unmapped \<or> (\<exists>q qfs. tg = PageTarget q qfs)"
    using tg entry_target_lower by (cases tg) fastforce+
  with 0 t tg show ?case by auto
next
  case (Suc d)
  from wf_table_table[OF Suc.prems(3)] obtain t where t: "m a = Some t" "table_ok x (Suc d) t" .
  show ?case
  proof (cases "child x m (Suc d) a (idx (Suc d) v)")
    case None
    from table_ok_target[OF t(2) idx_less[of "Suc d" v]] obtain tg where
      tg: "entry_target x (level_of (Suc d)) (t ! idx (Suc d) v) = Inr tg" by auto
    have "tg = Unmapped \<or> (\<exists>q qfs. tg = PageTarget q qfs)"
      using tg None t idx_less[of "Suc d" v] by (cases tg) (auto simp: child_def table_ok_def)
    with Suc.prems t tg None show ?thesis by auto
  next
    case (Some c)
    have "leaf x m d c v = (b, k)" using Suc.prems(4) Some by simp
    from Suc.IH[OF _ _ wf_table_SucD(1)[OF Suc.prems(3) Some] this] Suc.prems(1,2) child_tree[OF Some]
    show ?thesis by (metis Suc_lessD subsetD)
  qed
qed

text \<open>The walks of the code: one step down, and all the way to the leaf.\<close>
lemma walk_child:
  assumes "d < 3" "wf_table x m (Suc d) a" "child x m (Suc d) a (idx (Suc d) v) = Some c"
  shows "translate_from x m (level_of (Suc d)) a v = translate_from x m (level_of d) c v"
    and "start_addr p = v \<Longrightarrow> set_flags_from x (level_of (Suc d)) a p fs m = set_flags_from x (level_of d) c p fs m"
    and "start_addr p = v \<Longrightarrow> vm_mem s = m \<Longrightarrow>
      unmap_from x (level_of (Suc d)) a p f s = unmap_from x (level_of d) c p f s"
proof -
  from wf_table_table[OF assms(2)] obtain t where t: "m a = Some t" "table_ok x (Suc d) t" .
  note entry = address_entry_eq[of "Suc d" m a t v, OF _ t(1)]
  have "length t = 512" using t(2) by (simp add: table_ok_def)
  moreover note wf_child[OF assms(1,2) t(1), of v c] assms(1,3)
  ultimately show "translate_from x m (level_of (Suc d)) a v = translate_from x m (level_of d) c v"
    "start_addr p = v \<Longrightarrow> set_flags_from x (level_of (Suc d)) a p fs m = set_flags_from x (level_of d) c p fs m"
    "start_addr p = v \<Longrightarrow> vm_mem s = m \<Longrightarrow>
      unmap_from x (level_of (Suc d)) a p f s = unmap_from x (level_of d) c p f s"
    using entry
    by (subst translate_from.simps set_flags_from.simps unmap_from.simps, simp)+
qed

lemma walk_to_leaf:
  assumes "d < 4" "wf_table x m d a" "leaf x m d a (start_addr p) = (b, k)"
  shows "translate_from x m (level_of d) a (start_addr p) = translate_from x m (level_of k) b (start_addr p) \<and>
    set_flags_from x (level_of d) a p fs m = set_flags_from x (level_of k) b p fs m \<and>
    (vm_mem s = m \<longrightarrow> unmap_from x (level_of d) a p f s = unmap_from x (level_of k) b p f s)"
  using assms
proof (induction d arbitrary: a)
  case (Suc d)
  show ?case
  proof (cases "child x m (Suc d) a (idx (Suc d) (start_addr p))")
    case (Some c)
    have d: "d < 3" "d < 4" using Suc.prems(1) by simp_all
    note step = walk_child[OF d(1) Suc.prems(2) Some]
    from Suc.IH[OF d(2) wf_table_SucD(1)[OF Suc.prems(2) Some]] Suc.prems(3) Some step(1)
      step(2)[of p fs, OF refl] step(3)[of p s f, OF refl]
    show ?thesis by simp
  qed (use Suc.prems in simp)
qed simp

lemmas walk_translate = walk_to_leaf[THEN conjunct1]
lemmas walk_set_flags = walk_to_leaf[THEN conjunct2, THEN conjunct1]
lemmas walk_unmap = walk_to_leaf[THEN conjunct2, THEN conjunct2, THEN mp]

text \<open>Replacing the leaf's entry by one that points to no table.\<close>
lemma leaf_replace:
  assumes "d < 4" "wf_table x m d a" "leaf x m d a v = (b, k)" "m b = Some t"
    and "entry_target x (level_of k) e' = Inr tg" "\<And>l c. tg \<noteq> NextTable l c"
    and "\<not> is_present e' \<longrightarrow> raw_address e' = 0"
  defines "m' \<equiv> m(b \<mapsto> t[idx k v := e'])"
  shows "wf_table x m' d a \<and> tree x m' d a \<subseteq> tree x m d a \<and>
    (\<forall>w. translate_from x m' (level_of d) a w =
       (if same_walk k d w v then follow x m' tg w else translate_from x m (level_of d) a w))"
  using assms(1-3)
proof (induction d arbitrary: a)
  have here: "wf_table x m' k b \<and> tree x m' k b \<subseteq> tree x m k b \<and>
      (\<forall>w. translate_from x m' (level_of k) b w =
       (if same_walk k k w v then follow x m' tg w else translate_from x m (level_of k) b w))"
    if "k < 4" "wf_table x m k b"
  proof -
    have rep: "entry_replaced x m m' k b (idx k v) e' {}"
      unfolding m'_def by (rule entry_replaced_leaf) (simp_all add: assms(4) idx_less)
    from entry_replaced_wf[OF that rep assms(5,7)] entry_replaced_translate[OF that rep assms(5)] assms(6)
    show ?thesis by (auto simp: same_walk_same)
  qed
  {
    case 0
    with here show ?case by simp
  next
    case (Suc d)
    show ?case
    proof (cases "child x m (Suc d) a (idx (Suc d) v)")
      case None
      with Suc.prems here show ?thesis by simp
    next
      case (Some c)
      have d: "d < 3" "d < 4" using Suc.prems(1) by simp_all
      have leaf: "leaf x m d c v = (b, k)" using Suc.prems(3) Some by simp
      note wf = wf_table_SucD[OF Suc.prems(2) Some]
      note IH = Suc.IH[OF d(2) wf(1) leaf]
      from leaf_spec[OF d(2) wf(1) leaf] have b: "b \<in> tree x m d c" by blast
      from wf_table_table[OF Suc.prems(2)] obtain u where u: "m a = Some u" "table_ok x (Suc d) u" .
      have ab: "a \<noteq> b" using b wf(2) by blast
      let ?i = "idx (Suc d) v"
      have tgt: "entry_target x (level_of (Suc d)) (u ! ?i) = Inr (NextTable (level_of d) c)"
        using wf_child[OF d(1) Suc.prems(2) u(1)] Some by blast
      then have present: "is_present (u ! ?i)" by (auto simp: entry_target_def run_facts split: if_splits)
      have rep: "entry_replaced x m m' (Suc d) a ?i (u ! ?i) {}"
        unfolding entry_replaced_def m'_def using u(1) ab b idx_less[of "Suc d" v] Some
        by (auto simp: subtree_def)
      have wf': "wf_table x m' (Suc d) a \<and> tree x m' (Suc d) a \<subseteq> tree x m (Suc d) a \<union> {}"
        using IH wf(2) Some present d(1)
        by (intro entry_replaced_wf[OF Suc.prems(1,2) rep tgt]) (auto simp: subtree_def)
      have tr: "translate_from x m' (level_of (Suc d)) a w =
          (if idx (Suc d) w = ?i then translate_from x m' (level_of d) c w
           else translate_from x m (level_of (Suc d)) a w)" for w
        using entry_replaced_translate[OF Suc.prems(1,2) rep tgt, of w] by (simp add: follow_def)
      have "translate_from x m (level_of (Suc d)) a w = translate_from x m (level_of d) c w"
        if "idx (Suc d) w = ?i" for w
        using walk_child(1)[OF d(1) Suc.prems(2), of w c] Some that by simp
      with tr IH wf' leaf_level[of x m d c v] leaf show ?thesis
        by (auto simp: same_walk_Suc)
    qed
  }
qed

section \<open>Changing flags and unmapping\<close>

fun size_level :: "page_size \<Rightarrow> nat" where
  "size_level Size4KiB = 0"
| "size_level Size2MiB = 1"
| "size_level Size1GiB = 2"

lemma level_cases: "k < 4 \<Longrightarrow> k = 0 \<or> k = 1 \<or> k = 2 \<or> k = (3::nat)"
  by linarith

lemma from_start_addr_Inr:
  "from_start_addr x a sz = Inr q \<longleftrightarrow> is_aligned_addr x a (of_nat (size_bytes sz)) \<and>
     q = \<lparr>start_addr = a, size_of_page = sz\<rparr>"
  by (auto simp: from_start_addr_def run_facts)

text \<open>An entry with a page: its level gives the size, and only huge pages have the
  huge-page flag.\<close>
lemma entry_target_page_iff:
  assumes "k < 4"
  shows "entry_target x (level_of k) e = Inr (PageTarget q qfs) \<longleftrightarrow>
    is_present e \<and> k < 3 \<and> (bit e 7 \<longleftrightarrow> 0 < k) \<and> qfs = flags_of e \<and> size_level (size_of_page q) = k \<and>
    (\<exists>a. entry_address x e = Inr a \<and> from_start_addr x a (size_of_page q) = Inr q)"
proof -
  have lv: "level_of 1 = Level2" "level_of 2 = Level3" "level_of 3 = Level4"
    by (simp_all add: numeral_eq_Suc)
  consider "k = 0" | "k = 1" | "k = 2" | "k = 3" using level_cases[OF assms] by blast
  then show ?thesis
  proof cases
  qed (cases "size_of_page q"; cases "is_present e"; cases "bit e 7"; cases "entry_address x e";
      auto simp: entry_target_def huge_bit lv from_start_addr_Inr run_facts)+
qed

lemma entry_target_page:
  assumes "k < 4" "entry_target x (level_of k) e = Inr (PageTarget q qfs)"
  shows "size_level (size_of_page q) = k" "is_present e" "qfs = flags_of e" "bit e 7 \<longleftrightarrow> 0 < k"
  using assms(2) unfolding entry_target_page_iff[OF assms(1)] by blast+

lemma entry_target_same_page:
  assumes "k < 4" "entry_target x (level_of k) e = Inr (PageTarget q qfs)"
    and "raw_address e' = raw_address e" "bit e' 7 \<longleftrightarrow> bit e 7" "is_present e'"
  shows "entry_target x (level_of k) e' = Inr (PageTarget q (flags_of e'))"
  using assms unfolding entry_target_page_iff[OF assms(1)] by (simp add: entry_address_def)

lemma set_entry_flags_facts:
  assumes "fs AND address_mask = 0"
  shows "raw_address (set_entry_flags fs e) = raw_address e" "flags_of (set_entry_flags fs e) = fs"
    "bit (set_entry_flags fs e) 7 \<longleftrightarrow> bit fs 7" "is_present (set_entry_flags fs e) \<longleftrightarrow> bit fs 0"
proof -
  have fs: "\<not> (bit fs n \<and> bit address_mask n)" for n
    using assms by (metis bit_0_eq bit_and_iff bot_apply bot_bool_def)
  show "raw_address (set_entry_flags fs e) = raw_address e" "flags_of (set_entry_flags fs e) = fs"
    using fs by (auto intro!: bit_word_eqI simp: raw_address_def set_entry_flags_def flags_of_def
        all_flags_eq bit_simps)
  show "bit (set_entry_flags fs e) 7 \<longleftrightarrow> bit fs 7" "is_present (set_entry_flags fs e) \<longleftrightarrow> bit fs 0"
    by (simp_all add: set_entry_flags_def raw_address_def is_present_bit bit_simps address_mask_bit)
qed

text \<open>The page that an address is mapped to, and its flags.\<close>
definition mapped_to :: "x86_64 \<Rightarrow> memory \<Rightarrow> nat \<Rightarrow> u64 \<Rightarrow> u64 \<Rightarrow> (page \<times> entry_flags) option" where
  "mapped_to x m d a v =
     (case translate_from x m (level_of d) a v of
        Inr (Mapped am) \<Rightarrow> Some (mapped_page am, mapped_flags am)
      | _ \<Rightarrow> None)"

lemma leaf_cases:
  assumes "d < 4" "wf_table x m d a"
  obtains (unmapped) b k t where "leaf x m d a v = (b, k)" "k < 4" "m b = Some t" "length t = 512"
      "entry_target x (level_of k) (t ! idx k v) = Inr Unmapped"
      "translate_from x m (level_of d) a v = Inr NotMapped"
  | (mapped) b k t q qfs where "leaf x m d a v = (b, k)" "k < 4" "m b = Some t" "length t = 512"
      "entry_target x (level_of k) (t ! idx k v) = Inr (PageTarget q qfs)"
      "translate_from x m (level_of d) a v = Inr (mapping_of q qfs v)"
proof -
  obtain b k where leaf: "leaf x m d a v = (b, k)" by (rule prod.exhaust)
  obtain t tg where "b \<in> tree x m d a" and t: "k < 4" "m b = Some t" "table_ok x k t"
      "entry_target x (level_of k) (t ! idx k v) = Inr tg" "tg = Unmapped \<or> (\<exists>q qfs. tg = PageTarget q qfs)"
    by (rule leaf_spec[OF assms leaf])
  then have len: "length t = 512" by (simp add: table_ok_def)
  let ?p = "\<lparr>start_addr = v, size_of_page = Size4KiB\<rparr>"
  have "translate_from x m (level_of d) a v = translate_from x m (level_of k) b v"
    using walk_translate[OF assms, of ?p b k] leaf by simp
  also have "\<dots> = follow x m tg v"
    using translate_from_entry[of k m b t x v tg] t(1,2,4) len by simp
  finally have tr: "translate_from x m (level_of d) a v = follow x m tg v" .
  show thesis
    using t(5)
  proof (elim disjE exE)
    assume "tg = Unmapped"
    with t(4) tr show thesis by (intro unmapped[OF leaf t(1,2) len]) (simp_all add: follow_def)
  next
    fix q qfs assume "tg = PageTarget q qfs"
    with t(4) tr show thesis
      by (intro mapped[OF leaf t(1,2) len]) (simp_all add: follow_def mapping_of_def)
  qed
qed

lemma set_flags_spec:
  assumes "d < 4" "wf_table x m d a" "fs AND address_mask = 0" "bit fs 0"
  shows "case mapped_to x m d a (start_addr p) of
      None \<Rightarrow> set_flags_from x (level_of d) a p fs m = Inr (Err SetFlagsPageNotMapped, m)
    | Some (q, _) \<Rightarrow> (bit fs 7 \<longleftrightarrow> size_of_page q \<noteq> Size4KiB) \<longrightarrow>
        (\<exists>m'. set_flags_from x (level_of d) a p fs m = Inr (Ok (), m') \<and> wf_table x m' d a \<and>
          tree x m' d a \<subseteq> tree x m d a \<and>
          (\<forall>w. translate_from x m' (level_of d) a w =
             (if same_walk (size_level (size_of_page q)) d w (start_addr p) then Inr (mapping_of q fs w)
              else translate_from x m (level_of d) a w)))"
proof (rule leaf_cases[OF assms(1,2), of "start_addr p"])
  fix b k t
  assume l: "leaf x m d a (start_addr p) = (b, k)" "k < 4" "m b = Some t" "length t = 512"
    "entry_target x (level_of k) (t ! idx k (start_addr p)) = Inr Unmapped"
    "translate_from x m (level_of d) a (start_addr p) = Inr NotMapped"
  have "set_flags_from x (level_of k) b p fs m = Inr (Err SetFlagsPageNotMapped, m)"
    using l by (subst set_flags_from.simps) (simp add: address_entry_eq)
  with walk_set_flags[OF assms(1,2) l(1)] l(6) show ?thesis by (simp add: mapped_to_def)
next
  fix b k t q qfs
  let ?i = "idx k (start_addr p)"
  assume l: "leaf x m d a (start_addr p) = (b, k)" "k < 4" "m b = Some t" "length t = 512"
    "entry_target x (level_of k) (t ! ?i) = Inr (PageTarget q qfs)"
    "translate_from x m (level_of d) a (start_addr p) = Inr (mapping_of q qfs (start_addr p))"
  let ?e' = "set_entry_flags fs (t ! ?i)"
  note page = entry_target_page[OF l(2,5)]
  note fl = set_entry_flags_facts[OF assms(3), of "t ! ?i"]
  have run: "set_flags_from x (level_of d) a p fs m = Inr (Ok (), m(b \<mapsto> t[?i := ?e']))"
    unfolding walk_set_flags[OF assms(1,2) l(1)]
    using l by (subst set_flags_from.simps) (simp add: address_entry_eq write_entry_def)
  have size: "size_of_page q \<noteq> Size4KiB \<longleftrightarrow> 0 < k" using page(1) by (cases "size_of_page q") auto
  have "entry_target x (level_of k) ?e' = Inr (PageTarget q fs)" if "bit fs 7 \<longleftrightarrow> size_of_page q \<noteq> Size4KiB"
    using entry_target_same_page[OF l(2,5), of ?e'] fl that size page(4) assms(4) by simp
  from leaf_replace[OF assms(1,2) l(1,3) this] fl(4) assms(4) run l(6) page(1) show ?thesis
    by (auto simp: mapped_to_def mapping_of_def follow_def)
qed

lemma unmap_spec:
  assumes "d < 4" "wf_table x (vm_mem s) d a"
  shows "case mapped_to x (vm_mem s) d a (start_addr p) of
      None \<Rightarrow> unmap_from x (level_of d) a p free s = Inr (Err UnmapPageNotMapped, s)
    | Some (q, _) \<Rightarrow>
        if size_of_page q \<noteq> size_of_page p then
          unmap_from x (level_of d) a p free s = Inr (Err (PageWrongSize (size_of_page p) (size_of_page q)), s)
        else
        (\<exists>m'. unmap_from x (level_of d) a p free s =
            (if free then and_then (free_page x q (vm_alloc s)) (\<lambda>a'. Inr (Ok q, s\<lparr>vm_mem := m', vm_alloc := a'\<rparr>))
             else Inr (Ok q, s\<lparr>vm_mem := m'\<rparr>)) \<and>
          wf_table x m' d a \<and> tree x m' d a \<subseteq> tree x (vm_mem s) d a \<and>
          (\<forall>w. translate_from x m' (level_of d) a w =
             (if same_walk (size_level (size_of_page p)) d w (start_addr p) then Inr NotMapped
              else translate_from x (vm_mem s) (level_of d) a w)))"
proof (rule leaf_cases[OF assms, of "start_addr p"])
  fix b k t
  assume l: "leaf x (vm_mem s) d a (start_addr p) = (b, k)" "k < 4" "vm_mem s b = Some t" "length t = 512"
    "entry_target x (level_of k) (t ! idx k (start_addr p)) = Inr Unmapped"
    "translate_from x (vm_mem s) (level_of d) a (start_addr p) = Inr NotMapped"
  have "unmap_from x (level_of k) b p free s = Inr (Err UnmapPageNotMapped, s)"
    using l by (subst unmap_from.simps) (simp add: address_entry_eq)
  with walk_unmap[OF assms l(1) refl] l(6) show ?thesis by (simp add: mapped_to_def)
next
  fix b k t q qfs
  let ?i = "idx k (start_addr p)" and ?m = "vm_mem s"
  assume l: "leaf x ?m d a (start_addr p) = (b, k)" "k < 4" "?m b = Some t" "length t = 512"
    "entry_target x (level_of k) (t ! ?i) = Inr (PageTarget q qfs)"
    "translate_from x ?m (level_of d) a (start_addr p) = Inr (mapping_of q qfs (start_addr p))"
  let ?m' = "?m(b \<mapsto> t[?i := 0])"
  note page = entry_target_page[OF l(2,5)]
  have run: "unmap_from x (level_of d) a p free s =
     (if size_of_page q \<noteq> size_of_page p then Inr (Err (PageWrongSize (size_of_page p) (size_of_page q)), s)
      else if free then and_then (free_page x q (vm_alloc s)) (\<lambda>a'. Inr (Ok q, s\<lparr>vm_mem := ?m', vm_alloc := a'\<rparr>))
      else Inr (Ok q, s\<lparr>vm_mem := ?m'\<rparr>))"
    unfolding walk_unmap[OF assms l(1) refl]
    using l by (subst unmap_from.simps) (simp add: address_entry_eq write_entry_def)
  have "\<not> is_present 0 \<longrightarrow> raw_address 0 = 0" by (simp add: raw_address_def)
  from leaf_replace[OF assms l(1,3) entry_target_zero _ this] run l(6) page(1) show ?thesis
    by (auto simp: mapped_to_def mapping_of_def follow_def)
qed

section \<open>Pages of virtual addresses\<close>

text \<open>The number of the virtual page of \<open>4096 * 512 ^ k\<close> bytes that an address is on; the
  bits above the 48 that are translated do not count.\<close>
definition virtual_page :: "nat \<Rightarrow> u64 \<Rightarrow> u64" where
  "virtual_page k v = drop_bit (12 + 9 * k) (take_bit 48 v)"

lemma idx_eq_iff: "idx j v = idx j w \<longleftrightarrow> (\<forall>n<9. bit v (12 + 9 * j + n) = bit w (12 + 9 * j + n))"
proof -
  have mask: "(0x1FF :: u64) = mask 9" by (simp add: mask_eq_exp_minus_1)
  have "idx j v = idx j w \<longleftrightarrow> drop_bit (12 + j * 9) v AND 0x1FF = drop_bit (12 + j * 9) w AND 0x1FF"
    by (simp add: idx_def word_unat_eq_iff)
  also have "\<dots> \<longleftrightarrow> (\<forall>n<9. bit v (12 + 9 * j + n) = bit w (12 + 9 * j + n))"
  proof
    assume eq: "drop_bit (12 + j * 9) v AND 0x1FF = drop_bit (12 + j * 9) w AND 0x1FF"
    have "bit v (12 + j * 9 + n) = bit w (12 + j * 9 + n)" if "n < 9" for n
    proof -
      have "bit (drop_bit (12 + j * 9) v AND 0x1FF) n = bit (drop_bit (12 + j * 9) w AND 0x1FF) n"
        by (simp only: eq)
      with that show ?thesis
        unfolding mask bit_and_iff bit_mask_iff bit_drop_bit_eq comp_def by simp
    qed
    then show "\<forall>n<9. bit v (12 + 9 * j + n) = bit w (12 + 9 * j + n)"
      by (simp add: mult.commute)
  next
    assume "\<forall>n<9. bit v (12 + 9 * j + n) = bit w (12 + 9 * j + n)"
    then show "drop_bit (12 + j * 9) v AND 0x1FF = drop_bit (12 + j * 9) w AND 0x1FF"
      unfolding mask by (intro bit_word_eqI) (auto simp: bit_simps ac_simps)
  qed
  finally show ?thesis .
qed

lemma same_walk_page: "same_walk k 3 v w \<longleftrightarrow> virtual_page k v = virtual_page k w"
proof
  assume walk: "same_walk k 3 v w"
  have "bit v (12 + 9 * k + n) = bit w (12 + 9 * k + n)" if "12 + 9 * k + n < 48" for n
  proof -
    let ?j = "k + n div 9"
    have "k \<le> ?j" "?j \<le> 3" using that by auto
    with walk have "idx ?j v = idx ?j w" by (simp add: same_walk_def)
    then have "\<forall>r<9. bit v (12 + 9 * ?j + r) = bit w (12 + 9 * ?j + r)"
      by (simp only: idx_eq_iff)
    from this[rule_format, of "n mod 9"]
    have "bit v (12 + 9 * ?j + n mod 9) = bit w (12 + 9 * ?j + n mod 9)" by simp
    moreover have "12 + 9 * ?j + n mod 9 = 12 + 9 * k + n" by (simp add: algebra_simps)
    ultimately show ?thesis by (simp only:)
  qed
  then show "virtual_page k v = virtual_page k w"
    unfolding virtual_page_def by (intro bit_word_eqI) (auto simp: bit_simps)
next
  assume page: "virtual_page k v = virtual_page k w"
  have bits: "bit v (12 + 9 * k + n) = bit w (12 + 9 * k + n)" if "12 + 9 * k + n < 48" for n
  proof -
    have "bit (virtual_page k v) n = bit (virtual_page k w) n" by (simp only: page)
    then show ?thesis using that by (simp add: virtual_page_def bit_simps)
  qed
  show "same_walk k 3 v w"
    unfolding same_walk_def idx_eq_iff
  proof (intro allI impI)
    fix j n :: nat assume j: "k \<le> j" "j \<le> 3" "n < 9"
    then have "12 + 9 * j + n = 12 + 9 * k + (9 * (j - k) + n)" by simp
    moreover have "12 + 9 * k + (9 * (j - k) + n) < 48" using j by simp
    ultimately show "bit v (12 + 9 * j + n) = bit w (12 + 9 * j + n)" using bits by (simp only:)
  qed
qed

lemma same_idx_page: "same_idx 3 v w \<longleftrightarrow> virtual_page 0 v = virtual_page 0 w"
  unfolding same_walk_page[symmetric] by (simp add: same_idx_def same_walk_def)

section \<open>The operations of a level 4 table\<close>

lemma level_of_3: "level_of 3 = Level4"
  by (simp add: numeral_eq_Suc)

lemma vm_inv_after_map:
  assumes "vm_inv x s d a" "map_post x d a p target fs s r s' F"
  shows "vm_inv x s' d a"
  unfolding vm_inv_def tables_owned_def
proof (intro conjI ballI)
  fix b assume "b \<in> tree x (vm_mem s') d a"
  then have "b \<in> tree x (vm_mem s) d a \<or> b \<in> F" using assms(2) unfolding map_post_def by blast
  then show "frame_index b \<in> used_pages (vm_alloc s')"
    using assms(2) vm_invD(4)[OF assms(1)] unfolding map_post_def by blast
qed (use assms vm_invD in \<open>auto simp: map_post_def\<close>)

lemma translate_same_idx:
  "d < 4 \<Longrightarrow> same_idx d v w \<Longrightarrow>
   (translate_from x m (level_of d) a v = Inr NotMapped) = (translate_from x m (level_of d) a w = Inr NotMapped)"
proof (induction d arbitrary: a)
  case 0
  then have "address_entry m a Level1 v = address_entry m a Level1 w"
    using page_table_index_eq(1)[of 0] by (simp add: address_entry_def same_idx_0)
  moreover have "entry_target x Level1 e \<noteq> Inr (NextTable l c)" for e l c
    using entry_target_lower by fastforce
  ultimately show ?case
    by (subst (1 2) translate_from.simps) (auto simp: run_facts split: page_table_target.splits)
next
  case (Suc d)
  have entry: "address_entry m a (level_of (Suc d)) v = address_entry m a (level_of (Suc d)) w"
    using Suc.prems by (simp add: address_entry_def page_table_index_eq(1) same_idx_Suc)
  have lower: "l = level_of d" if "entry_target x (level_of (Suc d)) e = Inr (NextTable l c)" for e l c
    using entry_target_lower[OF that] level_of_lower[OF Suc.prems(1)] by simp
  have IH: "(translate_from x m (level_of d) c v = Inr NotMapped) =
      (translate_from x m (level_of d) c w = Inr NotMapped)" for c
    using Suc by (simp add: same_idx_Suc)
  show ?case
  proof (cases "address_entry m a (level_of (Suc d)) w")
    case (Inr ie)
    obtain i e where ie: "ie = (i, e)" by (rule prod.exhaust)
    show ?thesis
      by (subst (1 2) translate_from.simps, cases "entry_target x (level_of (Suc d)) e")
        (auto simp: entry Inr ie IH dest!: lower split: page_table_target.split)
  qed (subst (1 2) translate_from.simps, simp add: entry)
qed

lemma translate_same_page:
  assumes "virtual_page 0 v = virtual_page 0 w"
  shows "(translate_from x m Level4 root v = Inr NotMapped) = (translate_from x m Level4 root w = Inr NotMapped)"
  using translate_same_idx[of 3 v w x m root] assms by (simp add: same_idx_page level_of_3)

lemma vm_inv_write:
  assumes "vm_inv x s d a" "wf_table x m' d a" "tree x m' d a \<subseteq> tree x (vm_mem s) d a"
  shows "vm_inv x (s\<lparr>vm_mem := m'\<rparr>) d a"
  using assms unfolding vm_inv_def tables_owned_def by auto

lemma mapped_to_3:
  "mapped_to x m 3 root v =
     (case translate_address x m root v of Inr (Mapped am) \<Rightarrow> Some (mapped_page am, mapped_flags am) | _ \<Rightarrow> None)"
  by (simp add: mapped_to_def translate_address_def level_of_3)

lemma translate_total:
  assumes "vm_inv x s 3 root"
  shows "\<exists>r. translate_address x (vm_mem s) root v = Inr r"
  unfolding translate_address_def level_of_3[symmetric]
  by (rule leaf_cases[OF _ vm_invD(3)[OF assms], of v]) auto

lemma free_mapped_frame:
  assumes "vm_inv x s d a" "n \<in> used_pages (vm_alloc s)" "n \<noteq> 0"
    and "n \<notin> frame_index ` tree x (vm_mem s) d a"
  obtains a' where "free_page x (frame_page n) (vm_alloc s) = Inr a'" "vm_inv x (s\<lparr>vm_alloc := a'\<rparr>) d a"
    "used_pages a' = used_pages (vm_alloc s) - {n}"
proof -
  from frames.free_law[of x "vm_alloc s" n] vm_invD[OF assms(1)] assms(2,3) obtain a' where
    a': "free_page x (frame_page n) (vm_alloc s) = Inr a'" "phys_inv a'"
      "used_pages a' = used_pages (vm_alloc s) - {n}" by blast
  moreover have "vm_inv x (s\<lparr>vm_alloc := a'\<rparr>) d a"
    using vm_invD[OF assms(1)] a' assms(4) by (auto simp: vm_inv_def tables_owned_def)
  ultimately show thesis using that by blast
qed

text \<open>C2: Mapping a 4 KiB page into a well-formed page table never panics and leaves the
  table well-formed, its tables in frames the allocator has given out. If it succeeds, the
  page was not mapped before, every address on it now translates to the target page with the
  requested flags and PRESENT, the target is the requested page or a frame that was free, and
  every other address translates as before. If it fails, no translation has changed; a page
  that is already mapped is reported with the page and flags it is mapped to, and nothing is
  written.\<close>
theorem map_to_correct:
  assumes "vm_inv x s 3 root" "target_ok target" "flags_ok fs" "size_of_page p = Size4KiB"
  shows "\<exists>r s'. map_to x root p target fs s = Inr (r, s') \<and> vm_inv x s' 3 root \<and>
    (case r of
       Ok tp \<Rightarrow>
         translate_address x (vm_mem s) root (start_addr p) = Inr NotMapped \<and>
         (\<forall>v. translate_address x (vm_mem s') root v =
            (if virtual_page 0 v = virtual_page 0 (start_addr p) then Inr (mapping_of tp (fs OR PRESENT) v)
             else translate_address x (vm_mem s) root v)) \<and>
         (case target of
            ExistingPhysPage q \<Rightarrow> tp = q
          | NewPhysPage \<Rightarrow> \<exists>n. tp = frame_page n \<and> n \<notin> used_pages (vm_alloc s) \<and> n \<in> used_pages (vm_alloc s'))
     | Err e \<Rightarrow>
         (\<forall>v. translate_address x (vm_mem s') root v = translate_address x (vm_mem s) root v) \<and>
         (case e of
            PageAlreadyMapped q qfs \<Rightarrow> s' = s \<and>
              translate_address x (vm_mem s) root (start_addr p) = Inr (mapping_of q qfs (start_addr p))
          | PhysicalPageAllocationFailed _ \<Rightarrow> True))"
    (is "\<exists>r s'. _ \<and> _ \<and> ?result r s'")
proof -
  from map_from_spec[OF assms(2-4) _ assms(1)] obtain r s' F where
    run: "map_to x root p target fs s = Inr (r, s')" and post: "map_post x 3 root p target fs s r s' F"
    by (auto simp: map_to_def level_of_3)
  show ?thesis
  proof (intro exI conjI)
    show "map_to x root p target fs s = Inr (r, s')" by (rule run)
    show "vm_inv x s' 3 root" by (rule vm_inv_after_map[OF assms(1) post])
    show "?result r s'"
      using post unfolding map_post_def translate_address_def same_idx_page level_of_3
      by (auto split: result.split map_error.split map_target.splits)
  qed
qed


text \<open>Changing the flags of a mapped page to flags with PRESENT (and with HUGE_PAGE just for
  a huge page) changes the flags that the translation of the page's addresses reports, and
  no other translation; a page that is not mapped is reported, and nothing changes.\<close>
theorem set_flags_correct:
  assumes "vm_inv x s 3 root" "fs AND address_mask = 0" "contains_flag fs PRESENT"
    and "\<And>am. translate_address x (vm_mem s) root (start_addr p) = Inr (Mapped am) \<Longrightarrow>
      contains_flag fs HUGE_PAGE \<longleftrightarrow> size_of_page (mapped_page am) \<noteq> Size4KiB"
  shows "case translate_address x (vm_mem s) root (start_addr p) of
      Inl _ \<Rightarrow> False
    | Inr NotMapped \<Rightarrow> set_flags x root p fs (vm_mem s) = Inr (Err SetFlagsPageNotMapped, vm_mem s)
    | Inr (Mapped am) \<Rightarrow>
        \<exists>m'. set_flags x root p fs (vm_mem s) = Inr (Ok (), m') \<and> vm_inv x (s\<lparr>vm_mem := m'\<rparr>) 3 root \<and>
          (let k = size_level (size_of_page (mapped_page am)) in
           \<forall>v. translate_address x m' root v =
             (if virtual_page k v = virtual_page k (start_addr p) then Inr (mapping_of (mapped_page am) fs v)
              else translate_address x (vm_mem s) root v))"
  using set_flags_spec[OF _ vm_invD(3)[OF assms(1)] assms(2), of p] translate_total[OF assms(1), of "start_addr p"]
    vm_inv_write[OF assms(1)] assms(3,4)
  unfolding mapped_to_3 set_flags_def translate_address_def level_of_3 same_walk_page Let_def flag_bits
  by (fastforce split: translate_result.splits)

lemma frame_index_page: "n * PAGE_SIZE \<le> 0x377777777777 \<Longrightarrow> frame_index (start_addr (frame_page n)) = n"
  by (simp add: frame_page_def)

text \<open>Mapping a new frame and unmapping the page again with its frame freed brings every
  translation back to what it was and returns the frame to the allocator; only the tables
  that were created on the way stay allocated.\<close>
theorem map_unmap_round_trip:
  assumes "vm_inv x s 3 root" "flags_ok fs" "size_of_page p = Size4KiB"
    and "map_to x root p NewPhysPage fs s = Inr (Ok tp, s1)"
  shows "\<exists>s2. unmap x root p True s1 = Inr (Ok tp, s2) \<and> vm_inv x s2 3 root \<and>
    (\<forall>v. translate_address x (vm_mem s2) root v = translate_address x (vm_mem s) root v) \<and>
    used_pages (vm_alloc s) \<subseteq> used_pages (vm_alloc s2) \<and>
    used_pages (vm_alloc s2) = used_pages (vm_alloc s1) - {frame_index (start_addr tp)} \<and>
    frame_index (start_addr tp) \<in> used_pages (vm_alloc s1)"
proof -
  have "target_ok NewPhysPage" by (simp add: target_ok_def)
  from map_from_spec[OF this assms(2,3) _ assms(1)] assms(4) obtain F where
    post: "map_post x 3 root p NewPhysPage fs s (Ok tp) s1 F"
    by (auto simp: map_to_def level_of_3)
  note inv1 = vm_inv_after_map[OF assms(1) post]
  from post obtain n where n: "tp = frame_page n" "n * PAGE_SIZE \<le> 0x377777777777"
      "n \<notin> used_pages (vm_alloc s)" "n \<in> used_pages (vm_alloc s1)" "n \<notin> frame_index ` F"
    unfolding map_post_def by auto
  have "0 \<in> used_pages (vm_alloc s)" using vm_invD(2)[OF assms(1)] by (simp add: phys_inv_def)
  with n(3) have n0: "n \<noteq> 0" by metis
  have tree1: "tree x (vm_mem s1) 3 root \<subseteq> tree x (vm_mem s) 3 root \<union> F"
    and sub: "used_pages (vm_alloc s) \<subseteq> used_pages (vm_alloc s1)"
    and tr1: "\<And>v. translate_from x (vm_mem s1) Level4 root v =
      (if virtual_page 0 v = virtual_page 0 (start_addr p) then Inr (mapping_of tp (fs OR PRESENT) v)
       else translate_from x (vm_mem s) Level4 root v)"
    and tr: "translate_from x (vm_mem s) Level4 root (start_addr p) = Inr NotMapped"
    using post unfolding map_post_def same_idx_page level_of_3 by auto
  have size: "size_of_page tp = size_of_page p" using n(1) assms(3) by (simp add: frame_page_def)
  have "mapped_to x (vm_mem s1) 3 root (start_addr p) = Some (tp, fs OR PRESENT)"
    using tr1[of "start_addr p"] by (simp add: mapped_to_def level_of_3 mapping_of_def)
  with unmap_spec[OF _ vm_invD(3)[OF inv1], of p True] size obtain m2 where
    run: "unmap x root p True s1 =
        and_then (free_page x tp (vm_alloc s1)) (\<lambda>a'. Inr (Ok tp, s1\<lparr>vm_mem := m2, vm_alloc := a'\<rparr>))"
      "wf_table x m2 3 root" "tree x m2 3 root \<subseteq> tree x (vm_mem s1) 3 root" and
    tr2: "\<And>v. translate_from x m2 Level4 root v =
        (if virtual_page 0 v = virtual_page 0 (start_addr p) then Inr NotMapped
         else translate_from x (vm_mem s1) Level4 root v)"
    using assms(3) by (auto simp: unmap_def level_of_3 same_walk_page)
  let ?s = "s1\<lparr>vm_mem := m2\<rparr>"
  have "n \<notin> frame_index ` tree x (vm_mem ?s) 3 root"
    using run(3) tree1 n(3,5) vm_invD(4)[OF assms(1)] by fastforce
  with free_mapped_frame[OF vm_inv_write[OF inv1 run(2,3)], of n] n(4) n0 obtain a' where
    a': "free_page x tp (vm_alloc s1) = Inr a'" "vm_inv x (s1\<lparr>vm_mem := m2, vm_alloc := a'\<rparr>) 3 root"
      "used_pages a' = used_pages (vm_alloc s1) - {n}" using n(1) by auto
  have same: "translate_from x (vm_mem s) Level4 root v = Inr NotMapped"
    if "virtual_page 0 v = virtual_page 0 (start_addr p)" for v
    using translate_same_page[of v "start_addr p" x "vm_mem s" root] that tr by simp
  have "\<forall>v. translate_from x m2 Level4 root v = translate_from x (vm_mem s) Level4 root v"
    using tr2 tr1 same by simp
  with run(1) a' sub n(3,4) show ?thesis
    unfolding n(1) frame_index_page[OF n(2)] translate_address_def by (auto simp: n(1))
qed

section \<open>Enough frames\<close>

lemma child_table_count:
  assumes "x86_64_spec x" "phys_inv (vm_alloc s)" "allocate_and_map_child_table x a i e fs s = Inr (r, s')"
  shows "phys_inv (vm_alloc s') \<and>
    (case r of Err _ \<Rightarrow> free_frames (vm_alloc s) = 0 | Ok _ \<Rightarrow> free_frames (vm_alloc s) = Suc (free_frames (vm_alloc s')))"
proof -
  from assms(3) obtain r0 a' where run: "allocate_page x (vm_alloc s) = Inr (r0, a')"
    by (auto simp: allocate_and_map_child_table_def run_facts)
  from allocate_page_count[OF assms(1,2) run] assms(3) run show ?thesis
    by (cases r0) (auto simp: allocate_and_map_child_table_def run_facts)
qed

lemma map_from_entry:
  assumes "map_from x level a p target fs s = Inr rs"
  shows "\<exists>i e tg. address_entry (vm_mem s) a level (start_addr p) = Inr (i, e) \<and> entry_target x level e = Inr tg"
  using assms by (subst (asm) map_from.simps) (auto simp: and_then_eq_Inr)

lemma target_count:
  assumes "x86_64_spec x" "phys_inv a" "get_target_page x target sz a = Inr (r, a')"
  shows "free_frames a \<le> Suc (free_frames a') \<and> (0 < free_frames a \<longrightarrow> (\<exists>tp. r = Ok tp))"
proof (cases target)
  case (ExistingPhysPage q)
  with assms(3) show ?thesis by (auto simp: get_target_page_def run_facts)
next
  case NewPhysPage
  then have "allocate_page x a = Inr (r, a')"
    using assms(3) by (auto simp: get_target_page_def run_facts)
  from allocate_page_count[OF assms(1,2) this] show ?thesis by (cases r) auto
qed

text \<open>A table \<open>d\<close> levels above the lowest needs at most \<open>d\<close> new tables and one target frame.\<close>
lemma map_from_frames:
  assumes "x86_64_spec x"
  shows "d < 4 \<Longrightarrow> phys_inv (vm_alloc s) \<Longrightarrow> map_from x (level_of d) a p target fs s = Inr (r, s') \<Longrightarrow>
    free_frames (vm_alloc s) \<le> Suc d + free_frames (vm_alloc s') \<and>
    (d < free_frames (vm_alloc s) \<longrightarrow> r \<noteq> Err (PhysicalPageAllocationFailed err))"
proof (induction d arbitrary: a s)
  case 0
  from map_from_entry[OF 0(3)] obtain i e tg where
    entry: "address_entry (vm_mem s) a Level1 (start_addr p) = Inr (i, e)" "entry_target x Level1 e = Inr tg"
    by auto
  show ?case
  proof (cases tg)
    case Unmapped
    with 0(3) entry obtain r1 a' where get: "get_target_page x target (size_of_page p) (vm_alloc s) = Inr (r1, a')"
      and rest: "(case r1 of Err err \<Rightarrow> Inr (Err (PhysicalPageAllocationFailed err), s\<lparr>vm_alloc := a'\<rparr>)
        | Ok tp \<Rightarrow> and_then (set_target_page x tp fs e) (\<lambda>e'.
            Inr (Ok tp, s\<lparr>vm_alloc := a', vm_mem := write_entry a i e' (vm_mem s)\<rparr>))) = Inr (r, s')"
      by (subst (asm) map_from.simps) (auto simp: run_facts)
    from target_count[OF assms 0(2) get] rest show ?thesis by (cases r1) (auto simp: run_facts)
  next
    case (PageTarget q qfs)
    with 0(3) entry show ?thesis by (subst (asm) map_from.simps) auto
  next
    case (NextTable l c)
    with entry(2) entry_target_lower[of x Level1 e l c] show ?thesis by simp
  qed
next
  case (Suc d)
  have d: "d < 4" using Suc.prems by simp
  have lower: "l = level_of d" if "entry_target x (level_of (Suc d)) e = Inr (NextTable l c)" for e l c
    using entry_target_lower[OF that] level_of_lower[OF Suc.prems(1)] by simp
  from map_from_entry[OF Suc.prems(3)] obtain i e tg where
    entry: "address_entry (vm_mem s) a (level_of (Suc d)) (start_addr p) = Inr (i, e)"
      "entry_target x (level_of (Suc d)) e = Inr tg" by auto
  show ?case
  proof (cases tg)
    case Unmapped
    let ?fs = "fs AND (PRESENT OR WRITABLE OR USER_ACCESSIBLE)"
    from Suc.prems(3) entry Unmapped level_of_lower[OF Suc.prems(1)] obtain r1 s1 where
      child: "allocate_and_map_child_table x a i e ?fs s = Inr (r1, s1)" and
      rest: "(case r1 of Err err \<Rightarrow> Inr (Err (PhysicalPageAllocationFailed err), s1)
        | Ok table' \<Rightarrow> map_from x (level_of d) table' p target fs s1) = Inr (r, s')"
      by (subst (asm) map_from.simps) (auto simp: run_facts)
    note count = child_table_count[OF assms Suc.prems(2) child]
    show ?thesis
    proof (cases r1)
      case (Ok c)
      with count Suc.IH[OF d, of s1 c] rest show ?thesis by auto
    next
      case (Err e)
      with count show ?thesis by simp
    qed
  next
    case (PageTarget q qfs)
    with Suc.prems(3) entry show ?thesis by (subst (asm) map_from.simps) auto
  next
    case (NextTable l c)
    with Suc.prems(3) entry lower have "map_from x (level_of d) c p target fs s = Inr (r, s')"
      by (subst (asm) map_from.simps) auto
    from Suc.IH[OF d Suc.prems(2) this] show ?thesis by auto
  qed
qed

lemma map_to_progress:
  assumes "vm_inv x s 3 root" "target_ok target" "flags_ok fs" "size_of_page p = Size4KiB"
    and "4 \<le> free_frames (vm_alloc s)"
    and "translate_address x (vm_mem s) root (start_addr p) = Inr NotMapped"
  shows "\<exists>tp s'. map_to x root p target fs s = Inr (Ok tp, s') \<and>
    translate_address x (vm_mem s') root (start_addr p) = Inr (mapping_of tp (fs OR PRESENT) (start_addr p))"
proof -
  from map_from_spec[OF assms(2-4) _ assms(1)] obtain r s' F where
    run: "map_from x (level_of 3) root p target fs s = Inr (r, s')" and post: "map_post x 3 root p target fs s r s' F"
    by auto
  have "r \<noteq> Err e" for e
  proof (cases e)
    case (PhysicalPageAllocationFailed err)
    with map_from_frames[OF vm_invD(1)[OF assms(1)] _ vm_invD(2)[OF assms(1)] run] assms(5)
    show ?thesis by simp
  next
    case (PageAlreadyMapped q qfs)
    with post assms(6) show ?thesis
      by (auto simp: map_post_def translate_address_def level_of_3 mapping_of_def)
  qed
  then obtain tp where "r = Ok tp" by (cases r) auto
  with run post show ?thesis
    by (auto simp: map_post_def map_to_def translate_address_def level_of_3 same_idx_def)
qed

text \<open>C23: Mapping makes progress: with four free frames (three tables and the page itself) a page
  that is not mapped gets mapped.\<close>
theorem map_to_succeeds:
  assumes "vm_inv x s 3 root" "target_ok target" "flags_ok fs" "size_of_page p = Size4KiB"
    and "4 \<le> free_frames (vm_alloc s)"
    and "translate_address x (vm_mem s) root (start_addr p) = Inr NotMapped"
  shows "\<exists>tp s'. map_to x root p target fs s = Inr (Ok tp, s') \<and>
    translate_address x (vm_mem s') root (start_addr p) = Inr (mapping_of tp (fs OR PRESENT) (start_addr p))"
  using map_to_progress[OF assms] .

section \<open>Indices and addresses\<close>

lemma and_power_eq_0: "a AND 2 ^ k = (0 :: u64) \<longleftrightarrow> \<not> (k < 64 \<and> bit a k)"
proof
  assume "a AND 2 ^ k = 0"
  then have "\<not> bit (a AND 2 ^ k) k" by simp
  then show "\<not> (k < 64 \<and> bit a k)" by (auto simp: bit_simps)
next
  assume "\<not> (k < 64 \<and> bit a k)"
  then show "a AND 2 ^ k = 0" by (intro bit_word_eqI) (auto simp: bit_simps)
qed

lemma sign_extend_canonical:
  assumes "\<And>n. 48 \<le> n \<Longrightarrow> \<not> bit a n"
  shows "canonical (sign_extend_virtual_address a)"
    and "n < 48 \<Longrightarrow> bit (sign_extend_virtual_address a) n = bit a n"
proof -
  have p47: "(0x800000000000 :: u64) = 2 ^ 47" by simp
  have high: "(0xFFFF800000000000 :: u64) = NOT (mask 47)" by (simp add: mask_eq_exp_minus_1)
  have b47: "a AND 0x800000000000 = 0 \<longleftrightarrow> \<not> bit a 47"
    unfolding p47 by (simp only: and_power_eq_0) simp
  have "a < 0x800000000000" if "\<not> bit a 47"
  proof -
    have "\<not> bit a n" if "47 \<le> n" for n
      using assms[of n] \<open>\<not> bit a 47\<close> that by (cases "n = 47") auto
    then have "take_bit 47 a = a" by (intro bit_word_eqI) (auto simp: bit_simps intro: leI ccontr)
    then have "take_bit 47 (unat a) = unat a" by (metis unsigned_take_bit_eq)
    then have "unat a < 2 ^ 47" by (metis take_bit_nat_less_exp)
    then show ?thesis by (simp add: word_less_nat_alt)
  qed
  moreover have "0xFFFF800000000000 \<le> b OR (0xFFFF800000000000 :: u64)" for b
    by (metis le_word_or2 or.commute)
  ultimately show "canonical (sign_extend_virtual_address a)"
    by (simp only: canonical_def sign_extend_virtual_address_def b47 split: if_split) blast
  have bits: "bit (0x800000000000 :: u64) n \<longleftrightarrow> n = 47" "n < 48 \<Longrightarrow> bit (0xFFFF800000000000 :: u64) n \<longleftrightarrow> n = 47" for n
    unfolding p47 high by (auto simp only: bit_exp_iff bit_not_iff bit_mask_iff possible_bit_word) auto
  show "bit (sign_extend_virtual_address a) n = bit a n" if "n < 48"
    using that bits[of n] by (auto simp only: sign_extend_virtual_address_def b47 bit_or_iff split: if_splits)
qed

text \<open>The virtual address that the kernel prints for entry \<open>index\<close> of a table is a canonical
  address, and the index of that address at that level is \<open>index\<close> again.\<close>
theorem entry_virtual_address_index:
  assumes "x86_64_spec x" "unat index < NUM_PAGE_TABLE_ENTRIES"
  shows "\<exists>a. page_table_entry_virtual_address x level index = Inr a \<and> canonical a \<and>
    page_table_index_from_address level a = Inr index"
proof -
  define k where "k = level_number level - 1"
  have k: "k < 4" "level_of k = level" by (cases level; simp add: k_def numeral_eq_Suc)+
  let ?raw = "push_bit (k * 9 + 12) (ucast index) :: u64"
  have small: "\<not> bit index n" if "9 \<le> n" for n
  proof -
    have "unat index div 2 ^ n = 0"
      using assms(2) power_increasing[of 9 n "2::nat"] that by (simp add: NUM_PAGE_TABLE_ENTRIES_def)
    then have "\<not> bit (unat index) n" by (simp add: bit_iff_odd)
    then show ?thesis by (simp add: bit_unsigned_iff)
  qed
  have raw: "bit ?raw n \<longleftrightarrow> k * 9 + 12 \<le> n \<and> n < 64 \<and> bit index (n - (k * 9 + 12))" for n
    by (auto simp: bit_simps bit_imp_le_length)
  have "\<not> bit ?raw n" if "48 \<le> n" for n
    using small[of "n - (k * 9 + 12)"] that k(1) by (simp add: raw)
  note ext = sign_extend_canonical[of ?raw, OF this]
  let ?a = "sign_extend_virtual_address ?raw"
  have run: "page_table_entry_virtual_address x level index = Inr ?a"
    using ext(1) x86_64_specD(2)[OF assms(1)]
    by (simp only: page_table_entry_virtual_address_def Let_def k_def[symmetric])
  have mask: "(0x1FF :: u64) = mask 9" by (simp add: mask_eq_exp_minus_1)
  have "drop_bit (12 + k * 9) ?a AND 0x1FF = ucast index"
  proof (rule bit_word_eqI)
    fix n assume "n < LENGTH(64)"
    have "bit (drop_bit (12 + k * 9) ?a AND mask 9) n \<longleftrightarrow> n < 9 \<and> bit ?a (12 + k * 9 + n)"
      by (auto simp: bit_simps)
    also have "\<dots> \<longleftrightarrow> n < 9 \<and> bit ?raw (12 + k * 9 + n)" using ext(2)[of "12 + k * 9 + n"] k(1) by auto
    also have "\<dots> \<longleftrightarrow> bit (ucast index :: u64) n"
      using small[of n] k(1) by (cases "n < 9") (auto simp: raw bit_simps)
    finally show "bit (drop_bit (12 + k * 9) ?a AND 0x1FF) n \<longleftrightarrow> bit (ucast index :: u64) n"
      unfolding mask .
  qed
  then have "idx k ?a = unat index" unfolding idx_def
    using assms(2) by (simp add: unsigned_ucast_eq take_bit_nat_eq_self NUM_PAGE_TABLE_ENTRIES_def)
  with page_table_index_eq[OF k(1), of ?a] k(2) have "page_table_index_from_address level ?a = Inr index" by simp
  with run ext(1) show ?thesis by blast
qed

section \<open>An address that is not cleared\<close>

text \<open>`set_address` adds the new address to the bits of the old one. An entry whose flags
  were set without PRESENT still holds its address, counts as not mapped, and so may be mapped
  again; the entry then points to the bitwise union of the two frames, not to the frame that
  was asked for.\<close>
theorem remap_keeps_old_address_bits:
  assumes "x86_64_spec x" "phys_frame w" "start_addr p = w + kernel_physical_mapping_start" "flags_ok fs"
  shows "entry_target x Level1 (set_entry_flags 0 e) = Inr Unmapped \<and>
    (\<exists>e'. set_target_page x p fs (set_entry_flags 0 e) = Inr e' \<and> raw_address e' = raw_address e OR w)"
proof
  have "\<not> is_present (set_entry_flags 0 e)" using set_entry_flags_facts(4)[of 0 e] by simp
  then show "entry_target x Level1 (set_entry_flags 0 e) = Inr Unmapped" by (simp add: entry_target_def)
  have "to_phys_addr x (start_addr p) = Inr w"
    using to_phys_addr_mapped[OF assms(1)] assms(2,3) by (simp add: phys_frame_def)
  then have "set_target_page x p fs (set_entry_flags 0 e) =
      Inr (set_entry_flags (fs OR PRESENT) (set_entry_flags 0 e OR w))"
    using phys_frame_mask(1)[OF assms(2)] by (simp add: set_target_page_def set_entry_address_def)
  moreover have "(fs OR PRESENT) AND address_mask = 0"
    using assms(4) by (simp add: flags_ok_def PRESENT_def address_mask_def bit.conj_disj_distrib2)
  moreover have "raw_address (set_entry_flags 0 e OR w) = raw_address e OR w"
    using phys_frame_mask(2)[OF assms(2)]
    by (simp add: raw_address_def set_entry_flags_def bit.conj_disj_distrib2 and.assoc)
  ultimately show "\<exists>e'. set_target_page x p fs (set_entry_flags 0 e) = Inr e' \<and> raw_address e' = raw_address e OR w"
    using set_entry_flags_facts(1) by simp
qed

text \<open>An entry of the frame at 4096 that is mapped again to the frame at 8192.\<close>
theorem remap_keeps_old_address_bits_witness:
  "entry_target x86_64_example Level1 (set_entry_flags 0 0x1003) = Inr Unmapped \<and>
   (\<exists>e'. set_target_page x86_64_example (frame_page 2) WRITABLE (set_entry_flags 0 0x1003) = Inr e' \<and>
      raw_address e' = 0x3000)"
proof -
  have 2: "2 * PAGE_SIZE \<le> 0x377777777777" by (simp add: PAGE_SIZE_def)
  note fr = frame_page_frame[OF 2]
  have "flags_ok WRITABLE" by (simp add: flags_ok_def WRITABLE_def address_mask_def bit_simps)
  from remap_keeps_old_address_bits[OF x86_64_example_spec fr(1,2) this, of "0x1003"]
  show ?thesis by (simp add: raw_address_def address_mask_def PAGE_SIZE_def)
qed

section \<open>An empty table\<close>

definition empty_vm :: vm where
  "empty_vm = \<lparr>vm_alloc = small_allocator, vm_mem = [frame_addr 2 \<mapsto> replicate 512 0]\<rparr>"

lemma empty_vm_inv: "vm_inv x86_64_example empty_vm 3 (frame_addr 2)"
proof -
  have "page_used small_allocator 2" by code_simp
  then have "frame_index (frame_addr 2) \<in> used_pages small_allocator"
    by (simp add: PAGE_SIZE_def used_pages_def)
  with zero_table_tree[of 3 "vm_mem empty_vm" "frame_addr 2" x86_64_example] small_allocator_inv
    x86_64_example_spec
  show ?thesis by (simp add: vm_inv_def tables_owned_def empty_vm_def)
qed

definition heap_page :: page where
  "heap_page = \<lparr>start_addr = kernel_heap_region_start, size_of_page = Size4KiB\<rparr>"

lemma writable_ok: "flags_ok WRITABLE"
  by (simp add: flags_ok_def WRITABLE_def address_mask_def bit_simps)

lemma empty_vm_translate: "translate_address x86_64_example (vm_mem empty_vm) (frame_addr 2) v = Inr NotMapped"
  using zero_table_tree(3)[of 3 "vm_mem empty_vm" "frame_addr 2" x86_64_example v]
  by (simp add: translate_address_def level_of_3 empty_vm_def)

theorem map_to_correct_witness:
  "vm_inv x86_64_example empty_vm 3 (frame_addr 2) \<and> flags_ok WRITABLE \<and>
   (\<exists>r s'. map_to x86_64_example (frame_addr 2) heap_page NewPhysPage WRITABLE empty_vm = Inr (r, s') \<and>
     vm_inv x86_64_example s' 3 (frame_addr 2))"
  using map_to_correct[OF empty_vm_inv _ writable_ok, of NewPhysPage heap_page] empty_vm_inv writable_ok
  by (auto simp: heap_page_def target_ok_def)


theorem set_flags_correct_witness:
  "vm_inv x86_64_example empty_vm 3 (frame_addr 2) \<and>
   set_flags x86_64_example (frame_addr 2) heap_page PRESENT (vm_mem empty_vm) =
     Inr (Err SetFlagsPageNotMapped, vm_mem empty_vm)"
proof -
  have "PRESENT AND address_mask = 0" by (simp add: PRESENT_def address_mask_def)
  moreover have "contains_flag PRESENT PRESENT" by (simp add: contains_flag_def)
  ultimately show ?thesis
    using set_flags_correct[OF empty_vm_inv, of PRESENT heap_page] empty_vm_inv
    by (simp add: empty_vm_translate)
qed

theorem entry_virtual_address_index_witness:
  "\<exists>a. page_table_entry_virtual_address x86_64_example Level4 511 = Inr a \<and> canonical a \<and>
     page_table_index_from_address Level4 a = Inr 511"
  by (rule entry_virtual_address_index[OF x86_64_example_spec]) (simp add: NUM_PAGE_TABLE_ENTRIES_def)

lemma empty_vm_free: "4 \<le> free_frames (vm_alloc empty_vm)"
proof -
  have "\<not> page_used small_allocator 8" "\<not> page_used small_allocator 9"
    "\<not> page_used small_allocator 10" "\<not> page_used small_allocator 11" by code_simp+
  moreover have "total_pages small_allocator = 128"
    by (simp add: small_allocator_def new_allocator_def total_pages_def bits_per_chunk_def)
  ultimately have "{8, 9, 10, 11} \<subseteq> {..<total_pages small_allocator} - used_pages small_allocator"
    by (simp add: used_pages_def)
  moreover have "finite ({..<total_pages small_allocator} - used_pages small_allocator)" by simp
  ultimately have "card {8, 9, 10, 11 :: nat} \<le> card ({..<total_pages small_allocator} - used_pages small_allocator)"
    by (intro card_mono)
  then show ?thesis by (simp add: free_frames_def empty_vm_def)
qed

lemma new_page_ok: "target_ok NewPhysPage"
  by (simp add: target_ok_def)

theorem map_to_succeeds_witness:
  "\<exists>tp s'. map_to x86_64_example (frame_addr 2) heap_page NewPhysPage WRITABLE empty_vm = Inr (Ok tp, s')"
proof -
  have "size_of_page heap_page = Size4KiB" by (simp add: heap_page_def)
  from map_to_succeeds[OF empty_vm_inv new_page_ok writable_ok this empty_vm_free empty_vm_translate]
  show ?thesis by blast
qed

theorem map_unmap_round_trip_witness:
  "\<exists>tp s1 s2. map_to x86_64_example (frame_addr 2) heap_page NewPhysPage WRITABLE empty_vm = Inr (Ok tp, s1) \<and>
     unmap x86_64_example (frame_addr 2) heap_page True s1 = Inr (Ok tp, s2)"
proof -
  have size: "size_of_page heap_page = Size4KiB" by (simp add: heap_page_def)
  from map_to_progress[OF empty_vm_inv new_page_ok writable_ok size empty_vm_free empty_vm_translate]
  obtain tp s1 where
    run: "map_to x86_64_example (frame_addr 2) heap_page NewPhysPage WRITABLE empty_vm = Inr (Ok tp, s1)" by blast
  from map_unmap_round_trip[OF empty_vm_inv writable_ok size run] run show ?thesis by blast
qed

end
