(* ===== verification/Kernel_Mapping.thy ===== *)
theory Kernel_Mapping
  imports Page_Table_Ops
begin

text \<open>
  The kernel's page table and its clients in kernel/src/memory: mapping.rs and
  heap.rs. The two locks that guard the page table and the allocator are
  options that are empty until they are initialised; the kernel runs these
  functions one at a time, so taking a lock is reading its contents. An
  iterator over pages is the list of what its calls of `next` give, each of
  which may panic.
\<close>

section \<open>State\<close>

record kernel_memory =
  page_table_lock :: "u64 option"
  allocator_lock :: "phys_allocator option"
  kernel_mem :: memory

record boot_info =
  higher_half_direct_map_offset :: u64
  kernel_address_virtual_base :: u64

text \<open>Running an operation on the allocator and memory under the allocator's lock.\<close>
definition with_allocator ::
  "(vm \<Rightarrow> ('r \<times> vm) outcome) \<Rightarrow> kernel_memory \<Rightarrow> ('r \<times> kernel_memory) outcome" where
  "with_allocator f k =
     and_then (expect (allocator_lock k)) (\<lambda>a.
     and_then (f \<lparr>vm_alloc = a, vm_mem = kernel_mem k\<rparr>) (\<lambda>(r, s).
     Inr (r, k\<lparr>allocator_lock := Some (vm_alloc s), kernel_mem := vm_mem s\<rparr>)))"

definition with_kernel_page_table_lock ::
  "(u64 \<Rightarrow> kernel_memory \<Rightarrow> ('r \<times> kernel_memory) outcome) \<Rightarrow> kernel_memory \<Rightarrow>
   ('r \<times> kernel_memory) outcome" where
  "with_kernel_page_table_lock f k = and_then (expect (page_table_lock k)) (\<lambda>root. f root k)"

section \<open>Iterators over page ranges\<close>

definition range_iter :: "(u64 \<Rightarrow> nat \<Rightarrow> u64 outcome) \<Rightarrow> page_range \<Rightarrow> page outcome list" where
  "range_iter add r =
     map (\<lambda>i. and_then (page_range_next add (r, i)) (\<lambda>(p, _). expect p)) [0..<num_pages r]"

section \<open>Initialisation\<close>

text \<open>`Level4PageTable::from_cr3`; \<open>cr3\<close> is the physical address that the register holds.\<close>
definition from_cr3 :: "u64 \<Rightarrow> u64 outcome" where
  "from_cr3 cr3 = from_phys_addr cr3"

definition physical_address :: "x86_64 \<Rightarrow> u64 \<Rightarrow> u64 outcome" where
  "physical_address x root = and_then (kern_phys_addr_new root) (to_phys_addr x)"

definition mapping_init :: "boot_info \<Rightarrow> u64 \<Rightarrow> kernel_memory \<Rightarrow> kernel_memory outcome" where
  "mapping_init boot_info_data cr3 k =
     and_then (assert_that (higher_half_direct_map_offset boot_info_data = higher_half_start)) (\<lambda>_.
     and_then (assert_that (kernel_address_virtual_base boot_info_data = kernel_text_data_region_start)) (\<lambda>_.
     and_then (assert_that (page_table_lock k = None)) (\<lambda>_.
     and_then (from_cr3 cr3) (\<lambda>page_table.
     Inr (k\<lparr>page_table_lock := Some page_table\<rparr>)))))"

definition clean_up_kernel_page_table :: "x86_64 \<Rightarrow> kernel_memory \<Rightarrow> kernel_memory outcome" where
  "clean_up_kernel_page_table x k =
     and_then (expect (page_table_lock k)) (\<lambda>table.
     and_then (unmap_lower_half table (kernel_mem k)) (\<lambda>m.
     and_then (with_allocator (\<lambda>s.
         and_then (fill_top_half_entries x table s) (\<lambda>s'. Inr ((), s')))
       (k\<lparr>kernel_mem := m\<rparr>)) (\<lambda>(_, k'). Inr k')))"

definition clone_kernel_page_table :: "x86_64 \<Rightarrow> kernel_memory \<Rightarrow> (u64 \<times> kernel_memory) outcome" where
  "clone_kernel_page_table x =
     with_kernel_page_table_lock (\<lambda>table. with_allocator (allocate_clone x table))"

section \<open>Mapping and unmapping pages\<close>

fun map_new_pages ::
  "x86_64 \<Rightarrow> u64 \<Rightarrow> entry_flags \<Rightarrow> page outcome list \<Rightarrow> vm \<Rightarrow> ((unit, map_error) result \<times> vm) outcome" where
  "map_new_pages x table fs [] s = Inr (Ok (), s)"
| "map_new_pages x table fs (it # its) s =
     and_then it (\<lambda>page.
     and_then (map_to x table page NewPhysPage fs s) (\<lambda>(r, s').
     case r of
       Err e \<Rightarrow> Inr (Err e, s')
     | Ok _ \<Rightarrow> map_new_pages x table fs its s'))"

definition allocate_and_map_pages ::
  "x86_64 \<Rightarrow> u64 \<Rightarrow> page outcome list \<Rightarrow> entry_flags \<Rightarrow> kernel_memory \<Rightarrow>
   ((unit, map_error) result \<times> kernel_memory) outcome" where
  "allocate_and_map_pages x table pages fs = with_allocator (map_new_pages x table fs pages)"

fun set_page_flags ::
  "x86_64 \<Rightarrow> u64 \<Rightarrow> page outcome list \<Rightarrow> entry_flags \<Rightarrow> memory \<Rightarrow>
   ((unit, set_flags_error) result \<times> memory) outcome" where
  "set_page_flags x table [] fs m = Inr (Ok (), m)"
| "set_page_flags x table (it # its) fs m =
     and_then it (\<lambda>page.
     and_then (set_flags x table page fs m) (\<lambda>(r, m').
     case r of
       Err e \<Rightarrow> Inr (Err e, m')
     | Ok _ \<Rightarrow> set_page_flags x table its fs m'))"

definition unmap_page ::
  "x86_64 \<Rightarrow> u64 \<Rightarrow> page \<Rightarrow> kernel_memory \<Rightarrow> ((page, unmap_error) result \<times> kernel_memory) outcome" where
  "unmap_page x table page = with_allocator (unmap x table page False)"

definition unmap_and_free_page ::
  "x86_64 \<Rightarrow> u64 \<Rightarrow> page \<Rightarrow> kernel_memory \<Rightarrow> ((page, unmap_error) result \<times> kernel_memory) outcome" where
  "unmap_and_free_page x table page = with_allocator (unmap x table page True)"

fun identity_map_pages ::
  "x86_64 \<Rightarrow> u64 \<Rightarrow> entry_flags \<Rightarrow> page outcome list \<Rightarrow> vm \<Rightarrow> ((unit, map_error) result \<times> vm) outcome" where
  "identity_map_pages x table fs [] s = Inr (Ok (), s)"
| "identity_map_pages x table fs (it # its) s =
     and_then it (\<lambda>phys_page.
     and_then (virt_addr_new x (start_addr phys_page)) (\<lambda>virt_addr.
     and_then (from_start_addr x virt_addr (size_of_page phys_page)) (\<lambda>virt_page.
     and_then (map_to x table virt_page (ExistingPhysPage phys_page) fs s) (\<lambda>(r, s').
     case r of
       Ok _ \<Rightarrow> identity_map_pages x table fs its s'
     | Err (PageAlreadyMapped _ _) \<Rightarrow> identity_map_pages x table fs its s'
     | Err e \<Rightarrow> Inr (Err e, s')))))"

definition identity_map_physical_pages ::
  "x86_64 \<Rightarrow> u64 \<Rightarrow> page outcome list \<Rightarrow> entry_flags \<Rightarrow> kernel_memory \<Rightarrow>
   ((unit, map_error) result \<times> kernel_memory) outcome" where
  "identity_map_physical_pages x table pages fs = with_allocator (identity_map_pages x table fs pages)"

section \<open>The kernel heap\<close>

definition HEAP_START :: u64 where
  "HEAP_START = kernel_heap_region_start"

definition HEAP_SIZE :: nat where
  "HEAP_SIZE = 10 * 1024 * 1024"

text \<open>The pages of the heap and whether they could be mapped; handing the memory to the
  linked-list allocator is the other crate's part.\<close>
definition heap_init :: "x86_64 \<Rightarrow> kernel_memory \<Rightarrow> ((unit, map_error) result \<times> kernel_memory) outcome" where
  "heap_init x k =
     and_then (assert_that (HEAP_SIZE < unat kernel_heap_region_max_size)) (\<lambda>_.
     and_then (virt_addr_new x HEAP_START) (\<lambda>heap_start_addr.
     let heap_start = containing_address x heap_start_addr Size4KiB;
         pages = from_num_bytes heap_start HEAP_SIZE;
         fs = PRESENT OR WRITABLE
     in with_kernel_page_table_lock (\<lambda>table.
          allocate_and_map_pages x table (range_iter (virt_addr_add x) pages) fs) k))"

section \<open>Mapping new pages\<close>

text \<open>From \<open>s\<close> to \<open>s'\<close> pages of \<open>V\<close> were mapped: the frames in use only grow, a frame in use that
  holds no table holds none afterwards, and no other page translates differently.\<close>
definition maps_more :: "x86_64 \<Rightarrow> u64 \<Rightarrow> u64 set \<Rightarrow> vm \<Rightarrow> vm \<Rightarrow> bool" where
  "maps_more x root V s s' \<longleftrightarrow>
     vm_inv x s' 3 root \<and> used_pages (vm_alloc s) \<subseteq> used_pages (vm_alloc s') \<and>
     (\<forall>n\<in>used_pages (vm_alloc s). n \<notin> frame_index ` tree x (vm_mem s) 3 root \<longrightarrow>
        n \<notin> frame_index ` tree x (vm_mem s') 3 root) \<and>
     (\<forall>v. virtual_page 0 v \<notin> V \<longrightarrow>
        translate_address x (vm_mem s') root v = translate_address x (vm_mem s) root v)"

lemma maps_moreD:
  assumes "maps_more x root V s s'"
  shows "vm_inv x s' 3 root" "used_pages (vm_alloc s) \<subseteq> used_pages (vm_alloc s')"
    "\<And>n. n \<in> used_pages (vm_alloc s) \<Longrightarrow> n \<notin> frame_index ` tree x (vm_mem s) 3 root \<Longrightarrow>
       n \<notin> frame_index ` tree x (vm_mem s') 3 root"
    "\<And>v. virtual_page 0 v \<notin> V \<Longrightarrow>
       translate_address x (vm_mem s') root v = translate_address x (vm_mem s) root v"
  using assms unfolding maps_more_def by blast+

lemma maps_more_refl: "vm_inv x s 3 root \<Longrightarrow> maps_more x root V s s"
  by (simp add: maps_more_def)

lemma maps_more_trans:
  assumes "maps_more x root V s s1" "maps_more x root W s1 s2"
  shows "maps_more x root (V \<union> W) s s2"
  unfolding maps_more_def
proof (intro conjI ballI allI impI)
  show "vm_inv x s2 3 root" by (rule maps_moreD(1)[OF assms(2)])
  show "used_pages (vm_alloc s) \<subseteq> used_pages (vm_alloc s2)"
    using maps_moreD(2)[OF assms(1)] maps_moreD(2)[OF assms(2)] by (rule subset_trans)
next
  fix n assume "n \<in> used_pages (vm_alloc s)" "n \<notin> frame_index ` tree x (vm_mem s) 3 root"
  then show "n \<notin> frame_index ` tree x (vm_mem s2) 3 root"
    using maps_moreD(2,3)[OF assms(1)] maps_moreD(3)[OF assms(2)] by blast
next
  fix v assume "virtual_page 0 v \<notin> V \<union> W"
  then show "translate_address x (vm_mem s2) root v = translate_address x (vm_mem s) root v"
    using maps_moreD(4)[OF assms(1), of v] maps_moreD(4)[OF assms(2), of v] by simp
qed

text \<open>Every address of the page \<open>p\<close> translates to the frame \<open>n\<close>, which is in use and holds
  no table.\<close>
definition backed_by :: "x86_64 \<Rightarrow> u64 \<Rightarrow> entry_flags \<Rightarrow> vm \<Rightarrow> page \<Rightarrow> nat \<Rightarrow> bool" where
  "backed_by x root fs s p n \<longleftrightarrow>
     n \<in> used_pages (vm_alloc s) \<and> n \<notin> frame_index ` tree x (vm_mem s) 3 root \<and>
     (\<forall>v. virtual_page 0 v = virtual_page 0 (start_addr p) \<longrightarrow>
        translate_address x (vm_mem s) root v = Inr (mapping_of (frame_page n) (fs OR PRESENT) v))"

lemma backed_by_more:
  assumes "backed_by x root fs s p n" "maps_more x root V s s'" "virtual_page 0 (start_addr p) \<notin> V"
  shows "backed_by x root fs s' p n"
  unfolding backed_by_def
proof (intro conjI allI impI)
  show "n \<in> used_pages (vm_alloc s')" "n \<notin> frame_index ` tree x (vm_mem s') 3 root"
    using assms(1) maps_moreD(2,3)[OF assms(2)] unfolding backed_by_def by blast+
next
  fix v assume v: "virtual_page 0 v = virtual_page 0 (start_addr p)"
  then have "virtual_page 0 v \<notin> V" using assms(3) by simp
  with v show "translate_address x (vm_mem s') root v = Inr (mapping_of (frame_page n) (fs OR PRESENT) v)"
    using assms(1) maps_moreD(4)[OF assms(2)] unfolding backed_by_def by simp
qed

lemma map_new_page:
  assumes "vm_inv x s 3 root" "flags_ok fs" "size_of_page p = Size4KiB"
  obtains r s' where "map_to x root p NewPhysPage fs s = Inr (r, s')"
    "maps_more x root {virtual_page 0 (start_addr p)} s s'"
    "\<forall>tp. r = Ok tp \<longrightarrow> (\<exists>n. n \<notin> used_pages (vm_alloc s) \<and> backed_by x root fs s' p n)"
    "free_frames (vm_alloc s) \<le> 4 + free_frames (vm_alloc s')"
    "4 \<le> free_frames (vm_alloc s) \<longrightarrow> translate_address x (vm_mem s) root (start_addr p) = Inr NotMapped \<longrightarrow>
       (\<exists>tp. r = Ok tp)"
proof -
  from map_from_spec[OF new_page_ok assms(2,3) _ assms(1)] obtain r s' F where
    run: "map_to x root p NewPhysPage fs s = Inr (r, s')" and post: "map_post x 3 root p NewPhysPage fs s r s' F"
    by (auto simp: map_to_def level_of_3)
  have tree': "tree x (vm_mem s') 3 root \<subseteq> tree x (vm_mem s) 3 root \<union> F"
    and used': "used_pages (vm_alloc s) \<subseteq> used_pages (vm_alloc s')"
    and fresh: "\<And>b. b \<in> F \<Longrightarrow> frame_index b \<notin> used_pages (vm_alloc s)"
    using post unfolding map_post_def by blast+
  have keep: "n \<notin> frame_index ` tree x (vm_mem s') 3 root"
    if "n \<in> used_pages (vm_alloc s)" "n \<notin> frame_index ` tree x (vm_mem s) 3 root" for n
    using that tree' fresh by blast
  have others: "translate_address x (vm_mem s') root v = translate_address x (vm_mem s) root v"
    if "virtual_page 0 v \<notin> {virtual_page 0 (start_addr p)}" for v
    using post that unfolding map_post_def translate_address_def same_idx_page level_of_3
    by (cases r) simp_all
  have "maps_more x root {virtual_page 0 (start_addr p)} s s'"
    unfolding maps_more_def using vm_inv_after_map[OF assms(1) post] used' keep others by blast
  moreover have "\<exists>n. n \<notin> used_pages (vm_alloc s) \<and> backed_by x root fs s' p n" if "r = Ok tp" for tp
  proof -
    from post that obtain n where n: "tp = frame_page n" "n \<notin> used_pages (vm_alloc s)"
        "n \<in> used_pages (vm_alloc s')" "n \<notin> frame_index ` F"
      and tr: "\<And>v. virtual_page 0 v = virtual_page 0 (start_addr p) \<Longrightarrow>
          translate_address x (vm_mem s') root v = Inr (mapping_of tp (fs OR PRESENT) v)"
      unfolding map_post_def translate_address_def same_idx_page level_of_3 by auto
    moreover have "n \<notin> frame_index ` tree x (vm_mem s') 3 root"
      using tree' n(2,4) vm_invD(4)[OF assms(1)] by blast
    ultimately show ?thesis unfolding backed_by_def by blast
  qed
  moreover have "free_frames (vm_alloc s) \<le> 4 + free_frames (vm_alloc s')"
    using map_from_frames[of x 3 s root p NewPhysPage fs r s'] vm_invD[OF assms(1)] run
    by (simp add: map_to_def level_of_3)
  moreover have "\<exists>tp. r = Ok tp"
    if "4 \<le> free_frames (vm_alloc s)" "translate_address x (vm_mem s) root (start_addr p) = Inr NotMapped"
    using map_to_progress[OF assms(1) new_page_ok assms(2,3) that] run by auto
  ultimately show thesis by (intro that[OF run]) blast+
qed

definition virtual_pages :: "page list \<Rightarrow> u64 set" where
  "virtual_pages ps = (\<lambda>p. virtual_page 0 (start_addr p)) ` set ps"

definition distinct_pages :: "page list \<Rightarrow> bool" where
  "distinct_pages ps \<longleftrightarrow> (\<forall>p\<in>set ps. size_of_page p = Size4KiB) \<and>
     distinct (map (\<lambda>p. virtual_page 0 (start_addr p)) ps)"

lemma distinct_pages_Cons:
  "distinct_pages (p # ps) \<longleftrightarrow> size_of_page p = Size4KiB \<and> virtual_page 0 (start_addr p) \<notin> virtual_pages ps \<and>
     distinct_pages ps"
  by (auto simp: distinct_pages_def virtual_pages_def)

text \<open>Mapping a list of pages to new frames \<open>ns\<close>; with four free frames per page it succeeds.\<close>
lemma map_new_pages_spec:
  assumes "flags_ok fs"
  shows "vm_inv x s 3 root \<Longrightarrow> distinct_pages ps \<Longrightarrow>
    \<exists>r s'. map_new_pages x root fs (map Inr ps) s = Inr (r, s') \<and> maps_more x root (virtual_pages ps) s s' \<and>
      (r = Ok () \<longrightarrow> (\<exists>ns. distinct ns \<and> set ns \<inter> used_pages (vm_alloc s) = {} \<and>
         list_all2 (backed_by x root fs s') ps ns)) \<and>
      (4 * length ps \<le> free_frames (vm_alloc s) \<longrightarrow>
       (\<forall>p\<in>set ps. translate_address x (vm_mem s) root (start_addr p) = Inr NotMapped) \<longrightarrow> r = Ok ())"
proof (induction ps arbitrary: s)
  case Nil
  then show ?case by (simp add: maps_more_refl)
next
  case (Cons p ps)
  from Cons.prems(2) have p: "size_of_page p = Size4KiB" "virtual_page 0 (start_addr p) \<notin> virtual_pages ps"
      "distinct_pages ps" by (simp_all add: distinct_pages_Cons)
  obtain r1 s1 where run1: "map_to x root p NewPhysPage fs s = Inr (r1, s1)"
    and step: "maps_more x root {virtual_page 0 (start_addr p)} s s1"
    and ok: "\<forall>tp. r1 = Ok tp \<longrightarrow> (\<exists>n. n \<notin> used_pages (vm_alloc s) \<and> backed_by x root fs s1 p n)"
    and free: "free_frames (vm_alloc s) \<le> 4 + free_frames (vm_alloc s1)"
      "4 \<le> free_frames (vm_alloc s) \<longrightarrow> translate_address x (vm_mem s) root (start_addr p) = Inr NotMapped \<longrightarrow>
         (\<exists>tp. r1 = Ok tp)"
    by (rule map_new_page[OF Cons.prems(1) assms p(1)])
  show ?case
  proof (cases r1)
    case (Err e)
    then have "map_new_pages x root fs (map Inr (p # ps)) s = Inr (Err e, s1)" using run1 by simp
    moreover have "maps_more x root (virtual_pages (p # ps)) s s1"
      using maps_more_trans[OF step maps_more_refl[OF maps_moreD(1)[OF step]], of "virtual_pages ps"]
      by (simp add: virtual_pages_def)
    moreover have "\<not> (4 * length (p # ps) \<le> free_frames (vm_alloc s) \<and>
        translate_address x (vm_mem s) root (start_addr p) = Inr NotMapped)"
      using free(2) Err by auto
    ultimately show ?thesis by auto
  next
    case (Ok tp)
    from Cons.IH[OF maps_moreD(1)[OF step] p(3)] obtain r s' where
      run: "map_new_pages x root fs (map Inr ps) s1 = Inr (r, s')" and
      more: "maps_more x root (virtual_pages ps) s1 s'" and
      res: "r = Ok () \<longrightarrow> (\<exists>ns. distinct ns \<and> set ns \<inter> used_pages (vm_alloc s1) = {} \<and>
         list_all2 (backed_by x root fs s') ps ns)" and
      enough: "4 * length ps \<le> free_frames (vm_alloc s1) \<longrightarrow>
       (\<forall>p\<in>set ps. translate_address x (vm_mem s1) root (start_addr p) = Inr NotMapped) \<longrightarrow> r = Ok ()"
      by blast
    from ok Ok obtain n where n: "n \<notin> used_pages (vm_alloc s)" "backed_by x root fs s1 p n" by blast
    then have n1: "n \<in> used_pages (vm_alloc s1)" "backed_by x root fs s' p n"
      using backed_by_more[OF n(2) more p(2)] by (simp_all add: backed_by_def)
    have frames: "\<exists>ns. distinct ns \<and> set ns \<inter> used_pages (vm_alloc s) = {} \<and>
        list_all2 (backed_by x root fs s') (p # ps) ns" if rok: "r = Ok ()"
    proof -
      from res rok obtain ns where ns: "distinct ns" "set ns \<inter> used_pages (vm_alloc s1) = {}"
        "list_all2 (backed_by x root fs s') ps ns" by blast
      with n(1) n1 maps_moreD(2)[OF step] have "distinct (n # ns)" "set (n # ns) \<inter> used_pages (vm_alloc s) = {}"
        by auto
      with ns(3) n1(2) show ?thesis by (intro exI[of _ "n # ns"]) simp
    qed
    have "translate_address x (vm_mem s1) root (start_addr q) = translate_address x (vm_mem s) root (start_addr q)"
      if "q \<in> set ps" for q
    proof -
      have "virtual_page 0 (start_addr q) \<in> virtual_pages ps" using that by (simp add: virtual_pages_def)
      with p(2) have "virtual_page 0 (start_addr q) \<notin> {virtual_page 0 (start_addr p)}" by (metis singletonD)
      then show ?thesis by (rule maps_moreD(4)[OF step])
    qed
    then have "4 * length (p # ps) \<le> free_frames (vm_alloc s) \<longrightarrow>
       (\<forall>p\<in>set (p # ps). translate_address x (vm_mem s) root (start_addr p) = Inr NotMapped) \<longrightarrow> r = Ok ()"
      using enough free(1) by simp
    moreover have "maps_more x root (virtual_pages (p # ps)) s s'"
      using maps_more_trans[OF step more] by (simp add: virtual_pages_def)
    moreover have "map_new_pages x root fs (map Inr (p # ps)) s = Inr (r, s')" using run1 Ok run by simp
    ultimately show ?thesis using frames by blast
  qed
qed

section \<open>Cleaning up the kernel's table\<close>

lemma lower_half_step:
  assumes "i < 256" "wf_table x m 3 root"
  shows "\<exists>m'. and_then (read_entry m root i) (\<lambda>_. Inr (write_entry root i 0 m)) = Inr m' \<and>
    wf_table x m' 3 root \<and> tree x m' 3 root \<subseteq> tree x m 3 root \<and>
    (\<forall>v. translate_address x m' root v = (if idx 3 v = i then Inr NotMapped else translate_address x m root v))"
proof -
  from assms(2) obtain t where t: "m root = Some t" "table_ok x 3 t" by (rule wf_table_table)
  have i: "i < length t" "i < 512" using t(2) assms(1) by (simp_all add: table_ok_def)
  have rep: "entry_replaced x m (m(root \<mapsto> t[i := 0])) 3 root i 0 {}"
    by (rule entry_replaced_leaf) (simp_all add: t(1) i(2))
  have "\<not> is_present 0 \<longrightarrow> raw_address 0 = 0" by (simp add: raw_address_def)
  with entry_replaced_wf[OF _ assms(2) rep entry_target_zero] entry_replaced_translate[OF _ assms(2) rep entry_target_zero]
    t(1) i(1)
  show ?thesis
    by (simp add: read_entry_def write_entry_def translate_address_def level_of_3 follow_def)
qed

text \<open>`unmap_lower_half` leaves no address of the lower half mapped.\<close>
lemma unmap_lower_half_spec:
  assumes "wf_table x m 3 root"
  shows "\<exists>m'. unmap_lower_half root m = Inr m' \<and> wf_table x m' 3 root \<and> tree x m' 3 root \<subseteq> tree x m 3 root \<and>
    (\<forall>v. translate_address x m' root v = (if idx 3 v < 256 then Inr NotMapped else translate_address x m root v))"
  unfolding unmap_lower_half_def
proof (rule for_range_invariant[where I = "\<lambda>i m'. wf_table x m' 3 root \<and> tree x m' 3 root \<subseteq> tree x m 3 root \<and>
    (\<forall>v. translate_address x m' root v = (if idx 3 v < i then Inr NotMapped else translate_address x m root v))"])
  fix i m1
  assume "i < 256" and I: "wf_table x m1 3 root \<and> tree x m1 3 root \<subseteq> tree x m 3 root \<and>
    (\<forall>v. translate_address x m1 root v = (if idx 3 v < i then Inr NotMapped else translate_address x m root v))"
  from lower_half_step[OF this(1), of x m1 root] I
  show "\<exists>s'. and_then (read_entry m1 root i) (\<lambda>_. Inr (write_entry root i 0 m1)) = Inr s' \<and>
      wf_table x s' 3 root \<and> tree x s' 3 root \<subseteq> tree x m 3 root \<and>
      (\<forall>v. translate_address x s' root v = (if idx 3 v < Suc i then Inr NotMapped else translate_address x m root v))"
    by (fastforce simp: less_Suc_eq)
qed (use assms in simp_all)

lemma entry_target_same_table:
  assumes "entry_target x level e = Inr (NextTable l c)"
    and "raw_address e' = raw_address e" "\<not> bit e' 7" "is_present e'"
  shows "entry_target x level e' = Inr (NextTable l c)"
  using assms by (auto simp: entry_target_def entry_address_def huge_bit run_facts split: if_splits option.splits)

text \<open>An entry of the top half that already has a table gets the flags PRESENT and WRITABLE.\<close>
lemma top_half_next:
  assumes "vm_inv x s 3 root" "vm_mem s root = Some t" "i < 512"
    and "entry_target x Level4 (t ! i) = Inr (NextTable Level3 c)"
  defines "m' \<equiv> (vm_mem s)(root \<mapsto> t[i := set_entry_flags (PRESENT OR WRITABLE) (t ! i)])"
  shows "vm_inv x (s\<lparr>vm_mem := m'\<rparr>) 3 root" "child x m' 3 root i = Some c"
    "translate_address x m' root v = translate_address x (vm_mem s) root v"
proof -
  let ?e' = "set_entry_flags (PRESENT OR WRITABLE) (t ! i)" and ?m = "vm_mem s"
  have n3: "(3::nat) = Suc 2" by simp
  note inv = vm_invD[OF assms(1)]
  have len: "length t = 512" using wf_table_table[OF inv(3)] assms(2) by (metis option.inject table_ok_def)
  have "(PRESENT OR WRITABLE) AND address_mask = 0" by (simp add: PRESENT_def WRITABLE_def address_mask_def)
  note fl = set_entry_flags_facts[OF this, of "t ! i"]
  have bits: "bit (PRESENT OR WRITABLE) 0" "\<not> bit (PRESENT OR WRITABLE) 7"
    by (simp_all add: PRESENT_def WRITABLE_def bit_simps)
  have lv: "level_of 2 = Level3" by (simp add: numeral_eq_Suc)
  have tgt: "entry_target x (level_of 3) ?e' = Inr (NextTable Level3 c)"
    using entry_target_same_table[OF assms(4), of ?e'] fl bits by (simp add: level_of_3)
  have rep: "entry_replaced x ?m m' 3 root i ?e' {}"
    unfolding m'_def by (rule entry_replaced_leaf) (simp_all add: assms(2,3))
  have ch: "child x ?m 3 root i = Some c"
    using assms(2,3,4) len by (simp add: child_def level_of_3)
  show "child x m' 3 root i = Some c"
    using tgt assms(3) len by (simp add: child_def level_of_3 m'_def)
  note wf = wf_table_SucD[OF inv(3)[unfolded n3] ch[unfolded n3]]
  have "\<forall>b\<in>tree x ?m 2 c. m' b = ?m b" using wf(2) by (auto simp: m'_def)
  note agree = tree_agree[OF _ this]
  have wf': "wf_table x m' 3 root \<and> tree x m' 3 root \<subseteq> tree x ?m 3 root \<union> {}"
    using agree wf(1,2) ch fl(4) bits(1)
    by (intro entry_replaced_wf[OF _ inv(3) rep tgt]) (auto simp: subtree_def)
  then show "vm_inv x (s\<lparr>vm_mem := m'\<rparr>) 3 root" using vm_inv_write[OF assms(1)] by simp
  show "translate_address x m' root v = translate_address x ?m root v"
  proof (cases "idx 3 v = i")
    case True
    then have "translate_address x m' root v = translate_from x m' (level_of 2) c v"
      using entry_replaced_translate(1)[OF _ inv(3) rep tgt] by (simp add: translate_address_def level_of_3 follow_def lv)
    also have "\<dots> = translate_from x ?m (level_of 2) c v" using agree by simp
    also have "\<dots> = translate_address x ?m root v"
      using walk_child(1)[OF _ inv(3)[unfolded n3], of v c] ch True
      by (simp add: translate_address_def level_of_3 flip: n3)
    finally show ?thesis .
  next
    case False
    then show ?thesis
      using entry_replaced_translate(2)[OF _ inv(3) rep tgt] by (simp add: translate_address_def level_of_3)
  qed
qed

text \<open>An entry of the top half without a table gets an empty one.\<close>
lemma top_half_create:
  assumes "vm_inv x s 3 root" "vm_mem s root = Some t" "i < 512" "0 < free_frames (vm_alloc s)"
    and "entry_target x Level4 (t ! i) = Inr Unmapped"
  obtains c s' where "allocate_and_map_child_table x root i (t ! i) (PRESENT OR WRITABLE) s = Inr (Ok c, s')"
    "vm_inv x s' 3 root" "child x (vm_mem s') 3 root i = Some c" "\<exists>e'. vm_mem s' root = Some (t[i := e'])"
    "\<And>v. translate_address x (vm_mem s') root v = translate_address x (vm_mem s) root v"
proof -
  let ?m = "vm_mem s"
  have n3: "(3::nat) = Suc 2" by simp
  have lv: "level_of 2 = Level3" by (simp add: numeral_eq_Suc)
  note inv = vm_invD[OF assms(1)]
  from wf_table_table[OF inv(3)] assms(2) have ok: "table_ok x 3 t" by (metis option.inject)
  then have len: "length t = 512" by (simp add: table_ok_def)
  have "\<not> is_present (t ! i)" using assms(5)
    by (auto simp: entry_target_def run_facts split: if_splits option.splits)
  then have raw: "raw_address (t ! i) = 0" using ok len assms(3) by (simp add: table_ok_def)
  have fl: "flags_ok (PRESENT OR WRITABLE)"
    by (simp add: flags_ok_def PRESENT_def WRITABLE_def address_mask_def bit_simps)
  have two: "(2::nat) < 3" by simp
  show thesis
  proof (rule allocate_child_spec[OF two inv(1,2) assms(2) inv(4)[OF tree_root] raw fl, where i = i])
    fix err a' assume "allocate_and_map_child_table x root i (t ! i) (PRESENT OR WRITABLE) s =
        Inr (Err err, s\<lparr>vm_alloc := a'\<rparr>)"
    from child_table_count[OF inv(1,2) this] assms(4) show thesis by simp
  next
    fix n a' e'
    let ?c = "frame_addr n" and ?m' = "?m(frame_addr n \<mapsto> replicate 512 0, root \<mapsto> t[i := e'])"
    assume new: "allocate_and_map_child_table x root i (t ! i) (PRESENT OR WRITABLE) s =
        Inr (Ok ?c, s\<lparr>vm_alloc := a', vm_mem := ?m'\<rparr>)"
      "phys_inv a'" "used_pages a' = insert n (used_pages (vm_alloc s))" "n \<notin> used_pages (vm_alloc s)"
      "frame_index ?c = n" "?c \<noteq> root" "is_present e'"
      "entry_target x (level_of (Suc 2)) e' = Inr (NextTable (level_of 2) ?c)"
    note zero = zero_table_tree[of 2 ?m' ?c x]
    have c_new: "?c \<notin> tree x ?m 3 root" using inv(4) new(4,5) by metis
    have rep: "entry_replaced x ?m ?m' 3 root i e' {?c}"
      unfolding entry_replaced_def using assms(2,3) c_new new(6) by auto
    have tgt: "entry_target x (level_of 3) e' = Inr (NextTable Level3 ?c)" using new(8) lv by simp
    have wf: "wf_table x ?m' 3 root \<and> tree x ?m' 3 root \<subseteq> tree x ?m 3 root \<union> {?c}"
      using zero new(6,7) by (intro entry_replaced_wf[OF _ inv(3) rep tgt]) auto
    have "vm_inv x (s\<lparr>vm_alloc := a', vm_mem := ?m'\<rparr>) 3 root"
      using inv(1,4) new(2,3,5) wf by (auto simp: vm_inv_def tables_owned_def)
    moreover have "child x ?m' 3 root i = Some ?c"
      using tgt assms(3) len new(6) by (simp add: child_def)
    moreover have "translate_address x ?m' root v = translate_address x ?m root v" for v
      using entry_replaced_translate[OF _ inv(3) rep tgt, of v] zero new(6) lv assms(2,5) len
        translate_from_entry[of 3 ?m root t x v Unmapped]
      by (cases "idx 3 v = i") (simp_all add: translate_address_def level_of_3 follow_def)
    ultimately show thesis using that[OF new(1)] by auto
  qed
qed

lemma top_half_step:
  assumes "vm_inv x s 3 root" "i < 512" "0 < free_frames (vm_alloc s)"
  obtains s' where "fill_top_half_entry x root i s = Inr s'" "vm_inv x s' 3 root"
    "free_frames (vm_alloc s) \<le> Suc (free_frames (vm_alloc s'))" "child x (vm_mem s') 3 root i \<noteq> None"
    "\<And>j. j \<noteq> i \<Longrightarrow> child x (vm_mem s') 3 root j = child x (vm_mem s) 3 root j"
    "\<And>v. translate_address x (vm_mem s') root v = translate_address x (vm_mem s) root v"
proof -
  note inv = vm_invD[OF assms(1)]
  from inv(3) obtain t where t: "vm_mem s root = Some t" "table_ok x 3 t" by (rule wf_table_table)
  then have len: "length t = 512" by (simp add: table_ok_def)
  have read: "read_entry (vm_mem s) root i = Inr (t ! i)" using t(1) len assms(2) by (simp add: read_entry_def)
  from table_ok_target[OF t(2) assms(2)] obtain tg where tg: "entry_target x Level4 (t ! i) = Inr tg"
    by (auto simp: level_of_3)
  show thesis
  proof (cases tg)
    case Unmapped
    obtain c s' e' where new: "allocate_and_map_child_table x root i (t ! i) (PRESENT OR WRITABLE) s = Inr (Ok c, s')"
        "vm_inv x s' 3 root" "child x (vm_mem s') 3 root i = Some c" "vm_mem s' root = Some (t[i := e'])"
        "\<And>v. translate_address x (vm_mem s') root v = translate_address x (vm_mem s) root v"
      using top_half_create[OF assms(1) t(1) assms(2,3)] tg Unmapped by metis
    moreover from child_table_count[OF inv(1,2) new(1)]
    have "free_frames (vm_alloc s) \<le> Suc (free_frames (vm_alloc s'))" by simp
    moreover have "fill_top_half_entry x root i s = Inr s'"
      using read tg Unmapped new(1) by (simp add: fill_top_half_entry_def)
    ultimately show thesis
      using that child_list_update[of "vm_mem s" root t "vm_mem s'" i e'] t(1) by auto
  next
    case (PageTarget q qfs)
    with tg entry_target_page_iff[of 3 x "t ! i" q qfs] show thesis by (simp add: level_of_3)
  next
    case (NextTable l c)
    with tg entry_target_lower have "l = Level3" by fastforce
    with NextTable tg have tg': "entry_target x Level4 (t ! i) = Inr (NextTable Level3 c)" by simp
    let ?m' = "(vm_mem s)(root \<mapsto> t[i := set_entry_flags (PRESENT OR WRITABLE) (t ! i)])"
    note same = top_half_next[OF assms(1) t(1) assms(2) tg']
    have "fill_top_half_entry x root i s = Inr (s\<lparr>vm_mem := ?m'\<rparr>)"
      using read tg' t(1) by (simp add: fill_top_half_entry_def write_entry_def)
    from that[OF this] same child_list_update[of "vm_mem s" root t ?m' i] t(1) show thesis by auto
  qed
qed

lemma fill_top_half_spec:
  assumes "vm_inv x s 3 root" "256 \<le> free_frames (vm_alloc s)"
  shows "\<exists>s'. fill_top_half_entries x root s = Inr s' \<and> vm_inv x s' 3 root \<and>
    free_frames (vm_alloc s) \<le> 256 + free_frames (vm_alloc s') \<and>
    (\<forall>j. 256 \<le> j \<longrightarrow> j < 512 \<longrightarrow> child x (vm_mem s') 3 root j \<noteq> None) \<and>
    (\<forall>v. translate_address x (vm_mem s') root v = translate_address x (vm_mem s) root v)"
proof -
  let ?I = "\<lambda>i s'. vm_inv x s' 3 root \<and> free_frames (vm_alloc s) \<le> (i - 256) + free_frames (vm_alloc s') \<and>
    (\<forall>j. 256 \<le> j \<longrightarrow> j < i \<longrightarrow> child x (vm_mem s') 3 root j \<noteq> None) \<and>
    (\<forall>v. translate_address x (vm_mem s') root v = translate_address x (vm_mem s) root v)"
  have "\<exists>s'. for_each (fill_top_half_entry x root) [256..<512] s = Inr s' \<and> ?I 512 s'"
  proof (rule for_range_invariant)
    fix i s1 assume i: "256 \<le> i" "i < 512" and I: "?I i s1"
    then have "0 < free_frames (vm_alloc s1)" using assms(2) by linarith
    from top_half_step[OF _ i(2) this] I obtain s' where step: "fill_top_half_entry x root i s1 = Inr s'"
        "vm_inv x s' 3 root" "free_frames (vm_alloc s1) \<le> Suc (free_frames (vm_alloc s'))"
        "child x (vm_mem s') 3 root i \<noteq> None"
        "\<And>j. j \<noteq> i \<Longrightarrow> child x (vm_mem s') 3 root j = child x (vm_mem s1) 3 root j"
        "\<And>v. translate_address x (vm_mem s') root v = translate_address x (vm_mem s1) root v"
      by metis
    have "free_frames (vm_alloc s) \<le> (Suc i - 256) + free_frames (vm_alloc s')"
      using I step(3) i(1) by linarith
    moreover have "child x (vm_mem s') 3 root j \<noteq> None" if "256 \<le> j" "j < Suc i" for j
      using that I step(4,5) by (cases "j = i") auto
    ultimately show "\<exists>s'. fill_top_half_entry x root i s1 = Inr s' \<and> ?I (Suc i) s'"
      using step(1,2,6) I by auto
  qed (use assms in simp_all)
  then show ?thesis unfolding fill_top_half_entries_def by simp
qed

section \<open>Clones of the kernel's table\<close>

lemma shared_entry:
  assumes "m root = Some t" "m c = Some u" "length t = 512" "length u = 512" "u ! idx 3 v = t ! idx 3 v"
  shows "translate_address x m c v = translate_address x m root v"
  unfolding translate_address_def level_of_3[symmetric]
  using assms by (subst (1 2) translate_from.simps) (simp add: address_entry_eq)

text \<open>Mapping a page below an entry that has a table leaves the table with that entry, and
  every table outside of its tree, as it is.\<close>
lemma map_to_below_child:
  assumes "vm_inv x s 3 root" "target_ok target" "flags_ok fs" "size_of_page p = Size4KiB"
    and "child x (vm_mem s) 3 root (idx 3 (start_addr p)) = Some ch"
    and "map_to x root p target fs s = Inr (r, s')"
  shows "vm_mem s' root = vm_mem s root"
    and "b \<notin> tree x (vm_mem s) 3 root \<Longrightarrow> frame_index b \<in> used_pages (vm_alloc s) \<Longrightarrow> vm_mem s' b = vm_mem s b"
proof -
  have n3: "(3::nat) = Suc 2" by simp
  note inv = vm_invD[OF assms(1)]
  from inv(3) obtain t where t: "vm_mem s root = Some t" "table_ok x 3 t" by (rule wf_table_table)
  then have len: "length t = 512" by (simp add: table_ok_def)
  let ?i = "idx 3 (start_addr p)"
  note wf = wf_table_SucD[OF inv(3)[unfolded n3] assms(5)[unfolded n3]]
  have tgt: "entry_target x (level_of 3) (t ! ?i) = Inr (NextTable (level_of 2) ch)"
    using wf_child[OF _ inv(3)[unfolded n3] t(1)] assms(5) by (simp flip: n3)
  have sub: "tree x (vm_mem s) 2 ch \<subseteq> tree x (vm_mem s) 3 root"
    using child_tree[OF assms(5)[unfolded n3]] by simp
  have "vm_inv x s 2 ch" using inv wf(1) sub by (auto simp: vm_inv_def tables_owned_def)
  from map_from_spec[OF assms(2-4) _ this] obtain r' s'' F where
    run: "map_from x (level_of 2) ch p target fs s = Inr (r', s'')" "map_post x 2 ch p target fs s r' s'' F"
    by auto
  have "map_to x root p target fs s = map_from x (level_of 2) ch p target fs s"
    unfolding map_to_def level_of_3[symmetric]
    using t(1) len tgt by (subst map_from.simps) (simp add: address_entry_eq)
  with run(1) assms(6) have "s'' = s'" by simp
  with run(2) have same: "\<And>b. b \<notin> tree x (vm_mem s) 2 ch \<union> F \<Longrightarrow> vm_mem s' b = vm_mem s b"
    and fresh: "\<And>b. b \<in> F \<Longrightarrow> frame_index b \<notin> used_pages (vm_alloc s)"
    unfolding map_post_def by blast+
  show "vm_mem s' root = vm_mem s root"
    using same[of root] fresh[of root] wf(2) inv(4)[OF tree_root] by blast
  show "vm_mem s' b = vm_mem s b"
    if "b \<notin> tree x (vm_mem s) 3 root" "frame_index b \<in> used_pages (vm_alloc s)"
    using same[of b] fresh[of b] that sub by blast
qed

lemma allocate_clone_spec:
  assumes "vm_inv x s 3 root" "allocate_clone x root s = Inr (c, s1)"
  shows "vm_inv x s1 3 root" "vm_mem s1 c = vm_mem s root" "vm_mem s1 root = vm_mem s root"
    "c \<notin> tree x (vm_mem s1) 3 root" "frame_index c \<in> used_pages (vm_alloc s1)"
    "child x (vm_mem s1) 3 root i = child x (vm_mem s) 3 root i"
proof -
  note inv = vm_invD[OF assms(1)]
  from inv(3) obtain t where t: "vm_mem s root = Some t" "table_ok x 3 t" by (rule wf_table_table)
  obtain r a0 where page: "allocate_page x (vm_alloc s) = Inr (r, a0)"
    using assms(2) by (auto simp: allocate_clone_def run_facts)
  with assms(2) t(1) obtain pg a' where run: "allocate_page x (vm_alloc s) = Inr (Ok pg, a')"
      "c = start_addr pg" "s1 = s\<lparr>vm_alloc := a', vm_mem := (vm_mem s)(c \<mapsto> t)\<rparr>"
    by (cases r) (auto simp: allocate_clone_def)
  from allocate_page_ok[OF inv(1,2) run(1)] obtain n where n: "pg = frame_page n" "n * PAGE_SIZE \<le> 0x377777777777"
      "n \<notin> used_pages (vm_alloc s)" "used_pages a' = insert n (used_pages (vm_alloc s))" "phys_inv a'"
    by blast
  have c: "c = frame_addr n" "frame_index c = n" using run(2) n(1,2) by (simp_all add: frame_page_def)
  have c_new: "c \<notin> tree x (vm_mem s) 3 root" using inv(4) n(3) c(2) by metis
  then have "c \<noteq> root" by auto
  have "\<forall>b\<in>tree x (vm_mem s) 3 root. vm_mem s1 b = vm_mem s b" using c_new run(3) by auto
  from tree_agree[OF _ this] inv(3)
  have agree: "tree x (vm_mem s1) 3 root = tree x (vm_mem s) 3 root" "wf_table x (vm_mem s1) 3 root" by simp_all
  have "vm_alloc s1 = a'" using run(3) by simp
  with inv agree n(4,5) show "vm_inv x s1 3 root" by (auto simp: vm_inv_def tables_owned_def)
  show "vm_mem s1 c = vm_mem s root" "vm_mem s1 root = vm_mem s root"
    using run(3) t(1) \<open>c \<noteq> root\<close> by simp_all
  show "c \<notin> tree x (vm_mem s1) 3 root" using agree c_new by simp
  show "frame_index c \<in> used_pages (vm_alloc s1)" using run(3) n(4) c(2) by simp
  show "child x (vm_mem s1) 3 root i = child x (vm_mem s) 3 root i"
    using run(3) \<open>c \<noteq> root\<close> by (intro child_agree) simp
qed

section \<open>Properties\<close>

abbreviation locked_vm :: "phys_allocator \<Rightarrow> kernel_memory \<Rightarrow> vm" where
  "locked_vm a k \<equiv> \<lparr>vm_alloc = a, vm_mem = kernel_mem k\<rparr>"

lemma vm_eta [simp]: "\<lparr>vm_alloc = vm_alloc s, vm_mem = vm_mem s\<rparr> = s"
  by simp

text \<open>C17: `allocate_and_map_pages` on distinct 4 KiB pages of a well-formed table does not panic, keeps
  the table well-formed and changes the translation of no other page. If it returns `Ok`, every
  page is backed by a frame of its own that was free before and holds no page table; with four
  free frames per page and no page mapped before it does return `Ok`.\<close>
theorem allocate_and_map_pages_correct:
  assumes "allocator_lock k = Some a" "vm_inv x (locked_vm a k) 3 root" "flags_ok fs" "distinct_pages ps"
  shows "\<exists>r k' a'. allocate_and_map_pages x root (map Inr ps) fs k = Inr (r, k') \<and>
    allocator_lock k' = Some a' \<and> page_table_lock k' = page_table_lock k \<and>
    maps_more x root (virtual_pages ps) (locked_vm a k) (locked_vm a' k') \<and>
    (r = Ok () \<longrightarrow> (\<exists>ns. distinct ns \<and> set ns \<inter> used_pages a = {} \<and>
       list_all2 (backed_by x root fs (locked_vm a' k')) ps ns)) \<and>
    (4 * length ps \<le> free_frames a \<longrightarrow>
     (\<forall>p\<in>set ps. translate_address x (kernel_mem k) root (start_addr p) = Inr NotMapped) \<longrightarrow> r = Ok ())"
proof -
  from map_new_pages_spec[OF assms(3,2,4)] obtain r s' where
    run: "map_new_pages x root fs (map Inr ps) (locked_vm a k) = Inr (r, s')" and
    rest: "maps_more x root (virtual_pages ps) (locked_vm a k) s'"
      "r = Ok () \<longrightarrow> (\<exists>ns. distinct ns \<and> set ns \<inter> used_pages a = {} \<and> list_all2 (backed_by x root fs s') ps ns)"
      "4 * length ps \<le> free_frames a \<longrightarrow>
       (\<forall>p\<in>set ps. translate_address x (kernel_mem k) root (start_addr p) = Inr NotMapped) \<longrightarrow> r = Ok ()"
    by auto
  let ?k' = "k\<lparr>allocator_lock := Some (vm_alloc s'), kernel_mem := vm_mem s'\<rparr>"
  have "allocate_and_map_pages x root (map Inr ps) fs k = Inr (r, ?k')"
    using run assms(1) by (simp add: allocate_and_map_pages_def with_allocator_def)
  moreover have "locked_vm (vm_alloc s') ?k' = s'" by simp
  ultimately show ?thesis using rest by (intro exI[of _ r] exI[of _ ?k'] exI[of _ "vm_alloc s'"]) simp
qed

text \<open>C16: Cleaning up the kernel's page table, with at least 256 free frames, never panics. Afterwards
  no address of the lower half is mapped, every address of the upper half translates as before,
  and each of the 256 entries of the upper half has a table.\<close>
theorem clean_up_correct:
  assumes "page_table_lock k = Some root" "allocator_lock k = Some a" "vm_inv x (locked_vm a k) 3 root"
    and "256 \<le> free_frames a"
  shows "\<exists>k' a'. clean_up_kernel_page_table x k = Inr k' \<and> page_table_lock k' = Some root \<and>
    allocator_lock k' = Some a' \<and> vm_inv x (locked_vm a' k') 3 root \<and>
    (\<forall>j. 256 \<le> j \<longrightarrow> j < 512 \<longrightarrow> child x (kernel_mem k') 3 root j \<noteq> None) \<and>
    (\<forall>v. translate_address x (kernel_mem k') root v =
       (if idx 3 v < 256 then Inr NotMapped else translate_address x (kernel_mem k) root v))"
proof -
  from unmap_lower_half_spec[OF vm_invD(3)[OF assms(3)]] obtain m where
    m: "unmap_lower_half root (kernel_mem k) = Inr m" "wf_table x m 3 root"
      "tree x m 3 root \<subseteq> tree x (kernel_mem k) 3 root"
      "\<And>v. translate_address x m root v = (if idx 3 v < 256 then Inr NotMapped else translate_address x (kernel_mem k) root v)"
    by auto
  from vm_inv_write[OF assms(3) m(2)] m(3) have "vm_inv x \<lparr>vm_alloc = a, vm_mem = m\<rparr> 3 root" by simp
  from fill_top_half_spec[OF this] assms(4) obtain s' where
    s': "fill_top_half_entries x root \<lparr>vm_alloc = a, vm_mem = m\<rparr> = Inr s'" "vm_inv x s' 3 root"
      "\<forall>j. 256 \<le> j \<longrightarrow> j < 512 \<longrightarrow> child x (vm_mem s') 3 root j \<noteq> None"
      "\<forall>v. translate_address x (vm_mem s') root v = translate_address x m root v"
    by auto
  let ?k' = "k\<lparr>kernel_mem := vm_mem s', allocator_lock := Some (vm_alloc s')\<rparr>"
  have "clean_up_kernel_page_table x k = Inr ?k'"
    using assms(1,2) m(1) s'(1) by (simp add: clean_up_kernel_page_table_def with_allocator_def)
  moreover have "locked_vm (vm_alloc s') ?k' = s'" by simp
  ultimately show ?thesis
    using assms(1) s'(2-4) m(4) by (intro exI[of _ ?k'] exI[of _ "vm_alloc s'"]) simp
qed

text \<open>C18: A process's table is a clone of the kernel's. As every entry of the upper half has a table
  (which cleaning up establishes), a page of the upper half that is mapped later in the kernel's
  table is mapped the same way in the clone: all addresses of the upper half translate alike.\<close>
theorem clone_shares_upper_half:
  assumes "vm_inv x s 3 root" "allocate_clone x root s = Inr (c, s1)"
    and "\<And>j. 256 \<le> j \<Longrightarrow> j < 512 \<Longrightarrow> child x (vm_mem s) 3 root j \<noteq> None"
    and "target_ok target" "flags_ok fs" "size_of_page p = Size4KiB" "256 \<le> idx 3 (start_addr p)"
    and "map_to x root p target fs s1 = Inr (r, s2)"
  shows "translate_address x (vm_mem s2) c v = translate_address x (vm_mem s2) root v"
proof -
  note cl = allocate_clone_spec[OF assms(1,2)]
  from vm_invD(3)[OF assms(1)] obtain t where t: "vm_mem s root = Some t" "table_ok x 3 t" by (rule wf_table_table)
  from assms(3,7) idx_less[of 3 "start_addr p"] cl(6) obtain ch where
    "child x (vm_mem s1) 3 root (idx 3 (start_addr p)) = Some ch" by auto
  note below = map_to_below_child[OF cl(1) assms(4-6) this assms(8)]
  have "vm_mem s2 c = Some t" "vm_mem s2 root = Some t"
    using below(1) below(2)[OF cl(4,5)] cl(2,3) t(1) by simp_all
  then show ?thesis using t(2) by (intro shared_entry) (auto simp: table_ok_def)
qed

section \<open>A machine with an empty table\<close>

definition large_allocator :: phys_allocator where
  "large_allocator = new_allocator (0xFF # replicate 9 0)"

lemma large_allocator_pages: "total_pages large_allocator = 640"
  by (simp add: large_allocator_def new_allocator_def total_pages_def bits_per_chunk_def)

lemma large_allocator_used: "used_pages large_allocator = {..<8}"
proof -
  have chunks: "bitmap large_allocator = 0xFF # replicate 9 0"
    by (simp add: large_allocator_def new_allocator_def)
  have "(0xFF :: u64) = mask 8" by (simp add: mask_eq_exp_minus_1)
  then have ff: "bit (0xFF :: u64) n \<longleftrightarrow> n < 8" for n
    by (simp only: bit_mask_iff) (auto simp: possible_bit_def)
  have "page_used large_allocator p \<longleftrightarrow> p < 8" for p
  proof (cases "p < 64")
    case True
    then show ?thesis
      unfolding page_used_def large_allocator_pages chunks bits_per_chunk_def using ff by auto
  next
    case False
    then have "0 < p div 64" by (simp add: div_greater_zero_iff)
    moreover have "p div 64 - Suc 0 < 9" if "p < 640" using that by (simp add: div_less_iff_less_mult)
    ultimately show ?thesis using False
      unfolding page_used_def large_allocator_pages chunks bits_per_chunk_def by (auto simp: nth_Cons')
  qed
  then show ?thesis by (auto simp: used_pages_def)
qed

lemma large_allocator_free: "free_frames large_allocator = 632"
proof -
  have "{..<640} - {..<8} = {8..<640::nat}" by auto
  then show ?thesis by (simp add: free_frames_def large_allocator_used large_allocator_pages)
qed

lemma large_allocator_inv: "phys_inv large_allocator"
  unfolding phys_inv_def large_allocator_used large_allocator_pages
  using alloc_inv_new[of "0xFF # replicate 9 0"]
  by (simp add: large_allocator_def PAGE_SIZE_def fits_usize_def)

definition empty_machine :: kernel_memory where
  "empty_machine = \<lparr>page_table_lock = Some (frame_addr 2), allocator_lock = Some large_allocator,
     kernel_mem = [frame_addr 2 \<mapsto> replicate 512 0]\<rparr>"

lemma empty_machine_inv: "vm_inv x86_64_example (locked_vm large_allocator empty_machine) 3 (frame_addr 2)"
  using zero_table_tree[of 3 "kernel_mem empty_machine" "frame_addr 2" x86_64_example]
    large_allocator_inv x86_64_example_spec
  by (simp add: vm_inv_def tables_owned_def empty_machine_def large_allocator_used PAGE_SIZE_def)

lemma distinct_heap_page: "distinct_pages [heap_page]"
  by (simp add: distinct_pages_def heap_page_def)

theorem allocate_and_map_pages_correct_witness:
  "\<exists>r k'. allocate_and_map_pages x86_64_example (frame_addr 2) [Inr heap_page] WRITABLE empty_machine = Inr (r, k')"
  using allocate_and_map_pages_correct[OF _ empty_machine_inv writable_ok distinct_heap_page]
  by (auto simp: empty_machine_def)

theorem clean_up_correct_witness:
  "\<exists>k'. clean_up_kernel_page_table x86_64_example empty_machine = Inr k' \<and>
     page_table_lock k' = Some (frame_addr 2) \<and>
     (\<forall>j. 256 \<le> j \<longrightarrow> j < 512 \<longrightarrow> child x86_64_example (kernel_mem k') 3 (frame_addr 2) j \<noteq> None)"
  using clean_up_correct[OF _ _ empty_machine_inv] large_allocator_free
  by (fastforce simp: empty_machine_def)

lemma heap_page_idx: "idx 3 (start_addr heap_page) = 384"
  by (simp add: idx_def heap_page_def kernel_heap_region_start_def)

theorem clone_shares_upper_half_witness:
  "\<exists>s c s1 r s2. allocate_clone x86_64_example (frame_addr 2) s = Inr (c, s1) \<and>
     map_to x86_64_example (frame_addr 2) heap_page NewPhysPage WRITABLE s1 = Inr (r, s2) \<and>
     (\<forall>v. translate_address x86_64_example (vm_mem s2) c v =
        translate_address x86_64_example (vm_mem s2) (frame_addr 2) v)"
proof -
  let ?x = x86_64_example and ?root = "frame_addr 2"
  have "256 \<le> free_frames (vm_alloc (locked_vm large_allocator empty_machine))" by (simp add: large_allocator_free)
  from fill_top_half_spec[OF empty_machine_inv this] obtain s where s0: "vm_inv ?x s 3 ?root"
      "free_frames (vm_alloc (locked_vm large_allocator empty_machine)) \<le> 256 + free_frames (vm_alloc s)"
      "\<forall>j. 256 \<le> j \<longrightarrow> j < 512 \<longrightarrow> child ?x (vm_mem s) 3 ?root j \<noteq> None"
    by blast
  then have s: "vm_inv ?x s 3 ?root" "0 < free_frames (vm_alloc s)"
      "\<And>j. 256 \<le> j \<Longrightarrow> j < 512 \<Longrightarrow> child ?x (vm_mem s) 3 ?root j \<noteq> None"
    by (simp_all add: large_allocator_free)
  note inv = vm_invD[OF s(1)]
  from frames.alloc_total[of ?x "vm_alloc s"] inv(1,2) obtain r0 a' where
    page: "allocate_page ?x (vm_alloc s) = Inr (r0, a')" by auto
  from allocate_page_count[OF inv(1,2) page] s(2) obtain pg where "r0 = Ok pg" by (cases r0) auto
  moreover obtain t where "vm_mem s ?root = Some t" by (rule wf_table_table[OF inv(3)])
  ultimately obtain c s1 where cl: "allocate_clone ?x ?root s = Inr (c, s1)"
    using page by (simp add: allocate_clone_def)
  from map_from_spec[OF new_page_ok writable_ok, of heap_page 3 ?x s1 ?root] allocate_clone_spec(1)[OF s(1) cl]
  obtain r s2 where m: "map_to ?x ?root heap_page NewPhysPage WRITABLE s1 = Inr (r, s2)"
    by (auto simp: map_to_def level_of_3 heap_page_def)
  have "size_of_page heap_page = Size4KiB" by (simp add: heap_page_def)
  moreover have "256 \<le> idx 3 (start_addr heap_page)" by (simp add: heap_page_idx)
  moreover note s(3) cl m
  ultimately show ?thesis using clone_shares_upper_half[OF s(1) cl s(3) new_page_ok writable_ok _ _ m] by blast
qed

end
