(* ===== verification/Kernel_Stack.thy ===== *)
theory Kernel_Stack
  imports Kernel_Mapping Bitmap_Alloc
begin

text \<open>
  Kernel stacks: kernel/src/sched/stack.rs. The slots of the stack region are
  handed out by a bitmap allocator; a stack is the sixteen pages of its slot, of
  which the lowest, the guard page, is left unmapped. Dropping a stack frees
  its slot and its frames.
\<close>

section \<open>Constants\<close>

definition KERNEL_STACK_SIZE_PAGES :: nat where
  "KERNEL_STACK_SIZE_PAGES = 16"

definition KERNEL_STACK_PHYS_PAGES :: nat where
  "KERNEL_STACK_PHYS_PAGES = KERNEL_STACK_SIZE_PAGES - 1"

definition KERNEL_STACK_SIZE_BYTES :: nat where
  "KERNEL_STACK_SIZE_BYTES = KERNEL_STACK_SIZE_PAGES * PAGE_SIZE"

definition KERNEL_STACK_START_VIRT_ADDR :: u64 where
  "KERNEL_STACK_START_VIRT_ADDR = kernel_stack_region_start"

definition MAX_KERNEL_STACKS :: nat where
  "MAX_KERNEL_STACKS = 256"

definition MAX_KERNEL_ALLOC_BIT_CHUNKS :: nat where
  "MAX_KERNEL_ALLOC_BIT_CHUNKS = div_ceil MAX_KERNEL_STACKS 64"

section \<open>Operations\<close>

record kernel_stack =
  stack_start_addr :: u64

definition stack_allocator_new :: bitmap_allocator where
  "stack_allocator_new = new_allocator (replicate MAX_KERNEL_ALLOC_BIT_CHUNKS 0)"

definition stack_init :: "bitmap_allocator option \<Rightarrow> bitmap_allocator option outcome" where
  "stack_init lock =
     and_then (assert_that (MAX_KERNEL_STACKS * KERNEL_STACK_SIZE_PAGES < unat kernel_stack_region_max_size)) (\<lambda>_.
     Inr (Some stack_allocator_new))"

definition top_addr :: "x86_64 \<Rightarrow> kernel_stack \<Rightarrow> u64 outcome" where
  "top_addr x st = virt_addr_add x (stack_start_addr st) KERNEL_STACK_SIZE_BYTES"

definition guard_page :: "x86_64 \<Rightarrow> kernel_stack \<Rightarrow> page outcome" where
  "guard_page x st =
     and_then (assert_that (stack_start_addr st mod of_nat PAGE_SIZE = 0)) (\<lambda>_.
     from_start_addr x (stack_start_addr st) Size4KiB)"

definition physically_mapped_pages :: "x86_64 \<Rightarrow> kernel_stack \<Rightarrow> page_range outcome" where
  "physically_mapped_pages x st =
     and_then (virt_addr_add x (stack_start_addr st) PAGE_SIZE) (\<lambda>start_addr.
     and_then (from_start_addr x start_addr Size4KiB) (\<lambda>start_page.
     Inr (page_range_new start_page KERNEL_STACK_PHYS_PAGES)))"

text \<open>Zeroing whole pages through their virtual addresses; an address that is not mapped
  faults.\<close>
definition zero_virtual_page :: "x86_64 \<Rightarrow> u64 \<Rightarrow> u64 \<Rightarrow> memory \<Rightarrow> memory outcome" where
  "zero_virtual_page x table a m =
     and_then (translate_address x m table a) (\<lambda>r.
     case r of
       NotMapped \<Rightarrow> Inl UndefinedBehaviour
     | Mapped am \<Rightarrow> and_then (mapping_address am) (\<lambda>pa. Inr (zero_page pa m)))"

definition zero_stack :: "x86_64 \<Rightarrow> u64 \<Rightarrow> kernel_stack \<Rightarrow> memory \<Rightarrow> memory outcome" where
  "zero_stack x table st =
     for_each (\<lambda>i. zero_virtual_page x table (stack_start_addr st + of_nat (i * PAGE_SIZE)))
       [1..<KERNEL_STACK_SIZE_PAGES]"

definition unmap_guard_page ::
  "x86_64 \<Rightarrow> kernel_stack \<Rightarrow> kernel_memory \<Rightarrow> (unit \<times> kernel_memory) outcome" where
  "unmap_guard_page x st =
     with_kernel_page_table_lock (\<lambda>table k.
       and_then (guard_page x st) (\<lambda>guard.
       and_then (unmap_page x table guard k) (\<lambda>(r, k').
       case r of
         Err UnmapPageNotMapped \<Rightarrow> Inr ((), k')
       | Ok _ \<Rightarrow> Inl ExplicitPanic
       | Err _ \<Rightarrow> Inl ExplicitPanic)))"

definition map_stack_pages ::
  "x86_64 \<Rightarrow> kernel_stack \<Rightarrow> kernel_memory \<Rightarrow> (unit \<times> kernel_memory) outcome" where
  "map_stack_pages x st k =
     and_then (physically_mapped_pages x st) (\<lambda>pages.
     with_kernel_page_table_lock (\<lambda>table k.
       and_then (allocate_and_map_pages x table (range_iter (virt_addr_add x) pages) (PRESENT OR WRITABLE) k)
         (\<lambda>(r, k'). case r of Ok _ \<Rightarrow> Inr ((), k') | Err _ \<Rightarrow> Inl ExpectFailed)) k)"

definition stack_allocate ::
  "x86_64 \<Rightarrow> bitmap_allocator \<times> kernel_memory \<Rightarrow>
   (kernel_stack option \<times> (bitmap_allocator \<times> kernel_memory)) outcome" where
  "stack_allocate x s =
     (let (a, k) = s in
      and_then (allocate_contiguous 1 a) (\<lambda>(slot, a').
      case slot of
        None \<Rightarrow> Inr (None, (a', k))
      | Some stack_index \<Rightarrow>
          and_then (usize_mul stack_index KERNEL_STACK_SIZE_BYTES) (\<lambda>off.
          and_then (usize_add (unat KERNEL_STACK_START_VIRT_ADDR) off) (\<lambda>addr.
          and_then (virt_addr_new x (of_nat addr)) (\<lambda>start_addr.
          let stack = \<lparr>stack_start_addr = start_addr\<rparr> in
          and_then (unmap_guard_page x stack k) (\<lambda>(_, k1).
          and_then (map_stack_pages x stack k1) (\<lambda>(_, k2).
          and_then (expect (page_table_lock k2)) (\<lambda>table.
          and_then (zero_stack x table stack (kernel_mem k2)) (\<lambda>m.
          Inr (Some stack, (a', k2\<lparr>kernel_mem := m\<rparr>)))))))))))"

text \<open>One turn of the loop that frees the pages of a stack.\<close>
definition free_stack_page :: "x86_64 \<Rightarrow> page outcome \<Rightarrow> kernel_memory \<Rightarrow> kernel_memory outcome" where
  "free_stack_page x it k =
     and_then it (\<lambda>page.
     and_then (with_kernel_page_table_lock (\<lambda>table. unmap_and_free_page x table page) k) (\<lambda>(r, k').
     case r of Ok _ \<Rightarrow> Inr k' | Err _ \<Rightarrow> Inl ExpectFailed))"

definition stack_free ::
  "x86_64 \<Rightarrow> kernel_stack \<Rightarrow> bitmap_allocator \<times> kernel_memory \<Rightarrow> (bitmap_allocator \<times> kernel_memory) outcome" where
  "stack_free x st s =
     (let (a, k) = s in
      and_then (u64_sub (stack_start_addr st) KERNEL_STACK_START_VIRT_ADDR) (\<lambda>off.
      let stack_index = unat (off div of_nat KERNEL_STACK_SIZE_BYTES) in
      and_then (free_contiguous stack_index 1 a) (\<lambda>a'.
      and_then (physically_mapped_pages x st) (\<lambda>pages.
      and_then (for_each (free_stack_page x) (range_iter (virt_addr_add x) pages) k) (\<lambda>k'.
      Inr (a', k'))))))"

text \<open>The two entry points, which take the lock of the allocator.\<close>
definition allocate_stack ::
  "x86_64 \<Rightarrow> bitmap_allocator option \<times> kernel_memory \<Rightarrow>
   (kernel_stack \<times> (bitmap_allocator option \<times> kernel_memory)) outcome" where
  "allocate_stack x s =
     (let (lock, k) = s in
      and_then (expect lock) (\<lambda>a.
      and_then (stack_allocate x (a, k)) (\<lambda>(st, (a', k')).
      and_then (expect st) (\<lambda>stack. Inr (stack, (Some a', k'))))))"

definition drop_stack ::
  "x86_64 \<Rightarrow> kernel_stack \<Rightarrow> bitmap_allocator option \<times> kernel_memory \<Rightarrow>
   (bitmap_allocator option \<times> kernel_memory) outcome" where
  "drop_stack x st s =
     (let (lock, k) = s in
      and_then (expect lock) (\<lambda>a.
      and_then (stack_free x st (a, k)) (\<lambda>(a', k'). Inr (Some a', k'))))"

definition is_kernel_guard_page :: "u64 \<Rightarrow> bool" where
  "is_kernel_guard_page addr =
     (let above_kernel_stack = KERNEL_STACK_START_VIRT_ADDR \<le> addr;
          kernel_stack_size = of_nat KERNEL_STACK_SIZE_BYTES * of_nat MAX_KERNEL_STACKS;
          within_kernel_stack = addr < KERNEL_STACK_START_VIRT_ADDR + kernel_stack_size
      in if \<not> (above_kernel_stack \<and> within_kernel_stack) then False
         else
           let relative_start = addr - KERNEL_STACK_START_VIRT_ADDR;
               stack_page_index = relative_start div of_nat PAGE_SIZE
           in stack_page_index mod of_nat KERNEL_STACK_SIZE_PAGES = 0)"

lemmas stack_constants = KERNEL_STACK_SIZE_PAGES_def KERNEL_STACK_PHYS_PAGES_def KERNEL_STACK_SIZE_BYTES_def
  KERNEL_STACK_START_VIRT_ADDR_def MAX_KERNEL_STACKS_def kernel_stack_region_start_def PAGE_SIZE_def

section \<open>The pages of the stack region\<close>

text \<open>Page \<open>n\<close> of the region; the stack in slot \<open>i\<close> has the pages from \<open>16 * i\<close>.\<close>
definition stack_page_addr :: "nat \<Rightarrow> u64" where
  "stack_page_addr n = KERNEL_STACK_START_VIRT_ADDR + of_nat (n * PAGE_SIZE)"

definition stack_page :: "nat \<Rightarrow> page" where
  "stack_page n = \<lparr>start_addr = stack_page_addr n, size_of_page = Size4KiB\<rparr>"

definition stack_of :: "nat \<Rightarrow> kernel_stack" where
  "stack_of i = \<lparr>stack_start_addr = stack_page_addr (16 * i)\<rparr>"

lemma unat_stack_page:
  assumes "n \<le> 4096"
  shows "unat (stack_page_addr n) = 0xFFFFD00000000000 + n * 4096"
proof -
  have "unat (of_nat (n * PAGE_SIZE) :: u64) = n * 4096"
    using assms by (subst unat_of_nat_u64) (simp_all add: PAGE_SIZE_def)
  then show ?thesis
    using assms unfolding stack_page_addr_def
    by (subst unat_add_u64) (simp_all add: stack_constants)
qed

lemma stack_page_canonical: "n \<le> 4096 \<Longrightarrow> canonical (stack_page_addr n)"
  by (simp add: canonical_def word_le_nat_alt word_less_nat_alt unat_stack_page)

lemma stack_page_aligned:
  assumes "x86_64_spec x" "n \<le> 4096"
  shows "is_aligned_addr x (stack_page_addr n) (of_nat (size_bytes Size4KiB))"
  unfolding is_aligned_addr_iff[OF assms(1)] unat_stack_page[OF assms(2)] by simp

lemma virtual_page_stack:
  assumes "n < 4096"
  shows "unat (virtual_page 0 (stack_page_addr n)) = 0xD00000000 + n"
proof -
  have n: "n \<le> 4096" using assms by simp
  have "(0xFFFFD00000000000 :: nat) + n * 4096 = (0xD00000000000 + n * 4096) + 0xFFFF * 2 ^ 48" by simp
  then have "take_bit 48 (0xFFFFD00000000000 + n * 4096) = 0xD00000000000 + n * 4096"
    using assms by (simp only: take_bit_eq_mod mod_mult_self1) simp
  then have "unat (virtual_page 0 (stack_page_addr n)) = drop_bit 12 (take_bit 64 (0xD00000000000 + n * 4096))"
    unfolding virtual_page_def by (simp only: unsigned_drop_bit_eq unsigned_take_bit_eq unat_stack_page[OF n]) simp
  also have "take_bit 64 (0xD00000000000 + n * 4096) = 0xD00000000000 + n * 4096"
    using assms by (intro take_bit_nat_eq_self) simp
  also have "drop_bit 12 (0xD00000000000 + n * 4096) = 0xD00000000 + n"
    by (simp add: drop_bit_eq_div)
  finally show ?thesis .
qed

lemma virtual_page_stack_inj: "n < 4096 \<Longrightarrow> m < 4096 \<Longrightarrow>
    virtual_page 0 (stack_page_addr n) = virtual_page 0 (stack_page_addr m) \<longleftrightarrow> n = m"
  using virtual_page_stack[of n] virtual_page_stack[of m] by (metis add_left_cancel)

lemma stack_page_addr_add: "stack_page_addr n + of_nat (m * PAGE_SIZE) = stack_page_addr (n + m)"
  by (simp add: stack_page_addr_def add_mult_distrib)

lemma virt_addr_add_stack:
  assumes "x86_64_spec x" "n + m \<le> 4096"
  shows "virt_addr_add x (stack_page_addr n) (m * PAGE_SIZE) = Inr (stack_page_addr (n + m))"
proof -
  have "unat (stack_page_addr n) + m * PAGE_SIZE < 2 ^ 64"
    using assms(2) by (simp add: unat_stack_page PAGE_SIZE_def)
  then show ?thesis
    using x86_64_specD(3)[OF assms(1), of "stack_page_addr n" "m * PAGE_SIZE"] assms(2)
    by (simp only: stack_page_addr_add stack_page_canonical)
qed

lemma from_start_addr_stack:
  "x86_64_spec x \<Longrightarrow> n \<le> 4096 \<Longrightarrow> from_start_addr x (stack_page_addr n) Size4KiB = Inr (stack_page n)"
  using stack_page_aligned[of x n] by (simp add: from_start_addr_def stack_page_def)

text \<open>The pages of the stack in slot \<open>i\<close> above its guard page.\<close>
definition stack_pages :: "nat \<Rightarrow> page list" where
  "stack_pages i = map (\<lambda>j. stack_page (16 * i + 1 + j)) [0..<15]"

lemma guard_page_stack: "x86_64_spec x \<Longrightarrow> i < 256 \<Longrightarrow> guard_page x (stack_of i) = Inr (stack_page (16 * i))"
proof -
  assume "x86_64_spec x" "i < 256"
  have "unat (stack_page_addr (16 * i)) mod 4096 = 0" using \<open>i < 256\<close> by (simp add: unat_stack_page)
  then have "stack_page_addr (16 * i) mod of_nat PAGE_SIZE = 0"
    by (simp add: word_unat_eq_iff unat_mod_distrib PAGE_SIZE_def)
  then show ?thesis
    using from_start_addr_stack[OF \<open>x86_64_spec x\<close>, of "16 * i"] \<open>i < 256\<close>
    by (simp add: guard_page_def stack_of_def)
qed

lemma physically_mapped_pages_stack:
  assumes "x86_64_spec x" "i < 256"
  shows "physically_mapped_pages x (stack_of i) = Inr (page_range_new (stack_page (16 * i + 1)) 15)"
  using virt_addr_add_stack[OF assms(1), of "16 * i" 1] from_start_addr_stack[OF assms(1), of "16 * i + 1"] assms(2)
  by (simp add: physically_mapped_pages_def stack_of_def stack_constants)

lemma range_iter_stack:
  assumes "x86_64_spec x" "i < 256"
  shows "range_iter (virt_addr_add x) (page_range_new (stack_page (16 * i + 1)) 15) = map Inr (stack_pages i)"
proof -
  have "and_then (page_range_next (virt_addr_add x) (page_range_new (stack_page (16 * i + 1)) 15, j)) (\<lambda>(p, _). expect p) =
      Inr (stack_page (16 * i + 1 + j))" if "j < 15" for j
  proof -
    have "usize_mul j 4096 = Inr (j * PAGE_SIZE)"
      using that by (simp add: usize_mul_def fits_usize_def PAGE_SIZE_def)
    moreover have "16 * i + 1 + j \<le> 4096" using assms(2) that by simp
    note virt_addr_add_stack[OF assms(1) this]
    ultimately show ?thesis
      using that by (simp add: page_range_next_def page_range_new_def stack_page_def)
  qed
  then show ?thesis by (simp add: range_iter_def stack_pages_def page_range_new_def)
qed

lemma stack_pages_nth: "j < 15 \<Longrightarrow> stack_pages i ! j = stack_page (16 * i + 1 + j)"
  by (simp add: stack_pages_def)

lemma stack_page_simps [simp]:
  "start_addr (stack_page n) = stack_page_addr n" "size_of_page (stack_page n) = Size4KiB"
  by (simp_all add: stack_page_def)

lemma distinct_stack_pages:
  assumes "i < 256"
  shows "distinct_pages (stack_pages i)"
proof -
  have "inj_on (\<lambda>j. virtual_page 0 (stack_page_addr (16 * i + 1 + j))) (set [0..<15])"
    using assms virtual_page_stack_inj by (intro inj_onI) fastforce
  then have "distinct (map (\<lambda>j. virtual_page 0 (stack_page_addr (16 * i + 1 + j))) [0..<15])"
    by (simp only: distinct_map) simp
  then show ?thesis by (simp only: distinct_pages_def stack_pages_def map_map comp_def) auto
qed

lemma virtual_pages_stack:
  assumes "n < 4096" "i < 256"
  shows "virtual_page 0 (stack_page_addr n) \<in> virtual_pages (stack_pages i) \<longleftrightarrow> (\<exists>j<15. n = 16 * i + 1 + j)"
proof -
  have "virtual_pages (stack_pages i) = (\<lambda>j. virtual_page 0 (stack_page_addr (16 * i + 1 + j))) ` {0..<15}"
    unfolding virtual_pages_def stack_pages_def set_map image_image by simp
  moreover have "virtual_page 0 (stack_page_addr n) = virtual_page 0 (stack_page_addr (16 * i + 1 + j)) \<longleftrightarrow>
      n = 16 * i + 1 + j" if "j < 15" for j
    using assms that by (intro virtual_page_stack_inj) simp_all
  ultimately show ?thesis by (simp only: image_iff) (metis atLeastLessThan_iff zero_le)
qed

section \<open>Frames behind pages\<close>

lemma backed_frame:
  assumes "vm_inv x s 3 root" "backed_by x root fs s p n"
  shows "n * PAGE_SIZE \<le> 0x377777777777" "frame_addr n \<notin> tree x (vm_mem s) 3 root"
    "translate_address x (vm_mem s) root (start_addr p) = Inr (mapping_of (frame_page n) (fs OR PRESENT) (start_addr p))"
proof -
  have used: "n \<in> used_pages (vm_alloc s)" "n \<notin> frame_index ` tree x (vm_mem s) 3 root"
    using assms(2) by (simp_all add: backed_by_def)
  then have "n < total_pages (vm_alloc s)" using used_pages_bounded by blast
  then have "n * PAGE_SIZE \<le> total_pages (vm_alloc s) * PAGE_SIZE" by simp
  then show n: "n * PAGE_SIZE \<le> 0x377777777777"
    using vm_invD(2)[OF assms(1)] unfolding phys_inv_def by linarith
  show "frame_addr n \<notin> tree x (vm_mem s) 3 root"
    using used(2) frame_index_addr[OF n] by (metis imageI)
  show "translate_address x (vm_mem s) root (start_addr p) =
      Inr (mapping_of (frame_page n) (fs OR PRESENT) (start_addr p))"
    using assms(2) by (simp add: backed_by_def)
qed

text \<open>Writing a page that holds no table.\<close>
lemma write_outside:
  fixes t :: "u64 list"
  assumes "vm_inv x s 3 root" "b \<notin> tree x (vm_mem s) 3 root"
  defines "s' \<equiv> s\<lparr>vm_mem := (vm_mem s)(b \<mapsto> t)\<rparr>"
  shows "vm_inv x s' 3 root" "tree x (vm_mem s') 3 root = tree x (vm_mem s) 3 root"
    "translate_address x (vm_mem s') root v = translate_address x (vm_mem s) root v"
    "backed_by x root fs s' p n = backed_by x root fs s p n"
proof -
  note inv = vm_invD[OF assms(1)]
  have "\<forall>c\<in>tree x (vm_mem s) 3 root. vm_mem s' c = vm_mem s c" using assms(2) by (auto simp: s'_def)
  from tree_agree[OF _ this] inv(3)
  show same: "tree x (vm_mem s') 3 root = tree x (vm_mem s) 3 root"
    "translate_address x (vm_mem s') root v = translate_address x (vm_mem s) root v" for v
    by (simp_all add: translate_address_def level_of_3)
  have "wf_table x (vm_mem s') 3 root" using tree_agree[OF _ \<open>\<forall>c\<in>_. _\<close>] inv(3) by simp
  moreover have "vm_alloc s' = vm_alloc s" by (simp add: s'_def)
  ultimately show "vm_inv x s' 3 root" "backed_by x root fs s' p n = backed_by x root fs s p n"
    using inv same by (simp_all add: vm_inv_def tables_owned_def backed_by_def)
qed

lemma zero_virtual_page_backed:
  assumes "vm_inv x s 3 root" "backed_by x root fs s p n" "4096 dvd unat (start_addr p)"
  shows "zero_virtual_page x root (start_addr p) (vm_mem s) = Inr ((vm_mem s)(frame_addr n \<mapsto> replicate 512 0))"
proof -
  note fr = backed_frame[OF assms(1,2)]
  have "start_addr p mod 4096 = 0" using assms(3) by (simp add: word_unat_eq_iff unat_mod_distrib)
  moreover have "kern_phys_addr_add (frame_addr n) 0 = Inr (frame_addr n)"
    using frame_addr_facts(5)[OF vm_invD(1)[OF assms(1)] fr(1)]
    uint_bounded[of "frame_addr n"]
    by (simp add: kern_phys_addr_add_def u64_add_def kern_phys_addr_new_def)
  ultimately show ?thesis
    using fr(3) by (simp add: zero_virtual_page_def mapping_of_def mapping_address_def frame_page_def zero_page_def)
qed

text \<open>Zeroing the frames behind a list of pages.\<close>
lemma zero_pages_backed:
  assumes "vm_inv x s 3 root" "list_all2 (backed_by x root fs s) ps ns" "\<forall>p\<in>set ps. 4096 dvd unat (start_addr p)"
  shows "\<exists>m. for_each (\<lambda>p. zero_virtual_page x root (start_addr p)) ps (vm_mem s) = Inr m \<and>
    vm_inv x (s\<lparr>vm_mem := m\<rparr>) 3 root \<and>
    (\<forall>v. translate_address x m root v = translate_address x (vm_mem s) root v) \<and>
    tree x m 3 root = tree x (vm_mem s) 3 root \<and>
    (\<forall>n\<in>set ns. m (frame_addr n) = Some (replicate 512 0)) \<and> (\<forall>b. m b = vm_mem s b \<or> m b = Some (replicate 512 0))"
  using assms
proof (induction ps arbitrary: s ns)
  case Nil
  then show ?case by simp
next
  case (Cons p ps)
  from Cons.prems(2) obtain n ns' where ns: "ns = n # ns'" "backed_by x root fs s p n"
      "list_all2 (backed_by x root fs s) ps ns'" by (auto simp: list_all2_Cons1)
  let ?s1 = "s\<lparr>vm_mem := (vm_mem s)(frame_addr n \<mapsto> replicate 512 0)\<rparr>"
  note run = zero_virtual_page_backed[OF Cons.prems(1) ns(2)]
  note out = write_outside[OF Cons.prems(1) backed_frame(2)[OF Cons.prems(1) ns(2)], where t = "replicate 512 0"]
  have bk: "list_all2 (backed_by x root fs ?s1) ps ns'" using ns(3) out(4) by (simp add: list_all2_conv_all_nth)
  have "\<forall>p\<in>set ps. 4096 dvd unat (start_addr p)" using Cons.prems(3) by simp
  from Cons.IH[OF out(1) bk this] obtain m where
    m: "for_each (\<lambda>p. zero_virtual_page x root (start_addr p)) ps (vm_mem ?s1) = Inr m"
      "vm_inv x (?s1\<lparr>vm_mem := m\<rparr>) 3 root"
      "\<forall>v. translate_address x m root v = translate_address x (vm_mem ?s1) root v"
      "tree x m 3 root = tree x (vm_mem ?s1) 3 root"
      "\<forall>n\<in>set ns'. m (frame_addr n) = Some (replicate 512 0)"
      "\<forall>b. m b = vm_mem ?s1 b \<or> m b = Some (replicate 512 0)"
    by blast
  have "for_each (\<lambda>p. zero_virtual_page x root (start_addr p)) (p # ps) (vm_mem s) = Inr m"
    using run Cons.prems(3) m(1) by simp
  moreover have "m (frame_addr n) = Some (replicate 512 0)" using m(6)[rule_format, of "frame_addr n"] by auto
  moreover have "m b = vm_mem s b \<or> m b = Some (replicate 512 0)" for b
    using m(6)[rule_format, of b] by (auto split: if_splits)
  ultimately show ?case using m(2-5) out(2,3) ns(1) by (intro exI[of _ m]) simp
qed

section \<open>Freeing the pages of a stack\<close>

lemma unmap_backed:
  assumes "vm_inv x s 3 root" "backed_by x root fs s p n" "size_of_page p = Size4KiB" "n \<noteq> 0"
  obtains s' where "unmap x root p True s = Inr (Ok (frame_page n), s')" "vm_inv x s' 3 root"
    "used_pages (vm_alloc s') = used_pages (vm_alloc s) - {n}"
    "tree x (vm_mem s') 3 root \<subseteq> tree x (vm_mem s) 3 root"
    "\<forall>v. translate_address x (vm_mem s') root v =
       (if virtual_page 0 v = virtual_page 0 (start_addr p) then Inr NotMapped
        else translate_address x (vm_mem s) root v)"
proof -
  note fr = backed_frame[OF assms(1,2)]
  have used: "n \<in> used_pages (vm_alloc s)" "n \<notin> frame_index ` tree x (vm_mem s) 3 root"
    using assms(2) by (simp_all add: backed_by_def)
  have "mapped_to x (vm_mem s) 3 root (start_addr p) = Some (frame_page n, fs OR PRESENT)"
    using fr(3) by (simp add: mapped_to_3 mapping_of_def)
  moreover have "size_of_page (frame_page n) = size_of_page p" using assms(3) by (simp add: frame_page_def)
  moreover note unmap_spec[OF _ vm_invD(3)[OF assms(1)], of p True]
  ultimately obtain m where
    run: "unmap x root p True s = and_then (free_page x (frame_page n) (vm_alloc s))
        (\<lambda>a'. Inr (Ok (frame_page n), s\<lparr>vm_mem := m, vm_alloc := a'\<rparr>))"
      "wf_table x m 3 root" "tree x m 3 root \<subseteq> tree x (vm_mem s) 3 root" and
    tr: "\<And>v. translate_address x m root v =
        (if virtual_page 0 v = virtual_page 0 (start_addr p) then Inr NotMapped
         else translate_address x (vm_mem s) root v)"
    using assms(3) by (auto simp: unmap_def level_of_3 same_walk_page translate_address_def)
  let ?s = "s\<lparr>vm_mem := m\<rparr>"
  have "n \<notin> frame_index ` tree x (vm_mem ?s) 3 root" using used(2) run(3) by auto
  from free_mapped_frame[OF vm_inv_write[OF assms(1) run(2,3)] _ assms(4) this] used(1) obtain a' where
    "free_page x (frame_page n) (vm_alloc s) = Inr a'" "vm_inv x (s\<lparr>vm_mem := m, vm_alloc := a'\<rparr>) 3 root"
    "used_pages a' = used_pages (vm_alloc s) - {n}" by auto
  with run tr show thesis by (intro that[of "s\<lparr>vm_mem := m, vm_alloc := a'\<rparr>"]) simp_all
qed

lemma backed_by_unmapped:
  assumes "backed_by x root fs s q m" "m \<noteq> n" "virtual_page 0 (start_addr q) \<noteq> virtual_page 0 (start_addr p)"
    and "used_pages (vm_alloc s') = used_pages (vm_alloc s) - {n}"
    and "tree x (vm_mem s') 3 root \<subseteq> tree x (vm_mem s) 3 root"
    and "\<And>v. translate_address x (vm_mem s') root v =
       (if virtual_page 0 v = virtual_page 0 (start_addr p) then Inr NotMapped
        else translate_address x (vm_mem s) root v)"
  shows "backed_by x root fs s' q m"
  using assms unfolding backed_by_def by (auto simp: assms(6))

lemma free_stack_pages:
  assumes "page_table_lock k = Some root" "allocator_lock k = Some a" "vm_inv x (locked_vm a k) 3 root"
    and "list_all2 (backed_by x root fs (locked_vm a k)) ps ns" "distinct ns" "0 \<notin> set ns" "distinct_pages ps"
  shows "\<exists>k' a'. for_each (free_stack_page x) (map Inr ps) k = Inr k' \<and> page_table_lock k' = Some root \<and>
    allocator_lock k' = Some a' \<and> vm_inv x (locked_vm a' k') 3 root \<and> used_pages a' = used_pages a - set ns \<and>
    (\<forall>v. translate_address x (kernel_mem k') root v =
       (if virtual_page 0 v \<in> virtual_pages ps then Inr NotMapped else translate_address x (kernel_mem k) root v))"
  using assms
proof (induction ps arbitrary: k a ns)
  case Nil
  then show ?case by (auto simp: virtual_pages_def)
next
  case (Cons p ps)
  from Cons.prems(4) obtain n ns' where ns: "ns = n # ns'" "backed_by x root fs (locked_vm a k) p n"
      "list_all2 (backed_by x root fs (locked_vm a k)) ps ns'" by (auto simp: list_all2_Cons1)
  from Cons.prems(7) have p: "size_of_page p = Size4KiB" "virtual_page 0 (start_addr p) \<notin> virtual_pages ps"
      "distinct_pages ps" by (simp_all add: distinct_pages_Cons)
  have n: "n \<noteq> 0" "n \<notin> set ns'" "distinct ns'" "0 \<notin> set ns'" using Cons.prems(5,6) ns(1) by auto
  obtain s' where step: "unmap x root p True (locked_vm a k) = Inr (Ok (frame_page n), s')" "vm_inv x s' 3 root"
    "used_pages (vm_alloc s') = used_pages (vm_alloc (locked_vm a k)) - {n}"
    "tree x (vm_mem s') 3 root \<subseteq> tree x (vm_mem (locked_vm a k)) 3 root"
    "\<forall>v. translate_address x (vm_mem s') root v =
       (if virtual_page 0 v = virtual_page 0 (start_addr p) then Inr NotMapped
        else translate_address x (vm_mem (locked_vm a k)) root v)"
    by (rule unmap_backed[OF Cons.prems(3) ns(2) p(1) n(1)])
  let ?k1 = "k\<lparr>allocator_lock := Some (vm_alloc s'), kernel_mem := vm_mem s'\<rparr>"
  have run: "free_stack_page x (Inr p) k = Inr ?k1"
    using Cons.prems(1,2) step(1)
    by (simp add: free_stack_page_def with_kernel_page_table_lock_def unmap_and_free_page_def with_allocator_def)
  have "list_all2 (backed_by x root fs s') ps ns'"
  proof (rule list.rel_mono_strong[OF ns(3)])
    fix q m assume q: "q \<in> set ps" "m \<in> set ns'" "backed_by x root fs (locked_vm a k) q m"
    have "virtual_page 0 (start_addr q) \<in> virtual_pages ps" using q(1) by (simp add: virtual_pages_def)
    then have "virtual_page 0 (start_addr q) \<noteq> virtual_page 0 (start_addr p)" using p(2) by metis
    moreover have "m \<noteq> n" using q(2) n(2) by metis
    ultimately show "backed_by x root fs s' q m" using backed_by_unmapped[OF q(3)] step(3-5) by blast
  qed
  then have "list_all2 (backed_by x root fs (locked_vm (vm_alloc s') ?k1)) ps ns'" by simp
  from Cons.IH[OF _ _ _ this n(3,4) p(3)] Cons.prems(1) step(2) obtain k' a' where
    IH: "for_each (free_stack_page x) (map Inr ps) ?k1 = Inr k'" "page_table_lock k' = Some root"
      "allocator_lock k' = Some a'" "vm_inv x (locked_vm a' k') 3 root"
      "used_pages a' = used_pages (vm_alloc s') - set ns'"
      "\<And>v. translate_address x (kernel_mem k') root v =
       (if virtual_page 0 v \<in> virtual_pages ps then Inr NotMapped else translate_address x (vm_mem s') root v)"
    by auto
  have "translate_address x (kernel_mem k') root v =
      (if virtual_page 0 v \<in> virtual_pages (p # ps) then Inr NotMapped else translate_address x (kernel_mem k) root v)" for v
    using IH(6)[of v] step(5) by (simp add: virtual_pages_def)
  moreover have "used_pages a' = used_pages a - set ns" using IH(5) step(3) ns(1) by auto
  ultimately show ?case using run IH(1-4) by auto
qed

section \<open>Allocating a stack\<close>

text \<open>The pages of the region that are not to be mapped: the guard pages and those of free slots.\<close>
definition stack_page_free :: "bitmap_allocator \<Rightarrow> nat \<Rightarrow> bool" where
  "stack_page_free a n \<longleftrightarrow> n mod 16 = 0 \<or> n div 16 \<notin> used_pages a"

definition stack_inv :: "x86_64 \<Rightarrow> u64 \<Rightarrow> bitmap_allocator \<Rightarrow> phys_allocator \<Rightarrow> kernel_memory \<Rightarrow> bool" where
  "stack_inv x root a pa k \<longleftrightarrow>
     alloc_inv a \<and> total_pages a = 256 \<and> page_table_lock k = Some root \<and> allocator_lock k = Some pa \<and>
     vm_inv x (locked_vm pa k) 3 root \<and>
     (\<forall>n<4096. stack_page_free a n \<longrightarrow>
        translate_address x (kernel_mem k) root (stack_page_addr n) = Inr NotMapped)"

lemma stack_invD:
  assumes "stack_inv x root a pa k"
  shows "alloc_inv a" "total_pages a = 256" "page_table_lock k = Some root" "allocator_lock k = Some pa"
    "vm_inv x (locked_vm pa k) 3 root"
    "\<And>n. n < 4096 \<Longrightarrow> stack_page_free a n \<Longrightarrow>
       translate_address x (kernel_mem k) root (stack_page_addr n) = Inr NotMapped"
  using assms by (simp_all add: stack_inv_def)

lemma unmap_guard_page_stack:
  assumes "stack_inv x root a pa k" "i < 256"
  shows "unmap_guard_page x (stack_of i) k = Inr ((), k)"
proof -
  note inv = stack_invD[OF assms(1)]
  have "mapped_to x (vm_mem (locked_vm pa k)) 3 root (start_addr (stack_page (16 * i))) = None"
    using inv(6)[of "16 * i"] assms(2) by (simp add: mapped_to_3 stack_page_free_def)
  with unmap_spec[OF _ vm_invD(3)[OF inv(5)], of "stack_page (16 * i)" False]
  have "unmap x root (stack_page (16 * i)) False (locked_vm pa k) = Inr (Err UnmapPageNotMapped, locked_vm pa k)"
    by (simp add: unmap_def level_of_3)
  moreover have "k\<lparr>allocator_lock := Some pa, kernel_mem := kernel_mem k\<rparr> = k" using inv(4) by simp
  ultimately show ?thesis
    using guard_page_stack[OF vm_invD(1)[OF inv(5)] assms(2)] inv(3,4)
    by (simp add: unmap_guard_page_def with_kernel_page_table_lock_def unmap_page_def with_allocator_def)
qed

lemma stack_flags_ok: "flags_ok (PRESENT OR WRITABLE)"
  by (simp add: flags_ok_def PRESENT_def WRITABLE_def address_mask_def bit_simps)

lemma stack_slot: "(j :: nat) < 16 \<Longrightarrow> i < 256 \<Longrightarrow> 16 * i + j < 4096 \<and> (16 * i + j) div 16 = i"
  by simp

lemma map_stack_pages_ok:
  assumes "stack_inv x root a pa k" "i < 256" "i \<notin> used_pages a" "60 \<le> free_frames pa"
  obtains s' ns where "map_stack_pages x (stack_of i) k =
      Inr ((), k\<lparr>allocator_lock := Some (vm_alloc s'), kernel_mem := vm_mem s'\<rparr>)"
    "maps_more x root (virtual_pages (stack_pages i)) (locked_vm pa k) s'"
    "distinct ns" "set ns \<inter> used_pages pa = {}" "list_all2 (backed_by x root (PRESENT OR WRITABLE) s') (stack_pages i) ns"
proof -
  note inv = stack_invD[OF assms(1)]
  have x: "x86_64_spec x" by (rule vm_invD(1)[OF inv(5)])
  have unmapped: "\<forall>p\<in>set (stack_pages i). translate_address x (kernel_mem k) root (start_addr p) = Inr NotMapped"
  proof
    fix p assume "p \<in> set (stack_pages i)"
    then obtain j where j: "j < 15" "p = stack_page (16 * i + 1 + j)" by (auto simp: stack_pages_def)
    with inv(6)[of "16 * i + 1 + j"] stack_slot[of "1 + j" i] assms(2,3) j
    show "translate_address x (kernel_mem k) root (start_addr p) = Inr NotMapped"
      by (simp add: stack_page_free_def)
  qed
  from map_new_pages_spec[OF stack_flags_ok inv(5) distinct_stack_pages[OF assms(2)]] obtain r s' where
    run: "map_new_pages x root (PRESENT OR WRITABLE) (map Inr (stack_pages i)) (locked_vm pa k) = Inr (r, s')"
      "maps_more x root (virtual_pages (stack_pages i)) (locked_vm pa k) s'"
      "r = Ok () \<longrightarrow> (\<exists>ns. distinct ns \<and> set ns \<inter> used_pages (vm_alloc (locked_vm pa k)) = {} \<and>
         list_all2 (backed_by x root (PRESENT OR WRITABLE) s') (stack_pages i) ns)"
      "4 * length (stack_pages i) \<le> free_frames (vm_alloc (locked_vm pa k)) \<longrightarrow>
       (\<forall>p\<in>set (stack_pages i). translate_address x (vm_mem (locked_vm pa k)) root (start_addr p) = Inr NotMapped) \<longrightarrow> r = Ok ()"
    by blast
  have r: "r = Ok ()" using run(4) unmapped assms(4) by (simp add: stack_pages_def)
  have "map_stack_pages x (stack_of i) k = Inr ((), k\<lparr>allocator_lock := Some (vm_alloc s'), kernel_mem := vm_mem s'\<rparr>)"
    using physically_mapped_pages_stack[OF x assms(2)] range_iter_stack[OF x assms(2)] run(1) r inv(3,4)
    by (simp add: map_stack_pages_def with_kernel_page_table_lock_def allocate_and_map_pages_def with_allocator_def)
  moreover from run(3) r obtain ns where "distinct ns" "set ns \<inter> used_pages pa = {}"
      "list_all2 (backed_by x root (PRESENT OR WRITABLE) s') (stack_pages i) ns" by auto
  ultimately show thesis using run(2) by (intro that)
qed

lemma zero_stack_ok:
  assumes "vm_inv x s 3 root" "list_all2 (backed_by x root fs s) (stack_pages i) ns" "i < 256"
  shows "\<exists>m. zero_stack x root (stack_of i) (vm_mem s) = Inr m \<and> vm_inv x (s\<lparr>vm_mem := m\<rparr>) 3 root \<and>
    (\<forall>v. translate_address x m root v = translate_address x (vm_mem s) root v) \<and>
    tree x m 3 root = tree x (vm_mem s) 3 root \<and> (\<forall>n\<in>set ns. m (frame_addr n) = Some (replicate 512 0))"
proof -
  have "\<forall>p\<in>set (stack_pages i). 4096 dvd unat (start_addr p)"
    using assms(3) by (auto simp: stack_pages_def unat_stack_page intro!: dvd_add)
  note zero = zero_pages_backed[OF assms(1,2) this]
  have "[1..<16] = map Suc [0..<15]" by (simp add: map_Suc_upt)
  then have "zero_stack x root (stack_of i) (vm_mem s) =
      for_each (\<lambda>j. zero_virtual_page x root (stack_page_addr (16 * i + 1 + j))) [0..<15] (vm_mem s)"
    by (simp only: zero_stack_def KERNEL_STACK_SIZE_PAGES_def for_each_map stack_of_def kernel_stack.simps
        stack_page_addr_add) simp
  also have "\<dots> = for_each (\<lambda>p. zero_virtual_page x root (start_addr p)) (stack_pages i) (vm_mem s)"
    by (simp add: stack_pages_def for_each_map)
  finally show ?thesis using zero by auto
qed

text \<open>The slot that `allocate` picks.\<close>
lemma stack_slot_allocated:
  assumes "alloc_inv a" "total_pages a = 256" "allocate_contiguous 1 a = Inr (r, a')"
  shows "alloc_inv a'" "total_pages a' = 256"
    "r = None \<Longrightarrow> used_pages a = {..<256} \<and> used_pages a' = used_pages a"
    "r = Some i \<Longrightarrow> i < 256 \<and> i \<notin> used_pages a \<and> used_pages a' = insert i (used_pages a)"
proof -
  note ret = bm.alloc_returns[OF assms(1) _ assms(3)]
  show "alloc_inv a'" "total_pages a' = 256" using ret(2,3) assms(2) by simp_all
  have run: "free_run (used_pages a) 256 1 j \<longleftrightarrow> j < 256 \<and> j \<notin> used_pages a" for j
    by (auto simp: free_run_def)
  show "used_pages a = {..<256} \<and> used_pages a' = used_pages a" if "r = None"
    using ret(1,4) that used_pages_bounded[of a] assms(2) by (auto simp: first_fit_def run[unfolded One_nat_def] split: if_splits)
  show "i < 256 \<and> i \<notin> used_pages a \<and> used_pages a' = insert i (used_pages a)" if "r = Some i"
    using bm.alloc_result(1)[OF assms(1) _ assms(3)[unfolded that]] ret(4) that assms(2) run[of i] by simp
qed

lemma stack_start:
  assumes "x86_64_spec x" "i < 256"
  shows "and_then (usize_mul i KERNEL_STACK_SIZE_BYTES) (\<lambda>off.
      and_then (usize_add (unat KERNEL_STACK_START_VIRT_ADDR) off) (\<lambda>addr. virt_addr_new x (of_nat addr))) =
    Inr (stack_page_addr (16 * i))"
proof -
  have addr: "(of_nat (0xFFFFD00000000000 + i * 65536) :: u64) = stack_page_addr (16 * i)"
  proof -
    have "unat (of_nat (0xFFFFD00000000000 + i * 65536) :: u64) = unat (stack_page_addr (16 * i))"
      using assms(2) by (subst unat_of_nat_u64) (simp_all add: unat_stack_page)
    then show ?thesis by (simp only: word_unat_eq_iff)
  qed
  have "usize_mul i KERNEL_STACK_SIZE_BYTES = Inr (i * 65536)"
    "usize_add (unat KERNEL_STACK_START_VIRT_ADDR) (i * 65536) = Inr (0xFFFFD00000000000 + i * 65536)"
    using assms(2) by (simp_all add: usize_mul_def usize_add_def fits_usize_def stack_constants)
  then show ?thesis
    using x86_64_specD(2)[OF assms(1) stack_page_canonical[of "16 * i"]] assms(2) addr
    by (simp only: and_then_simps)
qed

text \<open>A stack in slot \<open>i\<close> was allocated: its pages are backed by new, zeroed frames \<open>ns\<close>.\<close>
definition stack_backed ::
  "x86_64 \<Rightarrow> u64 \<Rightarrow> phys_allocator \<Rightarrow> phys_allocator \<Rightarrow> kernel_memory \<Rightarrow> nat \<Rightarrow> nat list \<Rightarrow> bool" where
  "stack_backed x root pa pa' k' i ns \<longleftrightarrow>
     distinct ns \<and> set ns \<inter> used_pages pa = {} \<and>
     list_all2 (backed_by x root (PRESENT OR WRITABLE) (locked_vm pa' k')) (stack_pages i) ns \<and>
     (\<forall>n\<in>set ns. kernel_mem k' (frame_addr n) = Some (replicate 512 0))"

lemma stack_allocate_slot:
  assumes inv: "stack_inv x root a pa k" and "60 \<le> free_frames pa"
    and alloc: "allocate_contiguous 1 a = Inr (Some i, a')"
  obtains k' pa' ns where "stack_allocate x (a, k) = Inr (Some (stack_of i), (a', k'))"
    "stack_inv x root a' pa' k'" "stack_backed x root pa pa' k' i ns" "used_pages pa \<subseteq> used_pages pa'"
    "\<forall>v. virtual_page 0 v \<notin> virtual_pages (stack_pages i) \<longrightarrow>
       translate_address x (kernel_mem k') root v = translate_address x (kernel_mem k) root v"
proof -
  note I = stack_invD[OF inv]
  have x: "x86_64_spec x" by (rule vm_invD(1)[OF I(5)])
  note slot = stack_slot_allocated[OF I(1,2) alloc]
  have i: "i < 256" "i \<notin> used_pages a" "used_pages a' = insert i (used_pages a)" using slot(4) by simp_all
  obtain s' ns where map: "map_stack_pages x (stack_of i) k =
      Inr ((), k\<lparr>allocator_lock := Some (vm_alloc s'), kernel_mem := vm_mem s'\<rparr>)"
    and more: "maps_more x root (virtual_pages (stack_pages i)) (locked_vm pa k) s'"
    and ns: "distinct ns" "set ns \<inter> used_pages pa = {}"
      "list_all2 (backed_by x root (PRESENT OR WRITABLE) s') (stack_pages i) ns"
    by (rule map_stack_pages_ok[OF inv i(1,2) assms(2)])
  from zero_stack_ok[OF maps_moreD(1)[OF more] ns(3) i(1)] obtain m where
    m: "zero_stack x root (stack_of i) (vm_mem s') = Inr m" "vm_inv x (s'\<lparr>vm_mem := m\<rparr>) 3 root"
      "\<forall>v. translate_address x m root v = translate_address x (vm_mem s') root v"
      "tree x m 3 root = tree x (vm_mem s') 3 root" "\<forall>n\<in>set ns. m (frame_addr n) = Some (replicate 512 0)"
    by blast
  let ?k' = "k\<lparr>allocator_lock := Some (vm_alloc s'), kernel_mem := m\<rparr>"
  have locked: "locked_vm (vm_alloc s') ?k' = s'\<lparr>vm_mem := m\<rparr>" by simp
  have run: "stack_allocate x (a, k) = Inr (Some (stack_of i), (a', ?k'))"
    using alloc stack_start[OF x i(1)] unmap_guard_page_stack[OF inv i(1)] map m(1) I(3)
    by (auto simp: stack_allocate_def stack_of_def run_facts)
  have tr: "\<forall>v. virtual_page 0 v \<notin> virtual_pages (stack_pages i) \<longrightarrow>
      translate_address x (kernel_mem ?k') root v = translate_address x (kernel_mem k) root v"
    using m(3) maps_moreD(4)[OF more] by simp
  have "translate_address x (kernel_mem ?k') root (stack_page_addr n) = Inr NotMapped"
    if n: "n < 4096" "stack_page_free a' n" for n
  proof -
    have "n \<noteq> 16 * i + 1 + j" if "j < 15" for j
    proof
      assume eq: "n = 16 * i + 1 + j"
      have "n mod 16 = 1 + j" "n div 16 = i" unfolding eq using that by (simp_all add: mod_Suc div_Suc)
      with n(2) i(3) show False by (simp add: stack_page_free_def)
    qed
    then have "virtual_page 0 (stack_page_addr n) \<notin> virtual_pages (stack_pages i)"
      unfolding virtual_pages_stack[OF n(1) i(1)] by blast
    moreover have "stack_page_free a n" using n(2) i(3) by (auto simp: stack_page_free_def)
    ultimately show ?thesis using tr I(6)[OF n(1)] by simp
  qed
  then have "stack_inv x root a' (vm_alloc s') ?k'"
    unfolding stack_inv_def locked using slot(1,2) I(3) m(2) by simp
  moreover have "list_all2 (backed_by x root (PRESENT OR WRITABLE) (s'\<lparr>vm_mem := m\<rparr>)) (stack_pages i) ns"
    using ns(3) m(3,4) by (simp add: backed_by_def list_all2_conv_all_nth)
  then have "stack_backed x root pa (vm_alloc s') ?k' i ns"
    unfolding stack_backed_def locked using ns(1,2) m(5) by simp
  ultimately show thesis using maps_moreD(2)[OF more] by (intro that[OF run _ _ _ tr]) simp_all
qed

section \<open>Properties\<close>

text \<open>C27: The page-fault handler's test for guard pages is exact: an address is on a guard page just
  when it lies in the first 4096 bytes of one of the 256 stack slots.\<close>
theorem is_kernel_guard_page_iff:
  "is_kernel_guard_page addr \<longleftrightarrow>
     (\<exists>i<256. unat (stack_start_addr (stack_of i)) \<le> unat addr \<and>
        unat addr < unat (stack_start_addr (stack_of i)) + PAGE_SIZE)"
proof -
  let ?start = "0xFFFFD00000000000 :: nat"
  have start: "unat (stack_start_addr (stack_of i)) = ?start + i * 65536" if "i < 256" for i
    using that by (simp add: stack_of_def unat_stack_page)
  have size: "(of_nat KERNEL_STACK_SIZE_BYTES * of_nat MAX_KERNEL_STACKS :: u64) = 0x1000000"
    by (simp add: stack_constants)
  have range: "KERNEL_STACK_START_VIRT_ADDR \<le> addr \<and> addr < KERNEL_STACK_START_VIRT_ADDR + 0x1000000 \<longleftrightarrow>
      ?start \<le> unat addr \<and> unat addr < ?start + 0x1000000"
    by (simp add: word_le_nat_alt word_less_nat_alt stack_constants)
  have page: "(addr - KERNEL_STACK_START_VIRT_ADDR) div of_nat PAGE_SIZE mod of_nat KERNEL_STACK_SIZE_PAGES = 0 \<longleftrightarrow>
      (unat addr - ?start) div 4096 mod 16 = 0" if "?start \<le> unat addr"
  proof -
    have "unat (addr - KERNEL_STACK_START_VIRT_ADDR) = unat addr - ?start"
      using that by (subst unat_sub) (simp_all add: word_le_nat_alt stack_constants)
    then show ?thesis
      by (simp add: word_unat_eq_iff unat_mod_distrib unat_div_distrib PAGE_SIZE_def KERNEL_STACK_SIZE_PAGES_def)
  qed
  have "is_kernel_guard_page addr \<longleftrightarrow> ?start \<le> unat addr \<and> unat addr < ?start + 0x1000000 \<and>
      (unat addr - ?start) div 4096 mod 16 = 0"
    unfolding is_kernel_guard_page_def Let_def size using range page by auto
  also have "\<dots> \<longleftrightarrow> (\<exists>i<256. ?start + i * 65536 \<le> unat addr \<and> unat addr < ?start + i * 65536 + 4096)" (is "?l \<longleftrightarrow> ?r")
  proof
    assume l: ?l
    let ?o = "unat addr - ?start"
    have "?o < 0x1000000" using l by linarith
    then have "?o div 65536 < 256" by (simp add: div_less_iff_less_mult)
    moreover have "?o = ?o div 65536 * 65536 + ?o mod 4096"
    proof -
      have "?o div 4096 = ?o div 65536 * 16" using l by (simp add: div_mult2_eq[of _ 4096 16, simplified] mod_eq_0_iff_dvd)
      then show ?thesis using div_mult_mod_eq[of ?o 4096] by simp
    qed
    ultimately show ?r using l by (intro exI[of _ "?o div 65536"]) (auto simp: mod_less_divisor)
  next
    assume ?r
    then obtain i r where i: "i < 256" "unat addr = ?start + i * 65536 + r" "r < 4096"
      by (metis le_iff_add add_less_cancel_left)
    then have "(unat addr - ?start) div 4096 = i * 16" by simp
    with i show ?l by simp
  qed
  also have "\<dots> \<longleftrightarrow> (\<exists>i<256. unat (stack_start_addr (stack_of i)) \<le> unat addr \<and>
        unat addr < unat (stack_start_addr (stack_of i)) + PAGE_SIZE)"
    using start by (auto simp: PAGE_SIZE_def)
  finally show ?thesis .
qed

text \<open>C13: Allocating a kernel stack, with 60 free frames (four per page), never panics and keeps the
  invariant that guard pages and the pages of free slots are unmapped. It returns `None` only
  when all 256 slots are taken. Otherwise the stack is in a slot that was free, its fifteen pages
  are backed by zeroed frames of their own that were free and hold no page table, and no other
  page translates differently.\<close>
theorem stack_allocate_correct:
  assumes "stack_inv x root a pa k" "60 \<le> free_frames pa"
  shows "\<exists>r a' pa' k'. stack_allocate x (a, k) = Inr (r, (a', k')) \<and> stack_inv x root a' pa' k' \<and>
    (case r of
       None \<Rightarrow> used_pages a = {..<256} \<and> k' = k
     | Some st \<Rightarrow> \<exists>i<256. \<exists>ns. st = stack_of i \<and> i \<notin> used_pages a \<and> used_pages a' = insert i (used_pages a) \<and>
         stack_backed x root pa pa' k' i ns \<and>
         (\<forall>v. virtual_page 0 v \<notin> virtual_pages (stack_pages i) \<longrightarrow>
            translate_address x (kernel_mem k') root v = translate_address x (kernel_mem k) root v))"
proof -
  note I = stack_invD[OF assms(1)]
  obtain r a' where alloc: "allocate_contiguous 1 a = Inr (r, a')" using bm.alloc_first_fit[OF I(1), of 1] by auto
  note slot = stack_slot_allocated[OF I(1,2) alloc]
  show ?thesis
  proof (cases r)
    case None
    with alloc have "stack_allocate x (a, k) = Inr (None, (a', k))" by (simp add: stack_allocate_def)
    moreover have "stack_inv x root a' pa k"
      using slot(1,2) slot(3)[OF None] assms(1) by (simp add: stack_inv_def stack_page_free_def)
    ultimately show ?thesis using slot(3)[OF None] by (intro exI[of _ None] exI conjI) auto
  next
    case (Some i)
    obtain k' pa' ns where "stack_allocate x (a, k) = Inr (Some (stack_of i), (a', k'))"
      "stack_inv x root a' pa' k'" "stack_backed x root pa pa' k' i ns" "used_pages pa \<subseteq> used_pages pa'"
      "\<forall>v. virtual_page 0 v \<notin> virtual_pages (stack_pages i) \<longrightarrow>
         translate_address x (kernel_mem k') root v = translate_address x (kernel_mem k) root v"
      by (rule stack_allocate_slot[OF assms alloc[unfolded Some]])
    with slot(4)[OF Some] show ?thesis by (intro exI[of _ "Some (stack_of i)"] exI conjI) auto
  qed
qed

lemma stack_index:
  assumes "i < 256"
  shows "u64_sub (stack_start_addr (stack_of i)) KERNEL_STACK_START_VIRT_ADDR = Inr (of_nat (i * 65536))"
    "unat (of_nat (i * 65536) div of_nat KERNEL_STACK_SIZE_BYTES :: u64) = i"
proof -
  have "KERNEL_STACK_START_VIRT_ADDR \<le> stack_start_addr (stack_of i)"
    using assms by (simp add: stack_of_def word_le_nat_alt unat_stack_page stack_constants)
  then show "u64_sub (stack_start_addr (stack_of i)) KERNEL_STACK_START_VIRT_ADDR = Inr (of_nat (i * 65536))"
    by (simp add: u64_sub_def stack_of_def stack_page_addr_def PAGE_SIZE_def)
  have "unat (of_nat (i * 65536) :: u64) = i * 65536" using assms by (intro unat_of_nat_u64) simp
  then show "unat (of_nat (i * 65536) div of_nat KERNEL_STACK_SIZE_BYTES :: u64) = i"
    by (simp add: unat_div_distrib stack_constants)
qed

lemma stack_pages_unmapped:
  assumes "stack_inv x root a pa k" "i < 256" "i \<notin> used_pages a" "virtual_page 0 v \<in> virtual_pages (stack_pages i)"
  shows "translate_address x (kernel_mem k) root v = Inr NotMapped"
proof -
  from assms(4) obtain j where j: "j < 15" "virtual_page 0 v = virtual_page 0 (stack_page_addr (16 * i + 1 + j))"
    by (auto simp: virtual_pages_def stack_pages_def)
  have "translate_address x (kernel_mem k) root (stack_page_addr (16 * i + 1 + j)) = Inr NotMapped"
    using stack_invD(6)[OF assms(1), of "16 * i + 1 + j"] stack_slot[of "1 + j" i] assms(2,3) j(1)
    by (simp add: stack_page_free_def)
  with translate_same_page[OF j(2), of x "kernel_mem k" root] show ?thesis by (simp add: translate_address_def)
qed


lemma stack_allocator_new_facts:
  "alloc_inv stack_allocator_new" "total_pages stack_allocator_new = 256" "used_pages stack_allocator_new = {}"
proof -
  have eq: "stack_allocator_new = new_allocator (replicate 4 0)"
    by (simp add: stack_allocator_new_def MAX_KERNEL_ALLOC_BIT_CHUNKS_def MAX_KERNEL_STACKS_def div_ceil_def)
  show "alloc_inv stack_allocator_new" unfolding eq by (rule alloc_inv_new) (simp add: fits_usize_def)
  show pages: "total_pages stack_allocator_new = 256"
    by (simp add: eq new_allocator_def total_pages_def bits_per_chunk_def)
  show "used_pages stack_allocator_new = {}"
    by (auto simp: used_pages_def page_used_def pages)
      (simp add: eq new_allocator_def bits_per_chunk_def div_less_iff_less_mult)
qed

lemma slots_nonempty: "{..<256} \<noteq> ({} :: nat set)"
proof -
  have "(0 :: nat) \<in> {..<256}" by simp
  then show ?thesis by (metis empty_iff)
qed

lemma empty_machine_stack_inv:
  "stack_inv x86_64_example (frame_addr 2) stack_allocator_new large_allocator empty_machine"
proof -
  have "translate_address x86_64_example (kernel_mem empty_machine) (frame_addr 2) v = Inr NotMapped" for v
    using zero_table_tree(3)[of 3 "kernel_mem empty_machine" "frame_addr 2" x86_64_example v]
    by (simp add: translate_address_def level_of_3 empty_machine_def)
  then show ?thesis
    unfolding stack_inv_def using stack_allocator_new_facts empty_machine_inv by (simp add: empty_machine_def)
qed

theorem stack_allocate_correct_witness:
  "\<exists>r s'. stack_allocate x86_64_example (stack_allocator_new, empty_machine) = Inr (r, s') \<and> r \<noteq> None"
proof -
  have "60 \<le> free_frames large_allocator" by (simp add: large_allocator_free)
  from stack_allocate_correct[OF empty_machine_stack_inv this] show ?thesis
  proof (elim exE conjE, intro exI conjI)
    fix r :: "kernel_stack option" and a' pa' k' P
    assume "case r of None \<Rightarrow> used_pages stack_allocator_new = {..<256} \<and> k' = empty_machine | Some st \<Rightarrow> P st"
    then show "r \<noteq> None" using stack_allocator_new_facts(3) slots_nonempty by (auto split: option.splits)
  qed
qed


end
