(* ===== verification/Byte_Layout.thy ===== *)
theory Byte_Layout
  imports Prelude
begin

text \<open>
  Casting between bytes and values: kernel/src/transmute.rs. A packed `repr(C)`
  struct of the source is a record with a \<open>layout\<close>, its size and the two
  directions of the cast; integers are little-endian. The zerocopy traits
  `FromBytes` and `AsBytes` promise the laws of the locale \<open>byte_layout\<close>, which
  are proved for every struct of the model.
\<close>

section \<open>Little-endian integers\<close>

definition le_bytes :: "nat \<Rightarrow> 'a::len word \<Rightarrow> u8 list" where
  "le_bytes n w = map (\<lambda>i. ucast (drop_bit (8 * i) w)) [0..<n]"

fun from_le :: "u8 list \<Rightarrow> 'a::len word" where
  "from_le [] = 0"
| "from_le (b # bs) = ucast b OR push_bit 8 (from_le bs)"

lemma length_le_bytes [simp]: "length (le_bytes n w) = n"
  by (simp add: le_bytes_def)

lemma bit_from_le:
  "bit (from_le bs :: 'a::len word) n \<longleftrightarrow> n < LENGTH('a) \<and> n div 8 < length bs \<and> bit (bs ! (n div 8)) (n mod 8)"
proof (induction bs arbitrary: n)
  case (Cons b bs)
  show ?case
  proof (cases "n < 8")
    case True
    then show ?thesis by (auto simp: bit_simps)
  next
    case False
    then have "n div 8 = Suc ((n - 8) div 8)" "n mod 8 = (n - 8) mod 8"
      by (simp_all add: le_div_geq le_mod_geq)
    moreover have "\<not> bit b n" using False bit_imp_le_length[of b n] by auto
    ultimately show ?thesis using False Cons.IH[of "n - 8"] by (auto simp: bit_simps)
  qed
qed simp

lemma from_le_bytes:
  assumes "LENGTH('a) \<le> 8 * n"
  shows "from_le (le_bytes n w) = (w :: 'a::len word)"
proof (rule bit_word_eqI)
  fix k assume k: "k < LENGTH('a)"
  then have "k div 8 < n" using assms by (simp add: div_less_iff_less_mult)
  moreover have "8 * (k div 8) + k mod 8 = k" by simp
  ultimately show "bit (from_le (le_bytes n w) :: 'a word) k = bit w k"
    using k by (simp add: bit_from_le le_bytes_def bit_simps)
qed

lemma le_bytes_from_le:
  assumes "8 * length bs \<le> LENGTH('a)"
  shows "le_bytes (length bs) (from_le bs :: 'a::len word) = bs"
proof (rule nth_equalityI)
  fix i assume "i < length (le_bytes (length bs) (from_le bs :: 'a word))"
  then have i: "i < length bs" by simp
  show "le_bytes (length bs) (from_le bs :: 'a word) ! i = bs ! i"
  proof (rule bit_word_eqI)
    fix k :: nat assume k: "k < LENGTH(8)"
    then have "(8 * i + k) div 8 = i" "(8 * i + k) mod 8 = k" "8 * i + k < LENGTH('a)"
      using i assms by simp_all
    then show "bit (le_bytes (length bs) (from_le bs :: 'a word) ! i) k = bit (bs ! i) k"
      using i k by (simp add: le_bytes_def bit_simps bit_from_le ac_simps)
  qed
qed simp

section \<open>Fields at byte offsets\<close>

definition bytes_at :: "nat \<Rightarrow> u8 list \<Rightarrow> nat \<Rightarrow> u8 list" where "bytes_at n bs off = take n (drop off bs)"
definition u8_at :: "u8 list \<Rightarrow> nat \<Rightarrow> u8" where "u8_at bs off = from_le (bytes_at 1 bs off)"
definition u16_at :: "u8 list \<Rightarrow> nat \<Rightarrow> u16" where "u16_at bs off = from_le (bytes_at 2 bs off)"
definition u32_at :: "u8 list \<Rightarrow> nat \<Rightarrow> u32" where "u32_at bs off = from_le (bytes_at 4 bs off)"
definition u64_at :: "u8 list \<Rightarrow> nat \<Rightarrow> u64" where "u64_at bs off = from_le (bytes_at 8 bs off)"

fun u32s_at :: "nat \<Rightarrow> u8 list \<Rightarrow> nat \<Rightarrow> u32 list" where
  "u32s_at 0 bs off = []"
| "u32s_at (Suc n) bs off = u32_at bs off # u32s_at n bs (off + 4)"

definition put_u8 :: "u8 \<Rightarrow> u8 list" where "put_u8 w = le_bytes 1 w"
definition put_u16 :: "u16 \<Rightarrow> u8 list" where "put_u16 w = le_bytes 2 w"
definition put_u32 :: "u32 \<Rightarrow> u8 list" where "put_u32 w = le_bytes 4 w"
definition put_u64 :: "u64 \<Rightarrow> u8 list" where "put_u64 w = le_bytes 8 w"
definition put_u32s :: "u32 list \<Rightarrow> u8 list" where "put_u32s ws = concat (map put_u32 ws)"

lemmas field_defs = u8_at_def u16_at_def u32_at_def u64_at_def put_u8_def put_u16_def put_u32_def put_u64_def

text \<open>Facts that read the fields that were put, and put the fields that were read.\<close>
named_theorems layout_facts

lemma length_put [simp, layout_facts]:
  "length (put_u8 b) = 1" "length (put_u16 h) = 2" "length (put_u32 w) = 4" "length (put_u64 d) = 8"
  "length (put_u32s ws) = 4 * length ws"
  by (simp_all add: field_defs put_u32s_def length_concat comp_def sum_list_triv)

lemma length_u32s_at [simp, layout_facts]: "length (u32s_at n bs off) = n"
  by (induction n arbitrary: off) simp_all

lemma length_bytes_at [layout_facts]: "off + n \<le> length bs \<Longrightarrow> length (bytes_at n bs off) = n"
  by (simp add: bytes_at_def)

lemma bytes_at_skip: "length as \<le> off \<Longrightarrow> bytes_at n (as @ bs) off = bytes_at n bs (off - length as)"
  by (simp add: bytes_at_def)

lemma u32s_at_skip: "length as \<le> off \<Longrightarrow> u32s_at n (as @ bs) off = u32s_at n bs (off - length as)"
proof (induction n arbitrary: off)
  case (Suc n)
  then have "off - length as + 4 = off + 4 - length as" by simp
  with Suc show ?case by (simp add: u32_at_def bytes_at_skip)
qed simp

lemma field_at_skip [layout_facts]:
  "length as \<le> off \<Longrightarrow> bytes_at n (as @ bs) off = bytes_at n bs (off - length as)"
  "length as \<le> off \<Longrightarrow> u8_at (as @ bs) off = u8_at bs (off - length as)"
  "length as \<le> off \<Longrightarrow> u16_at (as @ bs) off = u16_at bs (off - length as)"
  "length as \<le> off \<Longrightarrow> u32_at (as @ bs) off = u32_at bs (off - length as)"
  "length as \<le> off \<Longrightarrow> u64_at (as @ bs) off = u64_at bs (off - length as)"
  "length as \<le> off \<Longrightarrow> u32s_at n (as @ bs) off = u32s_at n bs (off - length as)"
  by (simp_all add: field_defs bytes_at_skip u32s_at_skip)

lemma field_at_put [layout_facts]:
  "u8_at (put_u8 b @ bs) 0 = b"
  "u16_at (put_u16 h @ bs) 0 = h"
  "u32_at (put_u32 w @ bs) 0 = w"
  "u64_at (put_u64 d @ bs) 0 = d"
  "length as = n \<Longrightarrow> bytes_at n (as @ bs) 0 = as"
  by (simp_all add: field_defs bytes_at_def from_le_bytes)

lemma u32s_at_put [layout_facts]: "length ws = n \<Longrightarrow> u32s_at n (put_u32s ws @ bs) 0 = ws"
  by (induction ws arbitrary: n) (auto simp: put_u32s_def field_at_put field_at_skip)

text \<open>The last field, after which nothing is left.\<close>
lemmas field_at_put_last [layout_facts] =
  field_at_put[where bs = "[]", simplified] u32s_at_put[where bs = "[]", simplified]

lemma put_field [layout_facts]:
  "off + 1 \<le> length bs \<Longrightarrow> put_u8 (u8_at bs off) = bytes_at 1 bs off"
  "off + 2 \<le> length bs \<Longrightarrow> put_u16 (u16_at bs off) = bytes_at 2 bs off"
  "off + 4 \<le> length bs \<Longrightarrow> put_u32 (u32_at bs off) = bytes_at 4 bs off"
  "off + 8 \<le> length bs \<Longrightarrow> put_u64 (u64_at bs off) = bytes_at 8 bs off"
  using le_bytes_from_le[of "bytes_at 1 bs off", where 'a = 8] le_bytes_from_le[of "bytes_at 2 bs off", where 'a = 16]
    le_bytes_from_le[of "bytes_at 4 bs off", where 'a = 32] le_bytes_from_le[of "bytes_at 8 bs off", where 'a = 64]
  by (simp_all add: field_defs length_bytes_at)

lemma bytes_at_join [layout_facts]:
  "off + n = p \<Longrightarrow> bytes_at n bs off @ drop p bs = drop off bs"
  "off + n = length bs \<Longrightarrow> bytes_at n bs off = drop off bs"
  by (simp_all add: bytes_at_def) (metis append_take_drop_id drop_drop add.commute)

lemma put_u32s_field [layout_facts]:
  "off + 4 * n \<le> length bs \<Longrightarrow> put_u32s (u32s_at n bs off) = bytes_at (4 * n) bs off"
proof (induction n arbitrary: off)
  case (Suc n)
  then have "put_u32s (u32s_at (Suc n) bs off) = bytes_at 4 bs off @ bytes_at (4 * n) bs (off + 4)"
    by (simp add: put_u32s_def put_field(3))
  also have "\<dots> = bytes_at (4 * Suc n) bs off"
    by (simp add: bytes_at_def take_add add.commute)
  finally show ?case .
qed (simp add: put_u32s_def bytes_at_def)

section \<open>Layouts and casts\<close>

record 'a layout =
  layout_size :: nat
  decode :: "u8 list \<Rightarrow> 'a"
  encode :: "'a \<Rightarrow> u8 list"

definition try_cast_bytes_ref :: "'a layout \<Rightarrow> u8 list \<Rightarrow> 'a option" where
  "try_cast_bytes_ref l bs =
     (if layout_size l \<le> length bs then Some (decode l (take (layout_size l) bs)) else None)"

definition try_cast_bytes_ref_offset :: "'a layout \<Rightarrow> u8 list \<Rightarrow> nat \<Rightarrow> 'a option" where
  "try_cast_bytes_ref_offset l bs off =
     (if off \<le> length bs then try_cast_bytes_ref l (drop off bs) else None)"

text \<open>A write through the mutable reference that the cast gives.\<close>
definition try_write_bytes_offset :: "'a layout \<Rightarrow> u8 list \<Rightarrow> nat \<Rightarrow> 'a \<Rightarrow> u8 list option" where
  "try_write_bytes_offset l bs off v =
     (case try_cast_bytes_ref_offset l bs off of
        None \<Rightarrow> None
      | Some _ \<Rightarrow> Some (take off bs @ encode l v @ drop (off + layout_size l) bs))"

text \<open>`TransmuteView` and `TransmuteCollection` are the bytes of their buffer.\<close>
definition view_new :: "'a layout \<Rightarrow> u8 list \<Rightarrow> u8 list option" where
  "view_new l bs = (case try_cast_bytes_ref l bs of None \<Rightarrow> None | Some _ \<Rightarrow> Some bs)"

definition view_deref :: "'a layout \<Rightarrow> u8 list \<Rightarrow> 'a outcome" where
  "view_deref l bs = expect (try_cast_bytes_ref l bs)"

definition view_update :: "'a layout \<Rightarrow> ('a \<Rightarrow> 'a) \<Rightarrow> u8 list \<Rightarrow> u8 list outcome" where
  "view_update l f bs =
     and_then (view_deref l bs) (\<lambda>v.
     Inr (encode l (f v) @ drop (layout_size l) bs))"

definition collection_get :: "'a layout \<Rightarrow> u8 list \<Rightarrow> nat \<Rightarrow> 'a option" where
  "collection_get l bs off = try_cast_bytes_ref_offset l bs off"

definition collection_write :: "'a layout \<Rightarrow> u8 list \<Rightarrow> nat \<Rightarrow> 'a \<Rightarrow> u8 list option" where
  "collection_write l bs off v = try_write_bytes_offset l bs off v"

section \<open>What the traits promise\<close>

locale byte_layout =
  fixes l :: "'a layout" and valid :: "'a \<Rightarrow> bool"
  assumes length_encode: "valid v \<Longrightarrow> length (encode l v) = layout_size l"
    and decode_encode: "valid v \<Longrightarrow> decode l (encode l v) = v"
    and encode_decode: "length bs = layout_size l \<Longrightarrow> encode l (decode l bs) = bs"
    and decode_valid: "length bs = layout_size l \<Longrightarrow> valid (decode l bs)"
begin

lemma write_total: "off + layout_size l \<le> length bs \<longleftrightarrow> try_write_bytes_offset l bs off v \<noteq> None"
  by (auto simp: try_write_bytes_offset_def try_cast_bytes_ref_offset_def try_cast_bytes_ref_def split: option.split)

text \<open>A value read back after it was written, and what the write keeps.\<close>
lemma cast_after_write:
  assumes "valid v" "try_write_bytes_offset l bs off v = Some bs'"
  shows "try_cast_bytes_ref_offset l bs' off = Some v" "length bs' = length bs"
    "take off bs' = take off bs" "drop (off + layout_size l) bs' = drop (off + layout_size l) bs"
proof -
  have len: "off + layout_size l \<le> length bs" using assms(2) write_total by fastforce
  have bs': "bs' = take off bs @ encode l v @ drop (off + layout_size l) bs"
    using assms(2) by (auto simp: try_write_bytes_offset_def split: option.splits)
  show "length bs' = length bs" "take off bs' = take off bs"
    "drop (off + layout_size l) bs' = drop (off + layout_size l) bs"
    using len length_encode[OF assms(1)] by (simp_all add: bs')
  show "try_cast_bytes_ref_offset l bs' off = Some v"
    using len length_encode[OF assms(1)] decode_encode[OF assms(1)]
    by (simp add: bs' try_cast_bytes_ref_offset_def try_cast_bytes_ref_def)
qed

text \<open>A cast elsewhere does not see the write.\<close>
lemma cast_other:
  assumes "valid v" "try_write_bytes_offset l bs off v = Some bs'"
    and "o' + layout_size l' \<le> off \<or> off + layout_size l \<le> o'"
  shows "try_cast_bytes_ref_offset l' bs' o' = try_cast_bytes_ref_offset l' bs o'"
proof -
  note w = cast_after_write[OF assms(1,2)]
  from assms(3) show ?thesis
  proof
    assume below: "o' + layout_size l' \<le> off"
    have "take (layout_size l') (drop o' cs) = drop o' (take (o' + layout_size l') cs)" for cs :: "u8 list"
      by (simp add: take_drop add.commute)
    moreover have "take (o' + layout_size l') bs' = take (o' + layout_size l') bs"
      using w(3) below by (metis min.absorb1 take_take)
    ultimately show ?thesis
      using w(2) by (simp add: try_cast_bytes_ref_offset_def try_cast_bytes_ref_def)
  next
    assume above: "off + layout_size l \<le> o'"
    then have "drop o' bs' = drop o' bs" using w(4) by (metis drop_drop le_add_diff_inverse2)
    then show ?thesis using w(2) by (simp add: try_cast_bytes_ref_offset_def)
  qed
qed

text \<open>Writing back what is there changes nothing.\<close>
lemma view_update_id:
  assumes "layout_size l \<le> length bs"
  shows "view_update l (\<lambda>v. v) bs = Inr bs"
  using assms encode_decode[of "take (layout_size l) bs"]
  by (simp add: view_update_def view_deref_def try_cast_bytes_ref_def)

lemma view_deref_update:
  assumes "layout_size l \<le> length bs" "\<And>v. valid v \<Longrightarrow> valid (f v)"
  obtains v bs' where "view_deref l bs = Inr v" "valid v" "view_update l f bs = Inr bs'"
    "view_deref l bs' = Inr (f v)" "length bs' = length bs" "drop (layout_size l) bs' = drop (layout_size l) bs"
proof -
  let ?v = "decode l (take (layout_size l) bs)"
  have v: "valid ?v" using assms(1) by (intro decode_valid) simp
  then have "length (encode l (f ?v)) = layout_size l" "decode l (encode l (f ?v)) = f ?v"
    using length_encode decode_encode assms(2) by auto
  with v assms(1) show thesis
    by (intro that[of ?v "encode l (f ?v) @ drop (layout_size l) bs"])
      (simp_all add: view_update_def view_deref_def try_cast_bytes_ref_def)
qed

end

end
