(* ===== verification/Ext2_Layout.thy ===== *)
theory Ext2_Layout
  imports Byte_Layout
begin

text \<open>
  The structures of an ext2 disk: kernel/src/fs/ext2/superblock.rs,
  block_group.rs, inode.rs and the entry header of directory.rs, with their
  byte layouts, the computations on them and the bitmaps.
\<close>

section \<open>Structures\<close>

text \<open>The superblock; block addresses and feature flags are their numbers.\<close>
record superblock =
  inodes_count :: u32
  blocks_count :: u32
  reserved_blocks_count :: u32
  sb_free_blocks_count :: u32
  sb_free_inodes_count :: u32
  first_data_block :: u32
  log_block_size :: u32
  log_frag_size :: u32
  blocks_per_group :: u32
  frags_per_group :: u32
  inodes_per_group :: u32
  mount_time :: u32
  write_time :: u32
  mount_count :: u16
  max_mount_count :: u16
  magic :: u16
  state :: u16
  errors :: u16
  minor_rev_level :: u16
  lastcheck :: u32
  checkinterval :: u32
  creator_os :: u32
  rev_level :: u32
  def_resuid :: u16
  def_resgid :: u16
  first_ino :: u32
  sb_inode_size :: u16
  block_group_nr :: u16
  feature_compat :: u32
  feature_incompat :: u32
  feature_ro_compat :: u32
  uuid :: "u8 list"
  volume_name :: "u8 list"
  last_mounted :: "u8 list"
  algo_bitmap :: u32
  prealloc_blocks :: u8
  prealloc_dir_blocks :: u8
  padding1 :: u16
  journal_uuid :: "u8 list"
  journal_inum :: u32
  journal_dev :: u32
  last_orphan :: u32
  hash_seed :: "u32 list"
  def_hash_version :: u8
  padding2 :: "u8 list"
  default_mount_options :: u32
  first_meta_bg :: u32

definition superblock_of_bytes :: "u8 list \<Rightarrow> superblock" where
  "superblock_of_bytes bs =
     \<lparr>inodes_count = u32_at bs 0,
      blocks_count = u32_at bs 4,
      reserved_blocks_count = u32_at bs 8,
      sb_free_blocks_count = u32_at bs 12,
      sb_free_inodes_count = u32_at bs 16,
      first_data_block = u32_at bs 20,
      log_block_size = u32_at bs 24,
      log_frag_size = u32_at bs 28,
      blocks_per_group = u32_at bs 32,
      frags_per_group = u32_at bs 36,
      inodes_per_group = u32_at bs 40,
      mount_time = u32_at bs 44,
      write_time = u32_at bs 48,
      mount_count = u16_at bs 52,
      max_mount_count = u16_at bs 54,
      magic = u16_at bs 56,
      state = u16_at bs 58,
      errors = u16_at bs 60,
      minor_rev_level = u16_at bs 62,
      lastcheck = u32_at bs 64,
      checkinterval = u32_at bs 68,
      creator_os = u32_at bs 72,
      rev_level = u32_at bs 76,
      def_resuid = u16_at bs 80,
      def_resgid = u16_at bs 82,
      first_ino = u32_at bs 84,
      sb_inode_size = u16_at bs 88,
      block_group_nr = u16_at bs 90,
      feature_compat = u32_at bs 92,
      feature_incompat = u32_at bs 96,
      feature_ro_compat = u32_at bs 100,
      uuid = bytes_at 16 bs 104,
      volume_name = bytes_at 16 bs 120,
      last_mounted = bytes_at 64 bs 136,
      algo_bitmap = u32_at bs 200,
      prealloc_blocks = u8_at bs 204,
      prealloc_dir_blocks = u8_at bs 205,
      padding1 = u16_at bs 206,
      journal_uuid = bytes_at 16 bs 208,
      journal_inum = u32_at bs 224,
      journal_dev = u32_at bs 228,
      last_orphan = u32_at bs 232,
      hash_seed = u32s_at 4 bs 236,
      def_hash_version = u8_at bs 252,
      padding2 = bytes_at 3 bs 253,
      default_mount_options = u32_at bs 256,
      first_meta_bg = u32_at bs 260\<rparr>"

definition superblock_to_bytes :: "superblock \<Rightarrow> u8 list" where
  "superblock_to_bytes v =
     put_u32 (inodes_count v) @
     put_u32 (blocks_count v) @
     put_u32 (reserved_blocks_count v) @
     put_u32 (sb_free_blocks_count v) @
     put_u32 (sb_free_inodes_count v) @
     put_u32 (first_data_block v) @
     put_u32 (log_block_size v) @
     put_u32 (log_frag_size v) @
     put_u32 (blocks_per_group v) @
     put_u32 (frags_per_group v) @
     put_u32 (inodes_per_group v) @
     put_u32 (mount_time v) @
     put_u32 (write_time v) @
     put_u16 (mount_count v) @
     put_u16 (max_mount_count v) @
     put_u16 (magic v) @
     put_u16 (state v) @
     put_u16 (errors v) @
     put_u16 (minor_rev_level v) @
     put_u32 (lastcheck v) @
     put_u32 (checkinterval v) @
     put_u32 (creator_os v) @
     put_u32 (rev_level v) @
     put_u16 (def_resuid v) @
     put_u16 (def_resgid v) @
     put_u32 (first_ino v) @
     put_u16 (sb_inode_size v) @
     put_u16 (block_group_nr v) @
     put_u32 (feature_compat v) @
     put_u32 (feature_incompat v) @
     put_u32 (feature_ro_compat v) @
     uuid v @
     volume_name v @
     last_mounted v @
     put_u32 (algo_bitmap v) @
     put_u8 (prealloc_blocks v) @
     put_u8 (prealloc_dir_blocks v) @
     put_u16 (padding1 v) @
     journal_uuid v @
     put_u32 (journal_inum v) @
     put_u32 (journal_dev v) @
     put_u32 (last_orphan v) @
     put_u32s (hash_seed v) @
     put_u8 (def_hash_version v) @
     padding2 v @
     put_u32 (default_mount_options v) @
     put_u32 (first_meta_bg v)"

definition superblock_layout :: "superblock layout" where
  "superblock_layout = \<lparr>layout_size = 264, decode = superblock_of_bytes, encode = superblock_to_bytes\<rparr>"

definition superblock_valid :: "superblock \<Rightarrow> bool" where
  "superblock_valid v \<longleftrightarrow> length (uuid v) = 16 \<and> length (volume_name v) = 16 \<and> length (last_mounted v) = 64 \<and> length (journal_uuid v) = 16 \<and> length (hash_seed v) = 4 \<and> length (padding2 v) = 3"

interpretation superblock: byte_layout superblock_layout superblock_valid
proof
  fix v assume "superblock_valid v"
  then show "length (encode superblock_layout v) = layout_size superblock_layout"
    "decode superblock_layout (encode superblock_layout v) = v"
    by (simp_all add: superblock_layout_def superblock_to_bytes_def superblock_of_bytes_def superblock_valid_def layout_facts)
next
  fix bs :: "u8 list" assume "length bs = layout_size superblock_layout"
  then show "encode superblock_layout (decode superblock_layout bs) = bs" "superblock_valid (decode superblock_layout bs)"
    by (simp_all add: superblock_layout_def superblock_to_bytes_def superblock_of_bytes_def superblock_valid_def layout_facts)
qed

text \<open>A block group descriptor.\<close>
record block_group_descriptor =
  block_bitmap :: u32
  inode_bitmap :: u32
  inode_table :: u32
  free_blocks_count :: u16
  free_inodes_count :: u16
  used_dirs_count :: u16
  bg_pad :: u16
  bg_reserved :: "u8 list"

definition descriptor_of_bytes :: "u8 list \<Rightarrow> block_group_descriptor" where
  "descriptor_of_bytes bs =
     \<lparr>block_bitmap = u32_at bs 0,
      inode_bitmap = u32_at bs 4,
      inode_table = u32_at bs 8,
      free_blocks_count = u16_at bs 12,
      free_inodes_count = u16_at bs 14,
      used_dirs_count = u16_at bs 16,
      bg_pad = u16_at bs 18,
      bg_reserved = bytes_at 12 bs 20\<rparr>"

definition descriptor_to_bytes :: "block_group_descriptor \<Rightarrow> u8 list" where
  "descriptor_to_bytes v =
     put_u32 (block_bitmap v) @
     put_u32 (inode_bitmap v) @
     put_u32 (inode_table v) @
     put_u16 (free_blocks_count v) @
     put_u16 (free_inodes_count v) @
     put_u16 (used_dirs_count v) @
     put_u16 (bg_pad v) @
     bg_reserved v"

definition descriptor_layout :: "block_group_descriptor layout" where
  "descriptor_layout = \<lparr>layout_size = 32, decode = descriptor_of_bytes, encode = descriptor_to_bytes\<rparr>"

definition descriptor_valid :: "block_group_descriptor \<Rightarrow> bool" where
  "descriptor_valid v \<longleftrightarrow> length (bg_reserved v) = 12"

interpretation descriptor: byte_layout descriptor_layout descriptor_valid
proof
  fix v assume "descriptor_valid v"
  then show "length (encode descriptor_layout v) = layout_size descriptor_layout"
    "decode descriptor_layout (encode descriptor_layout v) = v"
    by (simp_all add: descriptor_layout_def descriptor_to_bytes_def descriptor_of_bytes_def descriptor_valid_def layout_facts)
next
  fix bs :: "u8 list" assume "length bs = layout_size descriptor_layout"
  then show "encode descriptor_layout (decode descriptor_layout bs) = bs" "descriptor_valid (decode descriptor_layout bs)"
    by (simp_all add: descriptor_layout_def descriptor_to_bytes_def descriptor_of_bytes_def descriptor_valid_def layout_facts)
qed

text \<open>An inode.\<close>
record inode =
  mode :: u16
  uid :: u16
  size_low :: u32
  atime :: u32
  ctime :: u32
  mtime :: u32
  dtime :: u32
  gid :: u16
  links_count :: u16
  inode_blocks :: u32
  inode_flags :: u32
  osd1 :: u32
  direct_blocks :: "u32 list"
  singly_indirect_block :: u32
  doubly_indirect_block :: u32
  triply_indirect_block :: u32
  generation :: u32
  file_acl :: u32
  size_high :: u32
  faddr :: u32
  osd2 :: "u8 list"

definition inode_of_bytes :: "u8 list \<Rightarrow> inode" where
  "inode_of_bytes bs =
     \<lparr>mode = u16_at bs 0,
      uid = u16_at bs 2,
      size_low = u32_at bs 4,
      atime = u32_at bs 8,
      ctime = u32_at bs 12,
      mtime = u32_at bs 16,
      dtime = u32_at bs 20,
      gid = u16_at bs 24,
      links_count = u16_at bs 26,
      inode_blocks = u32_at bs 28,
      inode_flags = u32_at bs 32,
      osd1 = u32_at bs 36,
      direct_blocks = u32s_at 12 bs 40,
      singly_indirect_block = u32_at bs 88,
      doubly_indirect_block = u32_at bs 92,
      triply_indirect_block = u32_at bs 96,
      generation = u32_at bs 100,
      file_acl = u32_at bs 104,
      size_high = u32_at bs 108,
      faddr = u32_at bs 112,
      osd2 = bytes_at 12 bs 116\<rparr>"

definition inode_to_bytes :: "inode \<Rightarrow> u8 list" where
  "inode_to_bytes v =
     put_u16 (mode v) @
     put_u16 (uid v) @
     put_u32 (size_low v) @
     put_u32 (atime v) @
     put_u32 (ctime v) @
     put_u32 (mtime v) @
     put_u32 (dtime v) @
     put_u16 (gid v) @
     put_u16 (links_count v) @
     put_u32 (inode_blocks v) @
     put_u32 (inode_flags v) @
     put_u32 (osd1 v) @
     put_u32s (direct_blocks v) @
     put_u32 (singly_indirect_block v) @
     put_u32 (doubly_indirect_block v) @
     put_u32 (triply_indirect_block v) @
     put_u32 (generation v) @
     put_u32 (file_acl v) @
     put_u32 (size_high v) @
     put_u32 (faddr v) @
     osd2 v"

definition inode_layout :: "inode layout" where
  "inode_layout = \<lparr>layout_size = 128, decode = inode_of_bytes, encode = inode_to_bytes\<rparr>"

definition inode_valid :: "inode \<Rightarrow> bool" where
  "inode_valid v \<longleftrightarrow> length (direct_blocks v) = 12 \<and> length (osd2 v) = 12"

interpretation inode: byte_layout inode_layout inode_valid
proof
  fix v assume "inode_valid v"
  then show "length (encode inode_layout v) = layout_size inode_layout"
    "decode inode_layout (encode inode_layout v) = v"
    by (simp_all add: inode_layout_def inode_to_bytes_def inode_of_bytes_def inode_valid_def layout_facts)
next
  fix bs :: "u8 list" assume "length bs = layout_size inode_layout"
  then show "encode inode_layout (decode inode_layout bs) = bs" "inode_valid (decode inode_layout bs)"
    by (simp_all add: inode_layout_def inode_to_bytes_def inode_of_bytes_def inode_valid_def layout_facts)
qed

text \<open>The header of a directory entry.\<close>
record directory_entry_header =
  header_inode :: u32
  rec_len :: u16
  name_len :: u8
  raw_file_type :: u8

definition header_of_bytes :: "u8 list \<Rightarrow> directory_entry_header" where
  "header_of_bytes bs =
     \<lparr>header_inode = u32_at bs 0,
      rec_len = u16_at bs 4,
      name_len = u8_at bs 6,
      raw_file_type = u8_at bs 7\<rparr>"

definition header_to_bytes :: "directory_entry_header \<Rightarrow> u8 list" where
  "header_to_bytes v =
     put_u32 (header_inode v) @
     put_u16 (rec_len v) @
     put_u8 (name_len v) @
     put_u8 (raw_file_type v)"

definition header_layout :: "directory_entry_header layout" where
  "header_layout = \<lparr>layout_size = 8, decode = header_of_bytes, encode = header_to_bytes\<rparr>"

definition header_valid :: "directory_entry_header \<Rightarrow> bool" where
  "header_valid v \<longleftrightarrow> True"

interpretation header: byte_layout header_layout header_valid
proof
  fix v assume "header_valid v"
  then show "length (encode header_layout v) = layout_size header_layout"
    "decode header_layout (encode header_layout v) = v"
    by (simp_all add: header_layout_def header_to_bytes_def header_of_bytes_def header_valid_def layout_facts)
next
  fix bs :: "u8 list" assume "length bs = layout_size header_layout"
  then show "encode header_layout (decode header_layout bs) = bs" "header_valid (decode header_layout bs)"
    by (simp_all add: header_layout_def header_to_bytes_def header_of_bytes_def header_valid_def layout_facts)
qed

end
