(* ===== verification/Ext2_Structures.thy ===== *)
theory Ext2_Structures
  imports Ext2_Layout
begin

text \<open>
  Computations on the structures of an ext2 disk: the methods of `Superblock`
  and its block iterator (kernel/src/fs/ext2/superblock.rs), the bitmaps of a
  block group (block_group.rs) and the methods of `Inode` (inode.rs). Inode
  numbers, block addresses, group indices and byte offsets are the numbers that
  their wrapper types hold; their arithmetic panics outside their width.
\<close>

section \<open>The superblock\<close>

definition SUPERBLOCK_BLOCK_SIZE :: nat where "SUPERBLOCK_BLOCK_SIZE = 1024"
definition SUPERBLOCK_BLOCK_INDEX :: nat where "SUPERBLOCK_BLOCK_INDEX = 1"
definition MAGIC :: u16 where "MAGIC = 0xEF53"
definition ROOT_DIRECTORY :: nat where "ROOT_DIRECTORY = 2"

definition magic_valid :: "superblock \<Rightarrow> bool" where
  "magic_valid sb \<longleftrightarrow> magic sb = MAGIC"

text \<open>The shift is on `u16`: it panics from 16 places on and drops bits before that.\<close>
definition block_size :: "superblock \<Rightarrow> nat outcome" where
  "block_size sb =
     (let s = unat (log_block_size sb)
      in if s < 16 then Inr (unat (push_bit s (1024 :: u16))) else Inl Overflow)"

definition block_descriptor_table_start_block :: "superblock \<Rightarrow> nat" where
  "block_descriptor_table_start_block sb = unat (first_data_block sb) + 1"

definition num_block_groups :: "superblock \<Rightarrow> nat outcome" where
  "num_block_groups sb =
     and_then (usize_div (unat (blocks_count sb)) (unat (blocks_per_group sb))) (\<lambda>_.
     Inr (div_ceil (unat (blocks_count sb)) (unat (blocks_per_group sb))))"

definition inode_location :: "superblock \<Rightarrow> nat \<Rightarrow> (nat \<times> nat) outcome" where
  "inode_location sb n =
     and_then (usize_sub n 1) (\<lambda>index.
     and_then (usize_div index (unat (inodes_per_group sb))) (\<lambda>g.
     and_then (usize_rem index (unat (inodes_per_group sb))) (\<lambda>l.
     Inr (g, l))))"

definition inode_number :: "superblock \<Rightarrow> nat \<Rightarrow> nat \<Rightarrow> nat outcome" where
  "inode_number sb g l =
     and_then (u32_mul g (unat (inodes_per_group sb))) (\<lambda>b.
     and_then (u32_add b l) (\<lambda>index.
     u32_add index 1))"

definition inode_block_and_offset :: "superblock \<Rightarrow> nat \<Rightarrow> nat \<Rightarrow> (nat \<times> nat) outcome" where
  "inode_block_and_offset sb table l =
     and_then (usize_mul (unat (sb_inode_size sb)) l) (\<lambda>byte_offset.
     and_then (block_size sb) (\<lambda>bsz.
     and_then (usize_div byte_offset bsz) (\<lambda>block_offset.
     and_then (usize_add table block_offset) (\<lambda>block.
     and_then (usize_rem byte_offset bsz) (\<lambda>off.
     Inr (block, off))))))"

definition inode_size :: "superblock \<Rightarrow> inode \<Rightarrow> nat" where
  "inode_size sb i =
     (if rev_level sb = 0 then unat (size_low i)
      else unat (push_bit 32 (ucast (size_high i)) OR ucast (size_low i) :: u64))"

section \<open>The blocks of an inode\<close>

record inode_block_iterator =
  iter_direct_blocks :: "u32 list"
  iter_block_size :: nat
  iter_num_blocks :: nat
  seen_blocks :: nat
  iter_index :: nat

definition iter_inode_blocks :: "superblock \<Rightarrow> inode \<Rightarrow> inode_block_iterator outcome" where
  "iter_inode_blocks sb i =
     and_then (block_size sb) (\<lambda>bsz.
     and_then (usize_mul (unat (inode_blocks i)) 512) (\<lambda>bytes.
     and_then (usize_div bytes bsz) (\<lambda>_.
     Inr \<lparr>iter_direct_blocks = direct_blocks i, iter_block_size = bsz,
          iter_num_blocks = div_ceil bytes bsz, seen_blocks = 0, iter_index = 0\<rparr>)))"

text \<open>One call of the iterator: the offset and address of the next allocated block.
  The list of direct blocks ends the loop when the index runs past it.\<close>
function inode_block_next ::
  "inode_block_iterator \<Rightarrow> ((nat \<times> nat) option \<times> inode_block_iterator) outcome" where
  "inode_block_next it =
     (if seen_blocks it < iter_num_blocks it then
        if iter_index it = 12 then Inl Unimplemented
        else
          let i = iter_index it; it' = it\<lparr>iter_index := i + 1\<rparr> in
          if i < length (iter_direct_blocks it) then
            let b = iter_direct_blocks it ! i in
            if b = 0 then inode_block_next it'
            else and_then (usize_mul i (iter_block_size it)) (\<lambda>off.
                 Inr (Some (off, unat b), it'\<lparr>seen_blocks := seen_blocks it + 1\<rparr>))
          else Inr (None, it')
      else Inr (None, it))"
  by pat_completeness auto
termination
  by (relation "measure (\<lambda>it. length (iter_direct_blocks it) - iter_index it)") auto

declare inode_block_next.simps [simp del]

section \<open>Inodes\<close>

definition IFDIR :: u16 where "IFDIR = 0x4000"
definition IFREG :: u16 where "IFREG = 0x8000"

definition inode_is_dir :: "inode \<Rightarrow> bool" where
  "inode_is_dir i \<longleftrightarrow> mode i AND IFDIR = IFDIR"

definition inode_is_file :: "inode \<Rightarrow> bool" where
  "inode_is_file i \<longleftrightarrow> mode i AND IFREG = IFREG"

definition empty_direct_blocks :: "u32 list" where
  "empty_direct_blocks = replicate 12 0"

definition insert_direct_block :: "nat \<Rightarrow> u32 \<Rightarrow> u32 list \<Rightarrow> u32 list outcome" where
  "insert_direct_block i b bs =
     and_then (assert_that (i < length bs)) (\<lambda>_. Inr (bs[i := b]))"

section \<open>Bitmaps\<close>

definition bitmap_is_used :: "u8 list \<Rightarrow> nat \<Rightarrow> bool option" where
  "bitmap_is_used bs i =
     (if i div 8 < length bs then Some (bs ! (i div 8) AND push_bit (i mod 8) 1 \<noteq> 0) else None)"

fun reserve_bit :: "u8 \<Rightarrow> nat list \<Rightarrow> (nat \<times> u8) option" where
  "reserve_bit b [] = None"
| "reserve_bit b (k # ks) =
     (if b AND push_bit k 1 = 0 then Some (k, b OR push_bit k 1) else reserve_bit b ks)"

fun reserve_from :: "nat \<Rightarrow> u8 list \<Rightarrow> (nat \<times> u8 list) option" where
  "reserve_from i [] = None"
| "reserve_from i (b # bs) =
     (case (if b = 0xFF then None else reserve_bit b [0..<8]) of
        Some (k, b') \<Rightarrow> Some (i * 8 + k, b' # bs)
      | None \<Rightarrow> (case reserve_from (i + 1) bs of
                   None \<Rightarrow> None
                 | Some (r, bs') \<Rightarrow> Some (r, b # bs')))"

definition reserve_next_free :: "u8 list \<Rightarrow> (nat \<times> u8 list) option" where
  "reserve_next_free bs = reserve_from 0 bs"

definition block_bitmap_reserve :: "u8 list \<Rightarrow> (u32 \<times> u8 list) option" where
  "block_bitmap_reserve bs = map_option (\<lambda>(i, bs'). (of_nat i, bs')) (reserve_next_free bs)"

definition inode_bitmap_reserve :: "u8 list \<Rightarrow> (nat \<times> u8 list) option" where
  "inode_bitmap_reserve bs = map_option (\<lambda>(i, bs'). (unat (of_nat i :: u32), bs')) (reserve_next_free bs)"

section \<open>Where inodes are\<close>

lemma inode_location_eq:
  assumes "0 < n" "0 < unat (inodes_per_group sb)"
  shows "inode_location sb n =
    Inr ((n - 1) div unat (inodes_per_group sb), (n - 1) mod unat (inodes_per_group sb))"
  using assms by (simp add: inode_location_def)

lemma inode_number_eq:
  assumes "g * unat (inodes_per_group sb) + l + 1 < 2 ^ 32"
  shows "inode_number sb g l = Inr (g * unat (inodes_per_group sb) + l + 1)"
  using assms by (simp add: inode_number_def fits_u32_iff)

text \<open>Inode numbers and positions in block groups convert into each other without loss:
  every inode number from 1 on has a group and an index below the number of inodes per
  group, and that position has that number; conversely a position whose number fits in 32
  bits is the location of its number. Inode number 0 has no location: looking for it panics.\<close>
theorem inode_number_round_trip:
  assumes "0 < unat (inodes_per_group sb)"
  shows "(\<forall>n. 0 < n \<and> n < 2 ^ 32 \<longrightarrow>
      (\<exists>g l. inode_location sb n = Inr (g, l) \<and> l < unat (inodes_per_group sb) \<and> inode_number sb g l = Inr n)) \<and>
    (\<forall>g l. l < unat (inodes_per_group sb) \<and> g * unat (inodes_per_group sb) + l + 1 < 2 ^ 32 \<longrightarrow>
      (\<exists>n. inode_number sb g l = Inr n \<and> inode_location sb n = Inr (g, l))) \<and>
    inode_location sb 0 = Inl Overflow"
proof (intro conjI allI impI)
  fix n :: nat assume n: "0 < n \<and> n < 2 ^ 32"
  let ?k = "unat (inodes_per_group sb)"
  have "(n - 1) div ?k * ?k + (n - 1) mod ?k + 1 = n" using n by simp
  then show "\<exists>g l. inode_location sb n = Inr (g, l) \<and> l < ?k \<and> inode_number sb g l = Inr n"
    using n assms inode_number_eq[of "(n - 1) div ?k" sb "(n - 1) mod ?k"]
    by (auto simp: inode_location_eq)
next
  fix g l assume "l < unat (inodes_per_group sb) \<and> g * unat (inodes_per_group sb) + l + 1 < 2 ^ 32"
  then show "\<exists>n. inode_number sb g l = Inr n \<and> inode_location sb n = Inr (g, l)"
    using assms by (auto simp: inode_number_eq inode_location_eq)
next
  show "inode_location sb 0 = Inl Overflow" by (simp add: inode_location_def usize_sub_def)
qed

text \<open>The block sizes of ext2 that fit in `u16`: from 1 KiB to 32 KiB.\<close>
lemma block_size_eq:
  assumes "unat (log_block_size sb) < 6"
  shows "block_size sb = Inr (1024 * 2 ^ unat (log_block_size sb))"
proof -
  let ?s = "unat (log_block_size sb)"
  have u: "unat (of_nat n :: u16) = n" if "n < 2 ^ 16" for n
    using that by (simp add: unat_of_nat take_bit_nat_eq_self)
  have "(2 :: nat) ^ (10 + ?s) < 2 ^ 16" using assms by (intro power_strict_increasing) simp_all
  moreover have "push_bit ?s (1024 :: u16) = of_nat (2 ^ (10 + ?s))"
    by (simp add: push_bit_eq_mult power_add)
  ultimately have "unat (push_bit ?s (1024 :: u16)) = 2 ^ (10 + ?s)" by (simp only: u)
  then show ?thesis using assms by (simp add: block_size_def power_add)
qed

text \<open>From 64 KiB on every bit is shifted out, and the block size becomes zero.\<close>
lemma block_size_lost:
  assumes "6 \<le> unat (log_block_size sb)" "unat (log_block_size sb) < 16"
  shows "block_size sb = Inr 0"
proof -
  have "push_bit (unat (log_block_size sb)) (1024 :: u16) = 0"
  proof (rule bit_word_eqI)
    fix k assume "k < LENGTH(16)"
    moreover have "(1024 :: u16) = 2 ^ 10" by simp
    ultimately show "bit (push_bit (unat (log_block_size sb)) (1024 :: u16)) k = bit (0 :: u16) k"
      using assms(1) by (simp only: bit_simps \<open>1024 = 2 ^ 10\<close>) auto
  qed
  with assms(2) show ?thesis by (simp add: block_size_def)
qed

lemma inode_block_and_offset_eq:
  assumes "block_size sb = Inr bsz" "0 < bsz" "l < 2 ^ 32" "table < 2 ^ 32"
  shows "inode_block_and_offset sb table l =
    Inr (table + unat (sb_inode_size sb) * l div bsz, unat (sb_inode_size sb) * l mod bsz)"
proof -
  let ?p = "unat (sb_inode_size sb) * l"
  have "unat (sb_inode_size sb) < 2 ^ 16" using unsigned_less[of "sb_inode_size sb"] by simp
  then have "?p \<le> 2 ^ 16 * 2 ^ 32" using assms(3) by (intro mult_le_mono) simp_all
  then have p: "?p < 2 ^ 49" by simp
  have "?p div bsz < 2 ^ 49" using div_le_dividend p by (rule le_less_trans)
  with assms(4) have "table + ?p div bsz < 2 ^ 64" by simp
  with p have "fits_usize ?p" "fits_usize (table + ?p div bsz)" by (simp_all add: fits_usize_iff)
  then show ?thesis using assms(1,2) by (simp add: inode_block_and_offset_def)
qed

text \<open>Slots of a size that divides the block size stay inside a block and apart from each other.\<close>
lemma slot_in_block: "k dvd n \<Longrightarrow> 0 < n \<Longrightarrow> k * i mod n + k \<le> (n :: nat)"
proof -
  assume "k dvd n" and n: "0 < n"
  then obtain c where c: "n = k * c" by (elim dvdE)
  have "i mod c < c" using c n by (cases c) simp_all
  then have "k * Suc (i mod c) \<le> k * c" by (intro mult_le_mono2) simp
  moreover have "k * i mod n = k * (i mod c)" unfolding c by (rule mult_mod_right[symmetric])
  ultimately show ?thesis unfolding c by simp
qed

lemma slots_apart:
  assumes "l \<noteq> m" "k * l div n = k * m div (n :: nat)"
  shows "k * l mod n + k \<le> k * m mod n \<or> k * m mod n + k \<le> k * l mod n"
proof -
  have "k * l div n * n = k * m div n * n" using assms(2) by simp
  moreover have "l * k + k \<le> m * k \<or> m * k + k \<le> l * k" using multiples_apart[OF assms(1), of k] by auto
  ultimately show ?thesis
    using div_mult_mod_eq[of "k * l" n] div_mult_mod_eq[of "k * m" n]
    unfolding mult.commute[of k l] mult.commute[of k m] by linarith
qed

text \<open>The inode table is an array. The place of the inode with index \<open>l\<close> is the byte
  \<open>l\<close> times the inode size after the start of the table, given as a block and an offset in
  it. As the inode size divides the block size, an inode never straddles two blocks, and the
  places of different inodes do not overlap.\<close>
theorem inode_slots_disjoint:
  assumes "block_size sb = Inr bsz" "0 < unat (sb_inode_size sb)" "unat (sb_inode_size sb) dvd bsz" "0 < bsz"
    and "l < 2 ^ 32" "m < 2 ^ 32" "l \<noteq> m" "table < 2 ^ 32"
  shows "\<exists>b off b' off'. inode_block_and_offset sb table l = Inr (b, off) \<and>
    inode_block_and_offset sb table m = Inr (b', off') \<and>
    b * bsz + off = table * bsz + unat (sb_inode_size sb) * l \<and> off + unat (sb_inode_size sb) \<le> bsz \<and>
    (b = b' \<longrightarrow> off + unat (sb_inode_size sb) \<le> off' \<or> off' + unat (sb_inode_size sb) \<le> off)"
proof -
  let ?k = "unat (sb_inode_size sb)"
  have pos: "(table + ?k * l div bsz) * bsz + ?k * l mod bsz = table * bsz + ?k * l"
    by (simp add: distrib_right)
  have "?k * l mod bsz + ?k \<le> ?k * m mod bsz \<or> ?k * m mod bsz + ?k \<le> ?k * l mod bsz"
    if "table + ?k * l div bsz = table + ?k * m div bsz"
    using that by (intro slots_apart assms(7)) simp
  with inode_block_and_offset_eq[OF assms(1,4,5,8)] inode_block_and_offset_eq[OF assms(1,4,6,8)]
    pos slot_in_block[OF assms(3,4), of l]
  show ?thesis by blast
qed

section \<open>Reserving in a bitmap\<close>

definition bitmap_bit :: "u8 list \<Rightarrow> nat \<Rightarrow> bool" where
  "bitmap_bit bs i \<longleftrightarrow> i div 8 < length bs \<and> bit (bs ! (i div 8)) (i mod 8)"

lemma bitmap_is_used_eq:
  "bitmap_is_used bs i = (if i < 8 * length bs then Some (bitmap_bit bs i) else None)"
  by (auto simp: bitmap_is_used_def bitmap_bit_def and_mask_eq_0)

lemma bitmap_bit_Cons: "bitmap_bit (b # bs) i = (if i < 8 then bit b i else bitmap_bit bs (i - 8))"
  by (auto simp: bitmap_bit_def le_div_geq le_mod_geq)

lemma reserve_bit_find:
  "reserve_bit b ks = map_option (\<lambda>k. (k, b OR 2 ^ k)) (find (\<lambda>k. \<not> bit b k) ks)"
  by (induction ks) (simp_all add: and_mask_eq_0)

text \<open>The test for a full byte only saves time.\<close>
lemma full_byte_skipped: "(if b = 0xFF then None else reserve_bit b [0..<8]) = reserve_bit b [0..<8]"
proof -
  have "bit (0xFF :: u8) k" if "k < 8" for k
  proof -
    have "(0xFF :: u8) = mask 8" by (simp add: mask_eq_exp_minus_1)
    then show ?thesis using that by (simp only: bit_mask_iff) simp
  qed
  then show ?thesis by (auto simp: reserve_bit_find find_None_iff)
qed

lemma find_upt_Some:
  "find P [0..<n] = Some k \<longleftrightarrow> k < n \<and> P k \<and> (\<forall>j<k. \<not> P j)"
  by (auto simp: find_Some_iff intro!: exI[of _ k])

lemma reserve_bit_Some:
  "reserve_bit b [0..<8] = Some (k, b') \<longleftrightarrow> k < 8 \<and> \<not> bit b k \<and> (\<forall>j<k. bit b j) \<and> b' = b OR 2 ^ k"
  by (auto simp: reserve_bit_find find_upt_Some)

lemma reserve_bit_None: "reserve_bit b [0..<8] = None \<longleftrightarrow> (\<forall>j<8. bit b j)"
  by (auto simp: reserve_bit_find find_None_iff)

lemma reserve_from_Cons:
  "reserve_from n (b # bs) =
     (case reserve_bit b [0..<8] of
        Some (k, b') \<Rightarrow> Some (n * 8 + k, b' # bs)
      | None \<Rightarrow> (case reserve_from (n + 1) bs of
                   None \<Rightarrow> None
                 | Some (r, bs') \<Rightarrow> Some (r, b # bs')))"
  by (simp only: reserve_from.simps full_byte_skipped)

text \<open>Bit \<open>j\<close> is the lowest clear bit of \<open>bs\<close>, and \<open>bs'\<close> is \<open>bs\<close> with that bit set.\<close>
definition reserves :: "u8 list \<Rightarrow> nat \<Rightarrow> u8 list \<Rightarrow> bool" where
  "reserves bs j bs' \<longleftrightarrow> j < 8 * length bs \<and> \<not> bitmap_bit bs j \<and> (\<forall>i<j. bitmap_bit bs i) \<and>
     length bs' = length bs \<and> (\<forall>i. bitmap_bit bs' i \<longleftrightarrow> bitmap_bit bs i \<or> i = j)"

lemma reserves_here:
  assumes "k < 8" "\<not> bit b k" "\<forall>j<k. bit b j"
  shows "reserves (b # bs) k ((b OR 2 ^ k) # bs)"
  unfolding reserves_def
proof (intro conjI allI impI)
  fix i show "bitmap_bit ((b OR 2 ^ k) # bs) i \<longleftrightarrow> bitmap_bit (b # bs) i \<or> i = k"
    using assms(1) by (cases "i < 8") (simp_all add: bitmap_bit_Cons bit_or_mask)
qed (use assms in \<open>simp_all add: bitmap_bit_Cons\<close>)

lemma reserves_later:
  assumes "\<forall>j<8. bit b j" "reserves bs j bs'"
  shows "reserves (b # bs) (8 + j) (b # bs')"
  unfolding reserves_def
proof (intro conjI allI impI)
  fix i
  show "bitmap_bit (b # bs') i \<longleftrightarrow> bitmap_bit (b # bs) i \<or> i = 8 + j"
    using assms(2) by (cases "i < 8") (auto simp: bitmap_bit_Cons reserves_def)
  show "bitmap_bit (b # bs) i" if "i < 8 + j"
    using that assms by (cases "i < 8") (simp_all add: bitmap_bit_Cons reserves_def)
qed (use assms(2) in \<open>simp_all add: bitmap_bit_Cons reserves_def\<close>)

lemma reserve_from_spec:
  "case reserve_from n bs of
     None \<Rightarrow> \<forall>j < 8 * length bs. bitmap_bit bs j
   | Some (r, bs') \<Rightarrow> \<exists>j. r = n * 8 + j \<and> reserves bs j bs'"
proof (induction bs arbitrary: n)
  case (Cons b bs)
  show ?case
  proof (cases "reserve_bit b [0..<8]")
    case (Some kb)
    then obtain k where kb: "kb = (k, b OR 2 ^ k)" and "k < 8" "\<not> bit b k" "\<forall>j<k. bit b j"
      by (cases kb) (simp add: reserve_bit_Some)
    then have "reserves (b # bs) k ((b OR 2 ^ k) # bs)" by (intro reserves_here)
    then show ?thesis unfolding reserve_from_Cons Some kb by simp
  next
    case None
    then have b: "\<forall>j<8. bit b j" by (simp add: reserve_bit_None)
    show ?thesis
    proof (cases "reserve_from (n + 1) bs")
      case None': None
      then have "bitmap_bit (b # bs) j" if "j < 8 * length (b # bs)" for j
        using Cons.IH[of "n + 1"] b that by (cases "j < 8") (simp_all add: bitmap_bit_Cons)
      then show ?thesis unfolding reserve_from_Cons None None' by simp
    next
      case (Some rb)
      obtain r bs' where rb: "rb = (r, bs')" by (cases rb)
      with Cons.IH[of "n + 1"] Some obtain j where j: "r = (n + 1) * 8 + j" "reserves bs j bs'" by auto
      from reserves_later[OF b j(2)] j(1) show ?thesis
        unfolding reserve_from_Cons None Some rb by (auto intro!: exI[of _ "8 + j"])
    qed
  qed
qed simp

lemma reserve_next_free_Some:
  "reserve_next_free bs = Some (i, bs') \<Longrightarrow> reserves bs i bs'"
  using reserve_from_spec[of bs 0] by (auto simp: reserve_next_free_def)

text \<open>C28: Reserving in a bitmap takes the lowest entry that is not in use: the entry is free
  before, every entry below it is in use, and afterwards exactly that entry has been added to
  those in use. It fails only when every entry is in use.\<close>
theorem reserve_next_free_correct:
  "case reserve_next_free bs of
     None \<Rightarrow> (\<forall>i. bitmap_is_used bs i \<noteq> Some False)
   | Some (i, bs') \<Rightarrow> bitmap_is_used bs i = Some False \<and> (\<forall>j<i. bitmap_is_used bs j = Some True) \<and>
       length bs' = length bs \<and>
       (\<forall>j. bitmap_is_used bs' j = (if j = i then Some True else bitmap_is_used bs j))"
proof (cases "reserve_next_free bs")
  case None
  with reserve_from_spec[of bs 0] show ?thesis by (simp add: reserve_next_free_def bitmap_is_used_eq)
next
  case (Some p)
  obtain i bs' where p: "p = (i, bs')" by (cases p)
  with Some have "reserves bs i bs'" by (intro reserve_next_free_Some) simp
  then show ?thesis by (simp add: Some p bitmap_is_used_eq reserves_def)
qed


definition example_superblock :: superblock where
  "example_superblock = (superblock_of_bytes (replicate 264 0))
     \<lparr>log_block_size := 0, inodes_per_group := 8, sb_inode_size := 128, blocks_count := 64,
      blocks_per_group := 64, first_data_block := 1, magic := MAGIC, rev_level := 1\<rparr>"

lemma example_superblock_fields [simp]:
  "inodes_per_group example_superblock = 8" "sb_inode_size example_superblock = 128"
  "block_size example_superblock = Inr 1024" "first_data_block example_superblock = 1"
  "rev_level example_superblock = 1" "magic example_superblock = MAGIC"
  "blocks_count example_superblock = 64" "blocks_per_group example_superblock = 64"
  by (simp_all add: example_superblock_def block_size_def)

theorem inode_number_round_trip_witness:
  "\<exists>g l. inode_location example_superblock 11 = Inr (g, l) \<and> inode_number example_superblock g l = Inr 11"
  using inode_number_round_trip[of example_superblock] by (auto dest!: spec[of _ 11])

theorem inode_slots_disjoint_witness:
  "\<exists>b off. inode_block_and_offset example_superblock 5 3 = Inr (b, off) \<and> b * 1024 + off = 5 * 1024 + 128 * 3"
  using inode_slots_disjoint[of example_superblock 1024 3 4 5] by auto


theorem reserve_next_free_correct_witness:
  "bitmap_is_used [0xFF, 0x0F] 12 = Some False \<and> bitmap_is_used [0xFF, 0x1F] 12 = Some True"
proof -
  have "reserve_next_free [0xFF, 0x0F] = Some (12, [0xFF, 0x1F])"
    by (simp add: reserve_next_free_def upt_conv_Cons)
  with reserve_next_free_correct[of "[0xFF, 0x0F]"] show ?thesis by simp
qed

end
