(* ===== verification/Block_Device.thy ===== *)
theory Block_Device
  imports Byte_Layout
begin

text \<open>
  Block devices: kernel/src/block.rs. A driver is what implements the trait
  `BlockDeviceDriver`; it is a parameter of everything above it, a record of the
  trait's methods over the state \<open>'d\<close> behind the driver. What file systems rely
  on is \<open>driver_spec\<close>: the driver keeps the bytes of a disk, reads the bytes it
  is asked for and overwrites the bytes it is given. Block sizes and indices are
  the numbers in `BlockSize` and `BlockIndex`.
\<close>

section \<open>Drivers\<close>

record 'd block_driver =
  device_block_size :: nat
  read_device_blocks :: "nat \<Rightarrow> nat \<Rightarrow> 'd \<Rightarrow> u8 list outcome"
  write_device_blocks :: "nat \<Rightarrow> u8 list \<Rightarrow> 'd \<Rightarrow> 'd outcome"

definition driver_spec :: "'d block_driver \<Rightarrow> ('d \<Rightarrow> u8 list) \<Rightarrow> bool" where
  "driver_spec drv contents \<longleftrightarrow>
     0 < device_block_size drv \<and>
     (\<forall>d. fits_usize (length (contents d))) \<and>
     (\<forall>s n d. (s + n) * device_block_size drv \<le> length (contents d) \<longrightarrow>
        read_device_blocks drv s n d =
          Inr (take (n * device_block_size drv) (drop (s * device_block_size drv) (contents d)))) \<and>
     (\<forall>s bs d. length bs mod device_block_size drv = 0 \<longrightarrow>
        s * device_block_size drv + length bs \<le> length (contents d) \<longrightarrow>
        (\<exists>d'. write_device_blocks drv s bs d = Inr d' \<and>
           contents d' = overwrite (s * device_block_size drv) bs (contents d)))"

lemma driver_read:
  assumes "driver_spec drv contents" "s * device_block_size drv = a" "n * device_block_size drv = k"
    and "a + k \<le> length (contents d)"
  shows "read_device_blocks drv s n d = Inr (take k (drop a (contents d)))"
proof -
  have "(s + n) * device_block_size drv \<le> length (contents d)" using assms(2-4) by (simp add: distrib_right)
  with assms(1-3) show ?thesis unfolding driver_spec_def by blast
qed

lemma driver_write:
  assumes "driver_spec drv contents" "s * device_block_size drv = a" "length bs mod device_block_size drv = 0"
    and "a + length bs \<le> length (contents d)"
  shows "\<exists>d'. write_device_blocks drv s bs d = Inr d' \<and> contents d' = overwrite a bs (contents d)"
proof -
  have "s * device_block_size drv + length bs \<le> length (contents d)" using assms(2,4) by simp
  moreover note driver_spec_def[THEN iffD1, OF assms(1), THEN conjunct2, THEN conjunct2, THEN conjunct2, rule_format]
  ultimately show ?thesis using assms(2,3) by fastforce
qed

section \<open>Buffers\<close>

record block_buffer =
  device_start_block :: nat
  device_num_blocks :: nat
  buffer_data :: "u8 list"

definition read_blocks :: "'d block_driver \<Rightarrow> nat \<Rightarrow> nat \<Rightarrow> nat \<Rightarrow> 'd \<Rightarrow> block_buffer outcome" where
  "read_blocks drv block_size start_block num_blocks d =
     and_then (usize_div block_size (device_block_size drv)) (\<lambda>ratio.
     and_then (usize_mul start_block ratio) (\<lambda>start.
     and_then (usize_mul num_blocks (div_ceil block_size (device_block_size drv))) (\<lambda>n.
     and_then (read_device_blocks drv start n d) (\<lambda>bs.
     Inr \<lparr>device_start_block = start, device_num_blocks = n, buffer_data = bs\<rparr>))))"

definition flush_buffer :: "'d block_driver \<Rightarrow> block_buffer \<Rightarrow> 'd \<Rightarrow> 'd outcome" where
  "flush_buffer drv b d =
     and_then (usize_rem (length (buffer_data b)) (device_block_size drv)) (\<lambda>r.
     and_then (assert_that (r = 0)) (\<lambda>_.
     write_device_blocks drv (device_start_block b) (buffer_data b) d))"

text \<open>`into_view`: the buffer, if it is large enough for the type.\<close>
definition into_view :: "'a layout \<Rightarrow> block_buffer \<Rightarrow> block_buffer option" where
  "into_view l b = (case view_new l (buffer_data b) of None \<Rightarrow> None | Some _ \<Rightarrow> Some b)"

text \<open>The value a view dereferences to, and a change through it.\<close>
definition view_get :: "'a layout \<Rightarrow> block_buffer \<Rightarrow> 'a outcome" where
  "view_get l b = view_deref l (buffer_data b)"

definition view_modify :: "'a layout \<Rightarrow> ('a \<Rightarrow> 'a) \<Rightarrow> block_buffer \<Rightarrow> block_buffer outcome" where
  "view_modify l f b =
     and_then (view_update l f (buffer_data b)) (\<lambda>bs. Inr (b\<lparr>buffer_data := bs\<rparr>))"

section \<open>The disk as an array of blocks\<close>

definition disk_block :: "nat \<Rightarrow> nat \<Rightarrow> u8 list \<Rightarrow> u8 list" where
  "disk_block bsz i bs = take bsz (drop (i * bsz) bs)"

definition block_on_disk :: "nat \<Rightarrow> nat \<Rightarrow> u8 list \<Rightarrow> bool" where
  "block_on_disk bsz i bs \<longleftrightarrow> (i + 1) * bsz \<le> length bs"

text \<open>Block sizes that a driver can serve: whole device blocks.\<close>
definition block_size_ok :: "'d block_driver \<Rightarrow> nat \<Rightarrow> bool" where
  "block_size_ok drv bsz \<longleftrightarrow> device_block_size drv dvd bsz \<and> 0 < bsz"

definition buffer_for :: "'d block_driver \<Rightarrow> nat \<Rightarrow> nat \<Rightarrow> u8 list \<Rightarrow> block_buffer" where
  "buffer_for drv bsz i bs =
     \<lparr>device_start_block = i * (bsz div device_block_size drv),
      device_num_blocks = bsz div device_block_size drv, buffer_data = bs\<rparr>"

lemma buffer_data_for [simp]: "buffer_data (buffer_for drv bsz i bs) = bs"
  "(buffer_for drv bsz i bs)\<lparr>buffer_data := cs\<rparr> = buffer_for drv bsz i cs"
  by (simp_all add: buffer_for_def)

lemma length_disk_block: "block_on_disk bsz i bs \<Longrightarrow> length (disk_block bsz i bs) = bsz"
  by (simp add: disk_block_def block_on_disk_def)

lemma block_start: "dbs dvd bsz \<Longrightarrow> i * (bsz div dbs) * dbs = i * (bsz :: nat)"
  by (simp add: mult.assoc dvd_div_mult_self)

text \<open>Blocks one after the other are one stretch of the disk.\<close>
lemma read_blocks_run:
  assumes "driver_spec drv contents" "block_size_ok drv bsz" "(i + n) * bsz \<le> length (contents d)"
  shows "read_blocks drv bsz i n d =
    Inr \<lparr>device_start_block = i * (bsz div device_block_size drv),
      device_num_blocks = n * (bsz div device_block_size drv),
      buffer_data = take (n * bsz) (drop (i * bsz) (contents d))\<rparr>"
proof -
  let ?dbs = "device_block_size drv"
  have dbs: "0 < ?dbs" "?dbs dvd bsz" and fits: "fits_usize (length (contents d))"
    using assms(1,2) by (simp_all add: driver_spec_def block_size_ok_def)
  have ceil: "div_ceil bsz ?dbs = bsz div ?dbs" using dbs(2) by (simp add: div_ceil_def)
  have "i * (bsz div ?dbs) * 1 \<le> (i + n) * (bsz div ?dbs) * ?dbs"
    using dbs(1) by (intro mult_le_mono) simp_all
  moreover have "n * (bsz div ?dbs) * 1 \<le> (i + n) * (bsz div ?dbs) * ?dbs"
    using dbs(1) by (intro mult_le_mono) simp_all
  ultimately have le: "i * (bsz div ?dbs) \<le> length (contents d)" "n * (bsz div ?dbs) \<le> length (contents d)"
    using block_start[OF dbs(2), of "i + n"] assms(3) by linarith+
  have "fits_usize (i * (bsz div ?dbs))" "fits_usize (n * (bsz div ?dbs))"
    using le fits by (simp_all add: fits_usize_iff)
  moreover have "read_device_blocks drv (i * (bsz div ?dbs)) (n * (bsz div ?dbs)) d =
      Inr (take (n * bsz) (drop (i * bsz) (contents d)))"
    using assms(3) block_start[OF dbs(2)] by (intro driver_read[OF assms(1)]) (simp_all add: distrib_right)
  ultimately show ?thesis using dbs by (simp add: read_blocks_def ceil)
qed

lemma read_one_block:
  assumes "driver_spec drv contents" "block_size_ok drv bsz" "block_on_disk bsz i (contents d)"
  shows "read_blocks drv bsz i 1 d = Inr (buffer_for drv bsz i (disk_block bsz i (contents d)))"
  using read_blocks_run[OF assms(1,2), of i 1 d] assms(3)
  by (simp add: block_on_disk_def buffer_for_def disk_block_def)

lemma flush_one_block:
  assumes "driver_spec drv contents" "block_size_ok drv bsz" "block_on_disk bsz i (contents d)" "length bs = bsz"
  shows "\<exists>d'. flush_buffer drv (buffer_for drv bsz i bs) d = Inr d' \<and>
    contents d' = overwrite (i * bsz) bs (contents d)"
proof -
  have dbs: "0 < device_block_size drv" "device_block_size drv dvd bsz"
    using assms(1,2) by (simp_all add: driver_spec_def block_size_ok_def)
  have "bsz mod device_block_size drv = 0" using dbs(2) by simp
  moreover have "i * bsz + length bs \<le> length (contents d)"
    using assms(3,4) by (simp add: block_on_disk_def)
  ultimately have "\<exists>d'. write_device_blocks drv (i * (bsz div device_block_size drv)) bs d = Inr d' \<and>
      contents d' = overwrite (i * bsz) bs (contents d)"
    using assms(4) block_start[OF dbs(2), of i] by (intro driver_write[OF assms(1)]) simp_all
  with assms(4) dbs show ?thesis by (simp add: flush_buffer_def buffer_for_def)
qed

lemma disk_block_overwrite:
  assumes "block_on_disk bsz i bs" "length new = bsz"
  shows "disk_block bsz j (overwrite (i * bsz) new bs) = (if j = i then new else disk_block bsz j bs)"
proof -
  have on: "i * bsz + length new \<le> length bs" using assms by (simp add: block_on_disk_def)
  show ?thesis
  proof (cases "j = i")
    case True
    then show ?thesis using slice_overwrite_same[OF on] assms(2) by (simp add: disk_block_def)
  next
    case False
    then show ?thesis
      using slice_overwrite_other[OF on, of "j * bsz" bsz] multiples_apart[of i j bsz] assms(2)
      by (auto simp: disk_block_def)
  qed
qed

text \<open>Buffers are a write-back view of the disk's blocks. On a driver that meets its
  contract, with a block size of whole device blocks, reading block \<open>i\<close> of the disk gives
  its bytes, and flushing the buffer with other bytes of that length succeeds, after which
  block \<open>i\<close> reads back as those bytes and every other block and the size of the disk are
  unchanged.\<close>
theorem block_buffer_round_trip:
  assumes "driver_spec drv contents" "block_size_ok drv bsz" "block_on_disk bsz i (contents d)"
    and "length new = bsz" "block_on_disk bsz j (contents d)"
  shows "\<exists>b d'. read_blocks drv bsz i 1 d = Inr b \<and> buffer_data b = disk_block bsz i (contents d) \<and>
    flush_buffer drv (b\<lparr>buffer_data := new\<rparr>) d = Inr d' \<and>
    length (contents d') = length (contents d) \<and>
    (\<exists>c. read_blocks drv bsz j 1 d' = Inr c \<and>
       buffer_data c = (if j = i then new else disk_block bsz j (contents d)))"
proof -
  note read = read_one_block[OF assms(1-3)]
  from flush_one_block[OF assms(1-4)] obtain d' where
    d': "flush_buffer drv (buffer_for drv bsz i new) d = Inr d'" "contents d' = overwrite (i * bsz) new (contents d)"
    by auto
  have "i * bsz + length new \<le> length (contents d)" using assms(3,4) by (simp add: block_on_disk_def)
  then have len: "length (contents d') = length (contents d)" by (simp add: d'(2))
  then have "block_on_disk bsz j (contents d')" using assms(5) by (simp add: block_on_disk_def)
  from read_one_block[OF assms(1,2) this] show ?thesis
    using read d' len disk_block_overwrite[OF assms(3,4), of j] by simp
qed

section \<open>A driver over memory\<close>

text \<open>A driver that keeps its sectors in memory; it shows that the contract can be met.\<close>
definition memory_driver :: "u8 list block_driver" where
  "memory_driver =
     \<lparr>device_block_size = 512,
      read_device_blocks = (\<lambda>s n d. if (s + n) * 512 \<le> length d then Inr (take (n * 512) (drop (s * 512) d))
         else Inl ExplicitPanic),
      write_device_blocks = (\<lambda>s bs d. if s * 512 + length bs \<le> length d then Inr (overwrite (s * 512) bs d)
         else Inl ExplicitPanic)\<rparr>"

definition memory_contents :: "u8 list \<Rightarrow> u8 list" where
  "memory_contents d = (if fits_usize (length d) then d else [])"

lemma memory_driver_spec: "driver_spec memory_driver memory_contents"
  by (auto simp: driver_spec_def memory_driver_def memory_contents_def fits_usize_iff overwrite_def)

theorem block_buffer_round_trip_witness:
  "\<exists>b d'. read_blocks memory_driver 1024 1 1 (replicate 4096 0) = Inr b \<and>
    flush_buffer memory_driver (b\<lparr>buffer_data := replicate 1024 7\<rparr>) (replicate 4096 0) = Inr d' \<and>
    (\<exists>c. read_blocks memory_driver 1024 1 1 d' = Inr c \<and> buffer_data c = replicate 1024 7)"
proof -
  have fits: "fits_usize 4096" by (simp add: fits_usize_def)
  have "block_size_ok memory_driver 1024" by (simp add: block_size_ok_def memory_driver_def)
  moreover have "block_on_disk 1024 1 (memory_contents (replicate 4096 0))"
    by (simp add: block_on_disk_def memory_contents_def fits)
  ultimately show ?thesis
    using block_buffer_round_trip[OF memory_driver_spec, of 1024 1 "replicate 4096 0" "replicate 1024 7" 1]
    by auto
qed

end
