(* ===== verification/Rust_Strings.thy ===== *)
theory Rust_Strings
  imports Prelude
begin

text \<open>
  Strings as the kernel reads them from bytes: `core::str::from_utf8`, and the
  two readers of nul-terminated strings, kernel/src/strings.rs and
  kernel/src/fs/ext2/strings.rs. A `str` is the list of its bytes.
\<close>

section \<open>UTF-8\<close>

definition continuation :: "u8 \<Rightarrow> bool" where
  "continuation b \<longleftrightarrow> 0x80 \<le> b \<and> b \<le> 0xBF"

text \<open>The well-formed byte sequences of the Unicode standard: no overlong forms, no
  surrogates and nothing above U+10FFFF.\<close>
fun valid_utf8 :: "u8 list \<Rightarrow> bool" where
  "valid_utf8 [] = True"
| "valid_utf8 (a # bs) =
     (if a < 0x80 then valid_utf8 bs
      else if 0xC2 \<le> a \<and> a \<le> 0xDF then
        (case bs of b # rest \<Rightarrow> continuation b \<and> valid_utf8 rest | _ \<Rightarrow> False)
      else if 0xE0 \<le> a \<and> a \<le> 0xEF then
        (case bs of
           b # c # rest \<Rightarrow>
             continuation b \<and> (a = 0xE0 \<longrightarrow> 0xA0 \<le> b) \<and> (a = 0xED \<longrightarrow> b \<le> 0x9F) \<and>
             continuation c \<and> valid_utf8 rest
         | _ \<Rightarrow> False)
      else if 0xF0 \<le> a \<and> a \<le> 0xF4 then
        (case bs of
           b # c # d # rest \<Rightarrow>
             continuation b \<and> (a = 0xF0 \<longrightarrow> 0x90 \<le> b) \<and> (a = 0xF4 \<longrightarrow> b \<le> 0x8F) \<and>
             continuation c \<and> continuation d \<and> valid_utf8 rest
         | _ \<Rightarrow> False)
      else False)"

definition bytes_of_string :: "string \<Rightarrow> u8 list" where
  "bytes_of_string s = map (\<lambda>c. of_nat (of_char c)) s"

text \<open>`from_utf8(bytes).unwrap_or(default)`.\<close>
definition from_utf8_or :: "u8 list \<Rightarrow> u8 list \<Rightarrow> u8 list" where
  "from_utf8_or dflt bs = (if valid_utf8 bs then bs else dflt)"

lemma valid_utf8_ascii: "list_all (\<lambda>b. b < 0x80) bs \<Longrightarrow> valid_utf8 bs"
  by (induction bs) simp_all

section \<open>Nul-terminated strings\<close>

definition c_str_from_bytes :: "u8 list \<Rightarrow> u8 list" where
  "c_str_from_bytes bs =
     (let nul = (case find (\<lambda>i. bs ! i = 0) [0..<length bs] of None \<Rightarrow> length bs | Some i \<Rightarrow> i)
      in from_utf8_or (bytes_of_string ''<invalid UTF-8>'') (take nul bs))"

text \<open>The length of the string at a pointer, at most \<open>max_size\<close>; \<open>mem\<close> are the bytes from
  the pointer on that may be read.\<close>
fun c_str_len :: "u8 list \<Rightarrow> nat \<Rightarrow> nat outcome" where
  "c_str_len mem 0 = Inr 0"
| "c_str_len [] (Suc n) = Inl UndefinedBehaviour"
| "c_str_len (c # mem) (Suc n) =
     (if c = 0 then Inr 0 else and_then (c_str_len mem n) (\<lambda>k. Inr (k + 1)))"

definition c_str_from_pointer :: "u8 list \<Rightarrow> nat \<Rightarrow> u8 list outcome" where
  "c_str_from_pointer mem max_size =
     and_then (c_str_len mem max_size) (\<lambda>n.
     Inr (from_utf8_or (bytes_of_string ''<invalid utf8>'') (take n mem)))"

text \<open>Both readers stop at the first nul byte.\<close>
lemma find_nul:
  "(case find (\<lambda>i. bs ! i = 0) [0..<length bs] of None \<Rightarrow> length bs | Some i \<Rightarrow> i) =
     length (takeWhile (\<lambda>b. b \<noteq> 0) bs)" for bs :: "u8 list"
proof (cases "find (\<lambda>i. bs ! i = 0) [0..<length bs]")
  case None
  then have "b \<noteq> 0" if "b \<in> set bs" for b
    using that by (auto simp: find_None_iff in_set_conv_nth)
  then have "takeWhile (\<lambda>b. b \<noteq> 0) bs = bs" by (simp add: takeWhile_eq_all_conv)
  with None show ?thesis by (simp only: option.case)
next
  case (Some i)
  then have i: "i < length bs" "bs ! i = 0" "\<forall>j<i. bs ! j \<noteq> 0"
    by (auto simp: find_Some_iff)
  then have "takeWhile (\<lambda>b. b \<noteq> 0) bs = take i bs" by (intro takeWhile_eq_take_P_nth) auto
  with Some i(1) show ?thesis by simp
qed

lemma c_str_from_bytes_eq:
  "c_str_from_bytes bs = from_utf8_or (bytes_of_string ''<invalid UTF-8>'') (takeWhile (\<lambda>b. b \<noteq> 0) bs)"
  unfolding c_str_from_bytes_def Let_def find_nul takeWhile_eq_take[symmetric] ..

lemma c_str_len_eq:
  "n \<le> length mem \<or> 0 \<in> set mem \<Longrightarrow> c_str_len mem n = Inr (min n (length (takeWhile (\<lambda>b. b \<noteq> 0) mem)))"
  by (induction mem n rule: c_str_len.induct) auto

end
