(* ===== verification/Ext2_Directory.thy ===== *)
theory Ext2_Directory
  imports Ext2_Structures Block_Device Rust_Strings
begin

text \<open>
  Directory blocks: kernel/src/fs/ext2/directory.rs. A block is a chain of
  entries, each a header, a name and padding; the header's `rec_len` leads to the
  next entry. Raw pointer accesses of the source are undefined behaviour outside
  the block. The scan of a block takes fuel, one more than the block has bytes:
  every entry with a positive `rec_len` consumes a byte, and with a zero
  `rec_len` the loop of the source never ends.
\<close>

section \<open>Entries\<close>

datatype directory_entry_file_type =
  UnknownType | RegularFile | Directory | CharacterDevice | BlockDevice | Fifo | Socket | SymbolicLink

fun file_type_code :: "directory_entry_file_type \<Rightarrow> u8" where
  "file_type_code UnknownType = 0"
| "file_type_code RegularFile = 1"
| "file_type_code Directory = 2"
| "file_type_code CharacterDevice = 3"
| "file_type_code BlockDevice = 4"
| "file_type_code Fifo = 5"
| "file_type_code Socket = 6"
| "file_type_code SymbolicLink = 7"

definition file_type_from :: "u8 \<Rightarrow> directory_entry_file_type outcome" where
  "file_type_from raw =
     (if raw = file_type_code UnknownType then Inr UnknownType
      else if raw = file_type_code RegularFile then Inr RegularFile
      else if raw = file_type_code Directory then Inr Directory
      else if raw = file_type_code CharacterDevice then Inr CharacterDevice
      else if raw = file_type_code BlockDevice then Inr BlockDevice
      else if raw = file_type_code Fifo then Inr Fifo
      else if raw = file_type_code Socket then Inr Socket
      else if raw = file_type_code SymbolicLink then Inr SymbolicLink
      else Inl ExplicitPanic)"

text \<open>`usize::next_multiple_of`.\<close>
definition next_multiple_of :: "nat \<Rightarrow> nat \<Rightarrow> nat" where
  "next_multiple_of n m = (if n mod m = 0 then n else n + (m - n mod m))"

definition HEADER_SIZE :: nat where "HEADER_SIZE = 8"

definition header_new :: "nat \<Rightarrow> u8 list \<Rightarrow> directory_entry_file_type \<Rightarrow> directory_entry_header" where
  "header_new inode name file_type =
     \<lparr>header_inode = of_nat inode, rec_len = 0, name_len = of_nat (length name),
      raw_file_type = file_type_code file_type\<rparr>"

definition header_from_bytes :: "u8 list \<Rightarrow> directory_entry_header outcome" where
  "header_from_bytes bs = expect (try_cast_bytes_ref header_layout bs)"

definition required_space :: "directory_entry_header \<Rightarrow> nat" where
  "required_space h = next_multiple_of (HEADER_SIZE + unat (name_len h)) 4"

text \<open>An entry is the bytes from its start to the end of the block.\<close>
definition entry_name :: "u8 list \<Rightarrow> u8 list outcome" where
  "entry_name bs =
     and_then (header_from_bytes bs) (\<lambda>h.
     and_then (slice_range bs HEADER_SIZE (HEADER_SIZE + unat (name_len h))) (\<lambda>name.
     Inr (from_utf8_or (bytes_of_string ''<invalid utf8>'') name)))"

definition entry_inode_number :: "u8 list \<Rightarrow> nat outcome" where
  "entry_inode_number bs = and_then (header_from_bytes bs) (\<lambda>h. Inr (unat (header_inode h)))"

definition entry_file_type :: "u8 list \<Rightarrow> directory_entry_file_type outcome" where
  "entry_file_type bs = and_then (header_from_bytes bs) (\<lambda>h. file_type_from (raw_file_type h))"

definition entry_is_file :: "u8 list \<Rightarrow> bool outcome" where
  "entry_is_file bs = and_then (entry_file_type bs) (\<lambda>t. Inr (t = RegularFile))"

definition entry_is_dir :: "u8 list \<Rightarrow> bool outcome" where
  "entry_is_dir bs = and_then (entry_file_type bs) (\<lambda>t. Inr (t = Directory))"

section \<open>Blocks\<close>

record directory_block =
  dir_buffer :: block_buffer
  entry_locations :: "nat list"

text \<open>The scanning loop; \<open>None\<close> when the fuel is spent.\<close>
fun scan_entries :: "nat \<Rightarrow> u8 list \<Rightarrow> nat \<Rightarrow> nat list outcome option" where
  "scan_entries 0 bs off = None"
| "scan_entries (Suc fuel) bs off =
     (if off < length bs then
        case and_then (slice_from bs off) header_from_bytes of
          Inl e \<Rightarrow> Some (Inl e)
        | Inr h \<Rightarrow>
            (case scan_entries fuel bs (off + unat (rec_len h)) of
               None \<Rightarrow> None
             | Some r \<Rightarrow> Some (and_then r (\<lambda>ls. Inr (off # ls))))
      else Some (Inr []))"

definition from_existing_block :: "block_buffer \<Rightarrow> directory_block outcome" where
  "from_existing_block b =
     (case scan_entries (length (buffer_data b) + 1) (buffer_data b) 0 of
        None \<Rightarrow> Inl Diverges
      | Some r \<Rightarrow> and_then r (\<lambda>ls. Inr \<lparr>dir_buffer = b, entry_locations = ls\<rparr>))"

definition load_entry_from_location :: "directory_block \<Rightarrow> nat \<Rightarrow> u8 list outcome" where
  "load_entry_from_location db l = slice_from (buffer_data (dir_buffer db)) l"

fun load_entries :: "directory_block \<Rightarrow> nat list \<Rightarrow> u8 list list outcome" where
  "load_entries db [] = Inr []"
| "load_entries db (l # ls) =
     and_then (load_entry_from_location db l) (\<lambda>e.
     and_then (load_entries db ls) (\<lambda>es. Inr (e # es)))"

definition iter_entries :: "directory_block \<Rightarrow> u8 list list outcome" where
  "iter_entries db = load_entries db (entry_locations db)"

text \<open>`find_map` over the entries: the first with room for \<open>need\<close> more bytes.\<close>
fun find_room :: "directory_block \<Rightarrow> nat \<Rightarrow> nat \<Rightarrow> nat list \<Rightarrow> (nat \<times> nat) option outcome" where
  "find_room db need i [] = Inr None"
| "find_room db need i (l # ls) =
     and_then (load_entry_from_location db l) (\<lambda>e.
     and_then (header_from_bytes e) (\<lambda>h.
     and_then (usize_sub (unat (rec_len h)) (required_space h)) (\<lambda>room.
     if need \<le> room then Inr (Some (i, l)) else find_room db need (i + 1) ls)))"

definition vec_insert :: "nat \<Rightarrow> 'a \<Rightarrow> 'a list \<Rightarrow> 'a list outcome" where
  "vec_insert i x xs =
     (if i \<le> length xs then Inr (take i xs @ x # drop i xs) else Inl IndexOutOfBounds)"

text \<open>The surgery on the block's bytes: the header found is shortened to the space it needs,
  and the new header and name are written behind it.\<close>
definition insert_after ::
  "nat \<Rightarrow> directory_entry_header \<Rightarrow> u8 list \<Rightarrow> u8 list \<Rightarrow> (nat \<times> u8 list) outcome" where
  "insert_after loc new_header name bs =
     and_then (slice_from bs loc) (\<lambda>found.
     and_then (if HEADER_SIZE \<le> length found then header_from_bytes found else Inl UndefinedBehaviour) (\<lambda>h.
     let short = h\<lparr>rec_len := of_nat (required_space h)\<rparr> in
     and_then (write_raw loc (encode header_layout short) bs) (\<lambda>bs1.
     let new_loc = loc + unat (rec_len short) in
     and_then (usize_sub (unat (rec_len h)) (unat (rec_len short))) (\<lambda>rest.
     and_then (slice_from bs1 new_loc) (\<lambda>_.
     and_then (write_raw new_loc (encode header_layout (new_header\<lparr>rec_len := of_nat rest\<rparr>)) bs1) (\<lambda>bs2.
     and_then (write_raw (new_loc + HEADER_SIZE) name bs2) (\<lambda>bs3.
     Inr (new_loc, bs3))))))))"

definition insert_entry ::
  "u8 list \<Rightarrow> nat \<Rightarrow> directory_entry_file_type \<Rightarrow> directory_block \<Rightarrow>
     (u8 list option \<times> directory_block) outcome" where
  "insert_entry name inode_num entry_type db =
     (let new_header = header_new inode_num name entry_type in
      and_then (find_room db (required_space new_header) 0 (entry_locations db)) (\<lambda>found.
      case found of
        None \<Rightarrow> Inr (None, db)
      | Some (i, loc) \<Rightarrow>
          and_then (insert_after loc new_header name (buffer_data (dir_buffer db))) (\<lambda>(new_loc, bs).
          and_then (vec_insert i new_loc (entry_locations db)) (\<lambda>ls.
          let db' = \<lparr>dir_buffer = (dir_buffer db)\<lparr>buffer_data := bs\<rparr>, entry_locations = ls\<rparr> in
          and_then (load_entry_from_location db' new_loc) (\<lambda>e.
          Inr (Some e, db'))))))"

definition flush_directory :: "'d block_driver \<Rightarrow> directory_block \<Rightarrow> 'd \<Rightarrow> 'd outcome" where
  "flush_directory drv db d = flush_buffer drv (dir_buffer db) d"

section \<open>Scanning\<close>

text \<open>The header at a place in the block, and the chain of entries that ext2 prescribes:
  each has room for its name, none passes the end, and the last ends the block.\<close>
definition header_at :: "u8 list \<Rightarrow> nat \<Rightarrow> directory_entry_header" where
  "header_at bs off = header_of_bytes (take 8 (drop off bs))"

definition entry_ok :: "u8 list \<Rightarrow> nat \<Rightarrow> bool" where
  "entry_ok bs off \<longleftrightarrow>
     required_space (header_at bs off) \<le> unat (rec_len (header_at bs off)) \<and>
     off + unat (rec_len (header_at bs off)) \<le> length bs"

inductive entries_from :: "u8 list \<Rightarrow> nat \<Rightarrow> nat list \<Rightarrow> bool" for bs where
  entries_end: "entries_from bs (length bs) []"
| entries_step: "entry_ok bs off \<Longrightarrow> entries_from bs (off + unat (rec_len (header_at bs off))) ls \<Longrightarrow>
    entries_from bs off (off # ls)"

inductive_cases entries_from_ConsE: "entries_from bs off (l # ls)"
inductive_cases entries_from_NilE: "entries_from bs off []"

text \<open>An entry as a user sees it: inode, name and type code.\<close>
definition entry_view :: "u8 list \<Rightarrow> nat \<Rightarrow> u32 \<times> u8 list \<times> u8" where
  "entry_view bs off =
     (let h = header_at bs off
      in (header_inode h, take (unat (name_len h)) (drop (off + 8) bs), raw_file_type h))"

lemma next_multiple_of_ge: "n \<le> next_multiple_of n m"
  by (simp add: next_multiple_of_def)

lemma next_multiple_of_less: "0 < m \<Longrightarrow> next_multiple_of n m < n + m"
  using mod_less_divisor[of m n] by (auto simp: next_multiple_of_def)

lemma required_space_bounds: "8 + unat (name_len h) \<le> required_space h" "required_space h < 267"
proof -
  show "8 + unat (name_len h) \<le> required_space h"
    using next_multiple_of_ge by (simp add: required_space_def HEADER_SIZE_def)
  have "unat (name_len h) < 256" using unsigned_less[of "name_len h"] by simp
  then show "required_space h < 267"
    using next_multiple_of_less[of 4 "8 + unat (name_len h)"] by (simp add: required_space_def HEADER_SIZE_def)
qed

lemma entry_ok_bounds:
  assumes "entry_ok bs off"
  shows "off + 8 + unat (name_len (header_at bs off)) \<le> length bs" "off + 8 \<le> length bs"
    "8 + unat (name_len (header_at bs off)) \<le> unat (rec_len (header_at bs off))"
  using assms required_space_bounds(1)[of "header_at bs off"] by (simp_all add: entry_ok_def)

lemma header_from_slice:
  "off + 8 \<le> length bs \<Longrightarrow> header_from_bytes (drop off bs) = Inr (header_at bs off)"
  by (simp add: header_from_bytes_def try_cast_bytes_ref_def header_layout_def header_at_def)

lemma scan_step:
  assumes "off + 8 \<le> length bs"
  shows "scan_entries (Suc fuel) bs off =
    (case scan_entries fuel bs (off + unat (rec_len (header_at bs off))) of
       None \<Rightarrow> None | Some r \<Rightarrow> Some (and_then r (\<lambda>ls. Inr (off # ls))))"
  using assms by (simp add: header_from_slice)

lemma scan_entries_ok:
  assumes "entries_from bs off ls" "length bs < off + fuel"
  shows "scan_entries fuel bs off = Some (Inr ls)"
  using assms
proof (induction arbitrary: fuel)
  case entries_end
  then obtain f where "fuel = Suc f" by (cases fuel) auto
  then show ?case by simp
next
  case (entries_step off ls)
  then obtain f where f: "fuel = Suc f" using entry_ok_bounds(2)[OF entries_step.hyps(1)] by (cases fuel) auto
  note b = entry_ok_bounds[OF entries_step.hyps(1)]
  have "scan_entries f bs (off + unat (rec_len (header_at bs off))) = Some (Inr ls)"
    using entries_step.prems f b(3) by (intro entries_step.IH) simp
  then show ?case unfolding f scan_step[OF b(2)] by simp
qed

lemma scan_zero_rec_len:
  assumes "off + 8 \<le> length bs" "rec_len (header_at bs off) = 0"
  shows "scan_entries fuel bs off = None"
  using assms by (induction fuel) (simp_all only: scan_entries.simps(1) scan_step unsigned_0 add_0_right option.case)

text \<open>As much fuel as there are bytes left is enough, if any amount is.\<close>
lemma scan_entries_enough:
  "scan_entries fuel bs off = Some r \<Longrightarrow> length bs - off < fuel' \<Longrightarrow> scan_entries fuel' bs off = Some r"
proof (induction fuel arbitrary: fuel' off r)
  case (Suc fuel)
  then obtain f where f: "fuel' = Suc f" by (cases fuel') auto
  show ?case
  proof (cases "off < length bs \<and> off + 8 \<le> length bs")
    case True
    then have "rec_len (header_at bs off) \<noteq> 0" using scan_zero_rec_len[of off bs "Suc fuel"] Suc.prems(1) by auto
    then have "0 < unat (rec_len (header_at bs off))" by (simp add: unat_gt_0)
    then have "length bs - (off + unat (rec_len (header_at bs off))) < f" using Suc.prems(2) f True by linarith
    with Suc.IH[of "off + unat (rec_len (header_at bs off))" _ f] Suc.prems(1) show ?thesis
      unfolding f scan_step[OF True[THEN conjunct2]] by (auto split: option.splits)
  next
    case False
    then have "scan_entries (Suc fuel) bs off = scan_entries (Suc f) bs off"
      by (auto simp: header_from_bytes_def try_cast_bytes_ref_def header_layout_def)
    with Suc.prems(1) f show ?thesis by simp
  qed
qed simp

lemma scan_no_diverges: "scan_entries fuel bs off \<noteq> Some (Inl Diverges)"
proof (induction fuel arbitrary: off)
  case (Suc fuel)
  have "header_from_bytes cs \<noteq> Inl Diverges" for cs
    by (cases "try_cast_bytes_ref header_layout cs") (simp_all add: header_from_bytes_def)
  with Suc show ?case
    by (auto simp: and_then_def slice_from_def split: if_splits sum.splits option.splits)
qed simp


section \<open>Inserting an entry\<close>

text \<open>The entry at \<open>loc\<close> of \<open>bs\<close> was divided at \<open>mid\<close>: \<open>bs'\<close> has an entry from \<open>loc\<close> to
  \<open>mid\<close> and one from there to where the old one ended, and is the same outside.\<close>
definition entry_divided :: "u8 list \<Rightarrow> nat \<Rightarrow> nat \<Rightarrow> u8 list \<Rightarrow> bool" where
  "entry_divided bs loc mid bs' \<longleftrightarrow>
     length bs' = length bs \<and> entry_ok bs' loc \<and> loc + unat (rec_len (header_at bs' loc)) = mid \<and>
     entry_ok bs' mid \<and>
     mid + unat (rec_len (header_at bs' mid)) = loc + unat (rec_len (header_at bs loc)) \<and>
     (\<forall>p n. p + n \<le> loc \<or> loc + unat (rec_len (header_at bs loc)) \<le> p \<longrightarrow>
        take n (drop p bs') = take n (drop p bs))"

lemma header_at_same: "take 8 (drop p bs') = take 8 (drop p bs) \<Longrightarrow> header_at bs' p = header_at bs p"
  by (simp add: header_at_def)

lemma entries_from_ge: "entries_from bs off ls \<Longrightarrow> l \<in> set ls \<Longrightarrow> off \<le> l \<and> entry_ok bs l"
  by (induction rule: entries_from.induct) auto

lemma entries_from_tail_same:
  assumes "entries_from bs off ls" "length bs' = length bs"
    and "\<And>p n. off \<le> p \<Longrightarrow> take n (drop p bs') = take n (drop p bs)"
  shows "entries_from bs' off ls"
  using assms
proof (induction)
  case entries_end
  then show ?case by (metis entries_from.entries_end)
next
  case (entries_step off ls)
  have "header_at bs' off = header_at bs off" using entries_step.prems(2) by (intro header_at_same) simp
  moreover have "entries_from bs' (off + unat (rec_len (header_at bs off))) ls"
    using entries_step.prems by (intro entries_step.IH) simp_all
  ultimately show ?case using entries_step.hyps(1) entries_step.prems(1)
    by (intro entries_from.entries_step) (simp_all add: entry_ok_def)
qed

lemma entries_divided:
  assumes "entries_from bs off ls" "k < length ls" "entry_divided bs (ls ! k) mid bs'"
  shows "entries_from bs' off (take (k + 1) ls @ mid # drop (k + 1) ls)"
  using assms
proof (induction arbitrary: k)
  case (entries_step off ls)
  let ?stop = "off + unat (rec_len (header_at bs off))"
  note div = entries_step.prems(2)[unfolded entry_divided_def]
  show ?case
  proof (cases k)
    case 0
    have "entries_from bs' ?stop ls"
      using div 0 by (intro entries_from_tail_same[OF entries_step.hyps(2)]) auto
    then have "entries_from bs' mid (mid # ls)" using div 0 by (intro entries_from.entries_step) simp_all
    then show ?thesis using div 0 by (simp add: entries_from.entries_step)
  next
    case (Suc k')
    have le: "?stop \<le> ls ! k'"
      using entries_from_ge[OF entries_step.hyps(2), of "ls ! k'"] entries_step.prems(1) Suc by simp
    note b = entry_ok_bounds(3)[OF entries_step.hyps(1)]
    have "take 8 (drop off bs') = take 8 (drop off bs)" using div Suc le b by simp
    then have same: "header_at bs' off = header_at bs off" by (rule header_at_same)
    have "entries_from bs' ?stop (take (k' + 1) ls @ mid # drop (k' + 1) ls)"
      using entries_step.prems Suc by (intro entries_step.IH) simp_all
    then have "entries_from bs' off (off # take (k' + 1) ls @ mid # drop (k' + 1) ls)"
      using entries_step.hyps(1) div same by (intro entries_from.entries_step) (simp_all add: entry_ok_def)
    then show ?thesis using Suc by simp
  qed
qed simp

lemma header_encode [simp]:
  "length (encode header_layout h) = 8" "header_of_bytes (encode header_layout h) = h"
  using header.length_encode[of h] header.decode_encode[of h]
  by (simp_all add: header_valid_def header_layout_def)

text \<open>What \<open>insert_after\<close> writes is one stretch, from the shortened header to the new name.\<close>
definition divided_bytes :: "u8 list \<Rightarrow> nat \<Rightarrow> directory_entry_header \<Rightarrow> u8 list \<Rightarrow> u8 list" where
  "divided_bytes bs loc new_header name =
     (let h = header_at bs loc; req = required_space h in
      encode header_layout (h\<lparr>rec_len := of_nat req\<rparr>) @ take (req - 8) (drop (loc + 8) bs) @
      encode header_layout (new_header\<lparr>rec_len := of_nat (unat (rec_len h) - req)\<rparr>) @ name)"

lemma insert_after_eq:
  assumes "entry_ok bs loc" "unat (rec_len (header_at bs loc)) \<ge> required_space (header_at bs loc) + 8 + length name"
  shows "insert_after loc new_header name bs =
    Inr (loc + required_space (header_at bs loc), overwrite loc (divided_bytes bs loc new_header name) bs)"
proof -
  define h where "h = header_at bs loc"
  define req where "req = required_space h"
  let ?s = "encode header_layout (h\<lparr>rec_len := of_nat req\<rparr>)"
  let ?n = "encode header_layout (new_header\<lparr>rec_len := of_nat (unat (rec_len h) - req)\<rparr>)"
  have req: "8 \<le> req" "unat (of_nat req :: u16) = req"
    using required_space_bounds[of h] by (simp_all add: req_def unat_of_nat_small)
  have len: "loc + req + 8 + length name \<le> length bs" "req + 8 + length name \<le> unat (rec_len h)"
    using assms by (simp_all add: entry_ok_def h_def req_def)
  let ?m = "take (req - 8) (drop (loc + 8) bs)"
  have m: "length ?m = req - 8" using len req by simp
  have "overwrite (loc + req) (?n @ name) (overwrite loc ?s bs) =
      overwrite (loc + req) (?n @ name) (overwrite loc (?s @ ?m) bs)"
    using overwrite_extend[of loc ?s "req - 8" bs] len req by simp
  also have "\<dots> = overwrite loc ((?s @ ?m) @ ?n @ name) bs"
    using overwrite_append[of loc "?s @ ?m" "?n @ name" bs] len req m by simp
  finally have one: "overwrite (loc + req) (?n @ name) (overwrite loc ?s bs) =
      overwrite loc (divided_bytes bs loc new_header name) bs"
    by (simp add: divided_bytes_def h_def req_def Let_def)
  have "overwrite (loc + req + 8) name (overwrite (loc + req) ?n (overwrite loc ?s bs)) =
      overwrite (loc + req) (?n @ name) (overwrite loc ?s bs)"
    using overwrite_append[of "loc + req" ?n name "overwrite loc ?s bs"] len by simp
  with one show ?thesis
    using len req header_from_slice[of loc bs]
    by (simp add: insert_after_def HEADER_SIZE_def Let_def h_def[symmetric] req_def[symmetric] add.assoc)
qed

lemma divided_reads:
  fixes bs loc new_header name
  defines "h \<equiv> header_at bs loc" and "req \<equiv> required_space (header_at bs loc)"
    and "bs' \<equiv> overwrite loc (divided_bytes bs loc new_header name) bs"
  assumes "entry_ok bs loc" "req + 8 + length name \<le> unat (rec_len h)"
  shows "header_at bs' loc = h\<lparr>rec_len := of_nat req\<rparr>"
    and "header_at bs' (loc + req) = new_header\<lparr>rec_len := of_nat (unat (rec_len h) - req)\<rparr>"
    and "take (length name) (drop (loc + req + 8) bs') = name"
    and "take (unat (name_len h)) (drop (loc + 8) bs') = take (unat (name_len h)) (drop (loc + 8) bs)"
    and "length bs' = length bs"
    and "p + n \<le> loc \<or> loc + unat (rec_len h) \<le> p \<Longrightarrow> take n (drop p bs') = take n (drop p bs)"
proof -
  have req: "8 + unat (name_len h) \<le> req" using required_space_bounds[of h] by (simp add: req_def h_def)
  have len: "loc + unat (rec_len h) \<le> length bs" using assms(4) by (simp add: entry_ok_def h_def)
  let ?new = "divided_bytes bs loc new_header name"
  have new: "?new = encode header_layout (h\<lparr>rec_len := of_nat req\<rparr>) @ take (req - 8) (drop (loc + 8) bs) @
      encode header_layout (new_header\<lparr>rec_len := of_nat (unat (rec_len h) - req)\<rparr>) @ name"
    by (simp add: divided_bytes_def h_def req_def Let_def)
  have lm: "length (take (req - 8) (drop (loc + 8) bs)) = req - 8" using len assms(5) by simp
  have ln: "length ?new = req + 8 + length name" using req lm by (simp add: new)
  then have on: "loc + length ?new \<le> length bs" using len assms(5) by simp
  note inside = slice_overwrite_inside[OF on]
  have "take 8 (drop loc bs') = encode header_layout (h\<lparr>rec_len := of_nat req\<rparr>)"
    using inside[of 0 8] ln by (simp add: bs'_def) (simp add: new)
  then show "header_at bs' loc = h\<lparr>rec_len := of_nat req\<rparr>" by (simp add: header_at_def)
  have "take 8 (drop (loc + req) bs') = encode header_layout (new_header\<lparr>rec_len := of_nat (unat (rec_len h) - req)\<rparr>)"
    using inside[of req 8] ln req lm by (simp add: bs'_def) (simp add: new)
  then show "header_at bs' (loc + req) = new_header\<lparr>rec_len := of_nat (unat (rec_len h) - req)\<rparr>"
    by (simp add: header_at_def)
  show "take (length name) (drop (loc + req + 8) bs') = name"
    using inside[of "req + 8" "length name"] ln req lm by (simp add: bs'_def add.assoc) (simp add: new)
  have "take (unat (name_len h)) (drop 8 ?new) = take (unat (name_len h)) (drop (loc + 8) bs)"
    using req lm by (simp add: new)
  then show "take (unat (name_len h)) (drop (loc + 8) bs') = take (unat (name_len h)) (drop (loc + 8) bs)"
    using inside[of 8 "unat (name_len h)"] ln req by (simp add: bs'_def)
  show "length bs' = length bs" using on by (simp add: bs'_def)
  show "take n (drop p bs') = take n (drop p bs)" if "p + n \<le> loc \<or> loc + unat (rec_len h) \<le> p"
    using slice_overwrite_other[OF on, of p n] that ln assms(5) by (auto simp: bs'_def)
qed

text \<open>The name of the new entry fits its length field and is room the old entry can spare.\<close>
lemma entry_divided_by_insert:
  assumes "entry_ok bs loc" "length name \<le> 255"
    and "required_space (header_new n name t) \<le> unat (rec_len (header_at bs loc)) - required_space (header_at bs loc)"
  defines "mid \<equiv> loc + required_space (header_at bs loc)"
    and "bs' \<equiv> overwrite loc (divided_bytes bs loc (header_new n name t) name) bs"
  shows "entry_divided bs loc mid bs'" "entry_view bs' loc = entry_view bs loc"
    "entry_view bs' mid = (of_nat n, name, file_type_code t)"
    "insert_after loc (header_new n name t) name bs = Inr (mid, bs')"
proof -
  let ?h = "header_at bs loc"
  have nl: "unat (name_len (header_new n name t)) = length name"
    using assms(2) by (simp add: header_new_def unat_of_nat_small)
  have need: "8 + length name \<le> required_space (header_new n name t)"
    using required_space_bounds(1)[of "header_new n name t"] nl by simp
  have room: "required_space ?h + 8 + length name \<le> unat (rec_len ?h)"
    "required_space ?h + required_space (header_new n name t) \<le> unat (rec_len ?h)"
    using assms(1,3) need by (simp_all add: entry_ok_def)
  note reads = divided_reads[where new_header = "header_new n name t", OF assms(1) room(1), folded bs'_def mid_def]
  have rl: "unat (rec_len ?h) < 2 ^ 16" using unsigned_less[of "rec_len ?h"] by simp
  have u: "unat (of_nat (required_space ?h) :: u16) = required_space ?h"
    "unat (of_nat (unat (rec_len ?h) - required_space ?h) :: u16) = unat (rec_len ?h) - required_space ?h"
    using required_space_bounds(2)[of ?h] rl by (simp_all add: unat_of_nat_small)
  have same: "required_space (g\<lparr>rec_len := w\<rparr>) = required_space g" for g w by (simp add: required_space_def)
  have "loc + unat (rec_len ?h) \<le> length bs" using assms(1) by (simp add: entry_ok_def)
  then show "entry_divided bs loc mid bs'"
    using room reads(1,2,5,6) u by (simp add: entry_divided_def entry_ok_def same mid_def)
  show "entry_view bs' loc = entry_view bs loc" using reads(1,4) by (simp add: entry_view_def Let_def)
  show "entry_view bs' mid = (of_nat n, name, file_type_code t)"
    using reads(2,3) nl by (simp add: entry_view_def Let_def header_new_def mid_def)
  show "insert_after loc (header_new n name t) name bs = Inr (mid, bs')"
    unfolding mid_def bs'_def using room(1) by (intro insert_after_eq[OF assms(1)]) simp
qed

lemma find_map_conv: "find P (map f xs) = map_option f (find (P \<circ> f) xs)"
  by (induction xs) simp_all

lemma find_room_spec:
  assumes "\<forall>l\<in>set ls. entry_ok (buffer_data (dir_buffer db)) l"
  defines "room \<equiv> (\<lambda>l. unat (rec_len (header_at (buffer_data (dir_buffer db)) l)) -
    required_space (header_at (buffer_data (dir_buffer db)) l))"
  shows "find_room db need i ls =
      Inr (case find (\<lambda>k. need \<le> room (ls ! k)) [0..<length ls] of None \<Rightarrow> None | Some k \<Rightarrow> Some (i + k, ls ! k))"
  using assms(1)
proof (induction ls arbitrary: i)
  case (Cons l ls)
  let ?bs = "buffer_data (dir_buffer db)"
  have ok: "entry_ok ?bs l" using Cons.prems by simp
  have "l + 8 \<le> length ?bs" using entry_ok_bounds(2)[OF ok] .
  moreover have "required_space (header_at ?bs l) \<le> unat (rec_len (header_at ?bs l))"
    using ok by (simp add: entry_ok_def)
  ultimately have step: "find_room db need i (l # ls) =
      (if need \<le> room l then Inr (Some (i, l)) else find_room db need (i + 1) ls)"
    by (simp add: load_entry_from_location_def header_from_slice room_def)
  have tail: "find (\<lambda>k. need \<le> room ((l # ls) ! k)) (map Suc [0..<length ls]) =
      map_option Suc (find (\<lambda>k. need \<le> room (ls ! k)) [0..<length ls])"
    by (simp add: find_map_conv o_def)
  show ?case
    unfolding step using Cons tail
    by (simp add: upt_conv_Cons map_Suc_upt[symmetric] del: map_Suc_upt upt_Suc split: option.splits)
qed simp

lemma find_room_cases:
  assumes "\<forall>l\<in>set ls. entry_ok (buffer_data (dir_buffer db)) l"
  defines "room \<equiv> (\<lambda>l. unat (rec_len (header_at (buffer_data (dir_buffer db)) l)) -
    required_space (header_at (buffer_data (dir_buffer db)) l))"
  obtains "find_room db need 0 ls = Inr None" "\<forall>l\<in>set ls. room l < need"
  | k where "find_room db need 0 ls = Inr (Some (k, ls ! k))" "k < length ls" "need \<le> room (ls ! k)"
proof (cases "find (\<lambda>k. need \<le> room (ls ! k)) [0..<length ls]")
  case None
  then have "\<forall>l\<in>set ls. room l < need" by (auto simp: find_None_iff in_set_conv_nth not_le)
  with None that(1) find_room_spec[OF assms(1), of need 0] show thesis by (simp add: room_def)
next
  case (Some k)
  then have "k < length ls" "need \<le> room (ls ! k)" by (auto simp: find_Some_iff)
  with Some that(2) find_room_spec[OF assms(1), of need 0] show thesis by (simp add: room_def)
qed

lemma file_type_round_trip: "file_type_from (file_type_code t) = Inr t"
  by (cases t) (simp_all add: file_type_from_def)

lemma entry_reads:
  assumes "entry_ok bs off" "entry_view bs off = (i, name, file_type_code t)" "valid_utf8 name"
  shows "entry_name (drop off bs) = Inr name" "entry_inode_number (drop off bs) = Inr (unat i)"
    "entry_file_type (drop off bs) = Inr t"
proof -
  note b = entry_ok_bounds[OF assms(1)]
  have "take (unat (name_len (header_at bs off))) (drop (off + 8) bs) = name"
    using assms(2) by (simp add: entry_view_def Let_def)
  then show "entry_name (drop off bs) = Inr name"
    using b assms(3) by (simp add: entry_name_def header_from_slice HEADER_SIZE_def from_utf8_or_def add.commute)
  show "entry_inode_number (drop off bs) = Inr (unat i)"
    using b assms(2) by (simp add: entry_inode_number_def header_from_slice entry_view_def Let_def)
  show "entry_file_type (drop off bs) = Inr t"
    using b assms(2) by (simp add: entry_file_type_def header_from_slice entry_view_def Let_def file_type_round_trip)
qed

lemma divided_other_views:
  assumes "entries_from bs off ls" "k < length ls" "entry_divided bs (ls ! k) mid bs'"
    and "entry_view bs' (ls ! k) = entry_view bs (ls ! k)" "l \<in> set ls"
  shows "entry_view bs' l = entry_view bs l"
  using assms
proof (induction arbitrary: k)
  case (entries_step off ls)
  note div = entries_step.prems(2)[unfolded entry_divided_def]
  note b = entry_ok_bounds[OF entries_step.hyps(1)]
  have view: "entry_view bs' q = entry_view bs q"
    if "\<And>n. q + n \<le> q + 8 + unat (name_len (header_at bs q)) \<Longrightarrow> take n (drop q bs') = take n (drop q bs)"
      "\<And>n. n \<le> unat (name_len (header_at bs q)) \<Longrightarrow> take n (drop (q + 8) bs') = take n (drop (q + 8) bs)" for q
    using header_at_same[of q bs' bs] that(1)[of 8] that(2) by (simp add: entry_view_def Let_def)
  show ?case
  proof (cases k)
    case 0
    show ?thesis
    proof (cases "l = off")
      case False
      then have "l \<in> set ls" using entries_step.prems(4) by simp
      from entries_from_ge[OF entries_step.hyps(2) this]
      have "off + unat (rec_len (header_at bs off)) \<le> l" by simp
      then show ?thesis using div 0 by (intro view) simp_all
    qed (use entries_step.prems 0 in simp)
  next
    case (Suc k')
    have le: "off + unat (rec_len (header_at bs off)) \<le> ls ! k'"
      using entries_from_ge[OF entries_step.hyps(2), of "ls ! k'"] entries_step.prems(1) Suc by simp
    show ?thesis
    proof (cases "l = off")
      case True
      then show ?thesis using div Suc le b by (intro view) simp_all
    next
      case False
      then show ?thesis using entries_step.prems Suc by (intro entries_step.IH[of k']) simp_all
    qed
  qed
qed simp

text \<open>C9: Inserting an entry into a directory block in ext2 format never panics and never
  writes outside the block, for a name of at most 255 bytes. If no entry can spare the space
  the new one needs it returns `None` and the block is as before. Otherwise the block stays in
  ext2 format, with exactly one more entry; every old entry has its inode, name and type, and
  the returned entry has those that were asked for.\<close>
theorem insert_entry_correct:
  assumes "entries_from (buffer_data (dir_buffer db)) 0 (entry_locations db)"
    and "length name \<le> 255" "valid_utf8 name" "n < 2 ^ 32"
  shows "\<exists>r db'. insert_entry name n t db = Inr (r, db') \<and>
    (case r of
       None \<Rightarrow> db' = db \<and>
         (\<forall>l\<in>set (entry_locations db). unat (rec_len (header_at (buffer_data (dir_buffer db)) l)) -
            required_space (header_at (buffer_data (dir_buffer db)) l) < required_space (header_new n name t))
     | Some e \<Rightarrow> \<exists>k new. k < length (entry_locations db) \<and>
         entries_from (buffer_data (dir_buffer db')) 0
           (take (k + 1) (entry_locations db) @ new # drop (k + 1) (entry_locations db)) \<and>
         length (buffer_data (dir_buffer db')) = length (buffer_data (dir_buffer db)) \<and>
         device_start_block (dir_buffer db') = device_start_block (dir_buffer db) \<and>
         set (entry_locations db') = insert new (set (entry_locations db)) \<and>
         (\<forall>l\<in>set (entry_locations db).
            entry_view (buffer_data (dir_buffer db')) l = entry_view (buffer_data (dir_buffer db)) l) \<and>
         entry_name e = Inr name \<and> entry_inode_number e = Inr n \<and> entry_file_type e = Inr t)"
proof -
  let ?bs = "buffer_data (dir_buffer db)" and ?ls = "entry_locations db" and ?h = "header_new n name t"
  have ok: "\<forall>l\<in>set ?ls. entry_ok ?bs l" using entries_from_ge[OF assms(1)] by blast
  show ?thesis
  proof (cases rule: find_room_cases[OF ok, where need = "required_space ?h"])
    case 1
    then show ?thesis by (intro exI[of _ None] exI[of _ db]) (simp add: insert_entry_def Let_def)
  next
    case (2 k)
    have okk: "entry_ok ?bs (?ls ! k)" using ok 2(2) by simp
    define mid where "mid = ?ls ! k + required_space (header_at ?bs (?ls ! k))"
    define bs' where "bs' = overwrite (?ls ! k) (divided_bytes ?bs (?ls ! k) ?h name) ?bs"
    note div = entry_divided_by_insert[OF okk assms(2) 2(3), folded mid_def bs'_def]
    let ?ls' = "take k ?ls @ mid # drop k ?ls"
    let ?db = "\<lparr>dir_buffer = (dir_buffer db)\<lparr>buffer_data := bs'\<rparr>, entry_locations = ?ls'\<rparr>"
    have mid: "entry_ok bs' mid" "length bs' = length ?bs" using div(1) by (simp_all add: entry_divided_def)
    have "mid \<le> length bs'" using entry_ok_bounds(2)[OF mid(1)] by simp
    then have run: "insert_entry name n t db = Inr (Some (drop mid bs'), ?db)"
      using 2(1,2) div(4) by (simp add: insert_entry_def Let_def vec_insert_def load_entry_from_location_def)
    have "set ?ls' = insert mid (set ?ls)" using append_take_drop_id[of k ?ls] by (metis list.set(2) set_append Un_insert_right)
    moreover have "entries_from bs' 0 (take (k + 1) ?ls @ mid # drop (k + 1) ?ls)"
      using assms(1) 2(2) div(1) by (rule entries_divided)
    moreover have "\<forall>l\<in>set ?ls. entry_view bs' l = entry_view ?bs l"
      using divided_other_views[OF assms(1) 2(2) div(1,2)] by blast
    moreover note entry_reads[OF mid(1) div(3) assms(3)]
    ultimately show ?thesis
      using run mid(2) 2(2) assms(4) by (intro exI[of _ "Some (drop mid bs')"] exI[of _ ?db]) (auto simp: unat_of_nat_small)
  qed
qed

section \<open>An example block\<close>

definition example_header :: directory_entry_header where
  "example_header = \<lparr>header_inode = 2, rec_len = 32, name_len = 1, raw_file_type = 2\<rparr>"

definition example_directory :: directory_block where
  "example_directory =
     \<lparr>dir_buffer = \<lparr>device_start_block = 0, device_num_blocks = 1,
        buffer_data = encode header_layout example_header @ 46 # replicate 23 0\<rparr>, entry_locations = [0]\<rparr>"

lemma example_directory_entries: "entries_from (buffer_data (dir_buffer example_directory)) 0 [0]"
proof -
  let ?bs = "buffer_data (dir_buffer example_directory)"
  have h: "header_at ?bs 0 = example_header" by (simp add: header_at_def example_directory_def)
  have "length ?bs = 32" by (simp add: example_directory_def)
  with entries_end[of ?bs] have "entries_from ?bs 32 []" by simp
  then show ?thesis using h \<open>length ?bs = 32\<close>
    by (intro entries_step) (simp_all add: entry_ok_def example_header_def required_space_def HEADER_SIZE_def next_multiple_of_def)
qed


theorem insert_entry_correct_witness:
  "\<exists>r db'. insert_entry [97, 98] 12 RegularFile example_directory = Inr (r, db') \<and>
     (\<forall>e. r = Some e \<longrightarrow> entry_name e = Inr [97, 98] \<and> entry_inode_number e = Inr 12)"
proof -
  have "entries_from (buffer_data (dir_buffer example_directory)) 0 (entry_locations example_directory)"
    using example_directory_entries by (simp add: example_directory_def)
  from insert_entry_correct[OF this, of "[97, 98]" 12 RegularFile] obtain r db' where
    "insert_entry [97, 98] 12 RegularFile example_directory = Inr (r, db')"
    "\<forall>e. r = Some e \<longrightarrow> entry_name e = Inr [97, 98] \<and> entry_inode_number e = Inr 12"
    by (auto split: option.splits)
  then show ?thesis by blast
qed

end
