(* ===== verification/Ext2_File_System.thy ===== *)
theory Ext2_File_System
  imports Ext2_Directory
begin

text \<open>
  The ext2 file system: kernel/src/fs/ext2/file_system.rs. A mounted file system
  is its superblock and block group descriptors, held in buffers, and its block
  size; the disk behind the driver is passed along. Callbacks of the iterators
  are functions on a state of their own and the disk. The buffers are taken to be
  aligned for the types that are read from them.
\<close>

section \<open>Descriptors\<close>

definition DESCRIPTOR_SIZE :: nat where "DESCRIPTOR_SIZE = 32"

record file_system =
  fs_superblock :: block_buffer
  fs_descriptors :: block_buffer
  fs_num_groups :: nat
  fs_block_size :: nat

definition descriptors_new :: "block_buffer \<Rightarrow> nat \<Rightarrow> unit outcome" where
  "descriptors_new b n =
     and_then (usize_mul n DESCRIPTOR_SIZE) (\<lambda>size.
     assert_that (size \<le> length (buffer_data b)))"

definition descriptor_offset :: "file_system \<Rightarrow> nat \<Rightarrow> nat option" where
  "descriptor_offset fs g = (if fs_num_groups fs \<le> g then None else Some (g * DESCRIPTOR_SIZE))"

definition descriptor_get :: "file_system \<Rightarrow> nat \<Rightarrow> block_group_descriptor option" where
  "descriptor_get fs g =
     (case descriptor_offset fs g of
        None \<Rightarrow> None
      | Some off \<Rightarrow> collection_get descriptor_layout (buffer_data (fs_descriptors fs)) off)"

text \<open>A change through `get_mut`.\<close>
definition descriptor_write :: "file_system \<Rightarrow> nat \<Rightarrow> block_group_descriptor \<Rightarrow> file_system option" where
  "descriptor_write fs g v =
     (case descriptor_offset fs g of
        None \<Rightarrow> None
      | Some off \<Rightarrow>
          (case collection_write descriptor_layout (buffer_data (fs_descriptors fs)) off v of
             None \<Rightarrow> None
           | Some bs \<Rightarrow> Some (fs\<lparr>fs_descriptors := (fs_descriptors fs)\<lparr>buffer_data := bs\<rparr>\<rparr>)))"

section \<open>Mounting\<close>

definition u16_increment :: "u16 \<Rightarrow> u16 outcome" where
  "u16_increment w = (if w = 0xFFFF then Inl Overflow else Inr (w + 1))"

definition u16_decrement :: "u16 \<Rightarrow> u16 outcome" where
  "u16_decrement w = (if w = 0 then Inl Overflow else Inr (w - 1))"

definition u32_decrement :: "u32 \<Rightarrow> u32 outcome" where
  "u32_decrement w = (if w = 0 then Inl Overflow else Inr (w - 1))"

definition fs_read :: "'d block_driver \<Rightarrow> 'd \<Rightarrow> (file_system option \<times> 'd) outcome" where
  "fs_read drv d =
     and_then (read_blocks drv SUPERBLOCK_BLOCK_SIZE SUPERBLOCK_BLOCK_INDEX 1 d) (\<lambda>b.
     and_then (expect (into_view superblock_layout b)) (\<lambda>view.
     and_then (view_get superblock_layout view) (\<lambda>sb.
     if \<not> magic_valid sb then Inr (None, d)
     else
       and_then (block_size sb) (\<lambda>bsz.
       and_then (num_block_groups sb) (\<lambda>n.
       and_then (usize_div n bsz) (\<lambda>_.
       and_then (read_blocks drv bsz (block_descriptor_table_start_block sb) (div_ceil n bsz) d) (\<lambda>descs.
       and_then (descriptors_new descs n) (\<lambda>_.
       and_then (u16_increment (mount_count sb)) (\<lambda>count.
       and_then (view_modify superblock_layout (mount_count_update (\<lambda>_. count)) view) (\<lambda>view'.
       and_then (flush_buffer drv view' d) (\<lambda>d'.
       Inr (Some \<lparr>fs_superblock = view', fs_descriptors = descs, fs_num_groups = n, fs_block_size = bsz\<rparr>,
            d'))))))))))))"

definition fs_sb :: "file_system \<Rightarrow> superblock outcome" where
  "fs_sb fs = view_get superblock_layout (fs_superblock fs)"

section \<open>Inodes\<close>

definition inode_bitmap_block ::
  "'d block_driver \<Rightarrow> file_system \<Rightarrow> block_group_descriptor \<Rightarrow> 'd \<Rightarrow> block_buffer outcome" where
  "inode_bitmap_block drv fs desc d = read_blocks drv (fs_block_size fs) (unat (inode_bitmap desc)) 1 d"

definition block_bitmap_block ::
  "'d block_driver \<Rightarrow> file_system \<Rightarrow> block_group_descriptor \<Rightarrow> 'd \<Rightarrow> block_buffer outcome" where
  "block_bitmap_block drv fs desc d = read_blocks drv (fs_block_size fs) (unat (block_bitmap desc)) 1 d"

definition inode_block ::
  "'d block_driver \<Rightarrow> file_system \<Rightarrow> block_group_descriptor \<Rightarrow> nat \<Rightarrow> 'd \<Rightarrow> (block_buffer \<times> nat) outcome" where
  "inode_block drv fs desc l d =
     and_then (fs_sb fs) (\<lambda>sb.
     and_then (inode_block_and_offset sb (unat (inode_table desc)) l) (\<lambda>(block, off).
     and_then (read_blocks drv (fs_block_size fs) block 1 d) (\<lambda>b.
     Inr (b, off))))"

definition read_inode :: "'d block_driver \<Rightarrow> file_system \<Rightarrow> nat \<Rightarrow> 'd \<Rightarrow> inode option outcome" where
  "read_inode drv fs n d =
     and_then (fs_sb fs) (\<lambda>sb.
     and_then (inode_location sb n) (\<lambda>(g, l).
     case descriptor_get fs g of
       None \<Rightarrow> Inr None
     | Some desc \<Rightarrow>
         and_then (inode_bitmap_block drv fs desc d) (\<lambda>bitmap.
         case bitmap_is_used (buffer_data bitmap) l of
           None \<Rightarrow> Inr None
         | Some used \<Rightarrow>
             if \<not> used then Inr None
             else
               and_then (inode_block drv fs desc l d) (\<lambda>(inodes, off).
               and_then (expect (collection_get inode_layout (buffer_data inodes) off)) (\<lambda>i.
               Inr (Some i))))))"

definition read_root :: "'d block_driver \<Rightarrow> file_system \<Rightarrow> 'd \<Rightarrow> (inode \<times> nat) outcome" where
  "read_root drv fs d =
     and_then (read_inode drv fs ROOT_DIRECTORY d) (\<lambda>r.
     and_then (expect r) (\<lambda>i. Inr (i, ROOT_DIRECTORY)))"

definition write_inode :: "'d block_driver \<Rightarrow> file_system \<Rightarrow> inode \<Rightarrow> nat \<Rightarrow> 'd \<Rightarrow> 'd outcome" where
  "write_inode drv fs i n d =
     and_then (fs_sb fs) (\<lambda>sb.
     and_then (inode_location sb n) (\<lambda>(g, l).
     and_then (expect (descriptor_get fs g)) (\<lambda>desc.
     and_then (inode_bitmap_block drv fs desc d) (\<lambda>bitmap.
     and_then (expect (bitmap_is_used (buffer_data bitmap) l)) (\<lambda>used.
     and_then (assert_that used) (\<lambda>_.
     and_then (inode_block drv fs desc l d) (\<lambda>(inodes, off).
     and_then (expect (collection_write inode_layout (buffer_data inodes) off i)) (\<lambda>bs.
     flush_buffer drv (inodes\<lparr>buffer_data := bs\<rparr>) d))))))))"

section \<open>The blocks of a file\<close>

definition BLOCK_INDEX_SIZE :: nat where "BLOCK_INDEX_SIZE = 8"

definition address_layout :: "u32 layout" where
  "address_layout = \<lparr>layout_size = 4, decode = (\<lambda>bs. u32_at bs 0), encode = put_u32\<rparr>"

definition read_inode_block ::
  "'d block_driver \<Rightarrow> file_system \<Rightarrow> inode \<Rightarrow> nat \<Rightarrow> 'd \<Rightarrow> block_buffer outcome" where
  "read_inode_block drv fs i index d =
     (if index < length (direct_blocks i) then
        read_blocks drv (fs_block_size fs) (unat (direct_blocks i ! index)) 1 d
      else
        let per_indirect = fs_block_size fs div BLOCK_INDEX_SIZE in
        and_then (usize_sub per_indirect (length (direct_blocks i))) (\<lambda>indirect_index.
        and_then (assert_that (indirect_index < per_indirect)) (\<lambda>_.
        and_then (assert_that (0 < singly_indirect_block i)) (\<lambda>_.
        and_then (read_blocks drv (fs_block_size fs) (unat (singly_indirect_block i)) 1 d) (\<lambda>indirect.
        and_then (expect (collection_get address_layout (buffer_data indirect) indirect_index)) (\<lambda>a.
        read_blocks drv (fs_block_size fs) (unat a) 1 d))))))"

text \<open>A call of the iterator that yields a block moves its index on, within the direct blocks.\<close>
lemma inode_block_next_index:
  "inode_block_next it = Inr (Some p, it') \<Longrightarrow>
     iter_index it < iter_index it' \<and> iter_index it' \<le> length (iter_direct_blocks it) \<and>
     iter_direct_blocks it' = iter_direct_blocks it"
proof (induction it rule: inode_block_next.induct)
  case (1 it)
  from "1.prems" show ?case
    unfolding inode_block_next.simps[of it] Let_def
    by (auto split: if_splits simp: usize_mul_def dest!: "1.IH")
qed

function iter_file_from ::
  "'d block_driver \<Rightarrow> nat \<Rightarrow> (nat \<Rightarrow> block_buffer \<Rightarrow> 's \<times> 'd \<Rightarrow> (bool \<times> 's \<times> 'd) outcome) \<Rightarrow>
     inode_block_iterator \<Rightarrow> 's \<times> 'd \<Rightarrow> ('s \<times> 'd) outcome" where
  "iter_file_from drv bsz func it sd =
     and_then (inode_block_next it) (\<lambda>(r, it').
     case r of
       None \<Rightarrow> Inr sd
     | Some (off, addr) \<Rightarrow>
         and_then (read_blocks drv bsz addr 1 (snd sd)) (\<lambda>b.
         and_then (func off b sd) (\<lambda>(go_on, sd').
         if go_on then iter_file_from drv bsz func it' sd' else Inr sd')))"
  by pat_completeness auto
termination
  by (relation "measure (\<lambda>(_, _, _, it, _). length (iter_direct_blocks it) - iter_index it)")
    (auto dest!: inode_block_next_index)

declare iter_file_from.simps [simp del]

definition iter_file_blocks ::
  "'d block_driver \<Rightarrow> file_system \<Rightarrow> inode \<Rightarrow>
     (nat \<Rightarrow> block_buffer \<Rightarrow> 's \<times> 'd \<Rightarrow> (bool \<times> 's \<times> 'd) outcome) \<Rightarrow> 's \<times> 'd \<Rightarrow> ('s \<times> 'd) outcome" where
  "iter_file_blocks drv fs i func sd =
     and_then (fs_sb fs) (\<lambda>sb.
     and_then (iter_inode_blocks sb i) (\<lambda>it.
     iter_file_from drv (fs_block_size fs) func it sd))"

definition iter_directory_blocks ::
  "'d block_driver \<Rightarrow> file_system \<Rightarrow> inode \<Rightarrow>
     (directory_block \<Rightarrow> 's \<times> 'd \<Rightarrow> (bool \<times> 's \<times> 'd) outcome) \<Rightarrow> 's \<times> 'd \<Rightarrow> ('s \<times> 'd) outcome" where
  "iter_directory_blocks drv fs i func sd =
     and_then (assert_that (inode_is_dir i)) (\<lambda>_.
     and_then (fs_sb fs) (\<lambda>sb.
     and_then (block_size sb) (\<lambda>bsz.
     and_then (usize_rem (inode_size sb i) bsz) (\<lambda>r.
     and_then (assert_that (r = 0)) (\<lambda>_.
     iter_file_blocks drv fs i
       (\<lambda>_ b sd. and_then (from_existing_block b) (\<lambda>db. func db sd)) sd)))))"

section \<open>Creating a file\<close>

definition new_file_mode :: u16 where
  "new_file_mode = 0x004 OR 0x020 OR 0x080 OR 0x100 OR IFREG"

definition new_file_inode :: "inode \<Rightarrow> u32 list \<Rightarrow> nat \<Rightarrow> inode" where
  "new_file_inode parent blocks bsz =
     \<lparr>mode = new_file_mode, uid = uid parent, size_low = 0, atime = 0, ctime = 0, mtime = 0, dtime = 0,
      gid = gid parent, links_count = 1, inode_blocks = of_nat (bsz div 512), inode_flags = 0, osd1 = 0,
      direct_blocks = blocks, singly_indirect_block = 0, doubly_indirect_block = 0,
      triply_indirect_block = 0, generation = 0, file_acl = 0, size_high = 0, faddr = 0,
      osd2 = replicate 12 0\<rparr>"

text \<open>The callback that puts the new entry into the first directory block with room.\<close>
definition insert_into_directory ::
  "'d block_driver \<Rightarrow> u8 list \<Rightarrow> nat \<Rightarrow> directory_block \<Rightarrow> bool \<times> 'd \<Rightarrow> (bool \<times> bool \<times> 'd) outcome" where
  "insert_into_directory drv name n db sd =
     and_then (insert_entry name n RegularFile db) (\<lambda>(r, db').
     case r of
       None \<Rightarrow> Inr (True, sd)
     | Some _ \<Rightarrow> and_then (flush_directory drv db' (snd sd)) (\<lambda>d'. Inr (False, True, d')))"

definition adjust_statistics ::
  "'d block_driver \<Rightarrow> file_system \<Rightarrow> nat \<Rightarrow> inode \<Rightarrow> nat \<Rightarrow> 'd \<Rightarrow>
     ((inode \<times> nat) option \<times> file_system \<times> 'd) outcome" where
  "adjust_statistics drv fs g i n d =
     (case descriptor_get fs g of
        None \<Rightarrow> Inr (None, fs, d)
      | Some desc \<Rightarrow>
          and_then (u16_decrement (free_inodes_count desc)) (\<lambda>c.
          and_then (expect (descriptor_write fs g (desc\<lparr>free_inodes_count := c\<rparr>))) (\<lambda>fs1.
          and_then (flush_buffer drv (fs_descriptors fs1) d) (\<lambda>d1.
          and_then (fs_sb fs1) (\<lambda>sb.
          and_then (u32_decrement (sb_free_inodes_count sb)) (\<lambda>c'.
          and_then (view_modify superblock_layout (sb_free_inodes_count_update (\<lambda>_. c')) (fs_superblock fs1)) (\<lambda>view.
          and_then (flush_buffer drv view d1) (\<lambda>d2.
          Inr (Some (i, n), fs1\<lparr>fs_superblock := view\<rparr>, d2)))))))))"

definition create_file ::
  "'d block_driver \<Rightarrow> file_system \<Rightarrow> inode \<Rightarrow> nat \<Rightarrow> u8 list \<Rightarrow> 'd \<Rightarrow>
     ((inode \<times> nat) option \<times> file_system \<times> 'd) outcome" where
  "create_file drv fs parent parent_number name d =
     and_then (assert_that (inode_is_dir parent)) (\<lambda>_.
     and_then (fs_sb fs) (\<lambda>sb.
     and_then (inode_location sb parent_number) (\<lambda>(g, _).
     case descriptor_get fs g of
       None \<Rightarrow> Inr (None, fs, d)
     | Some desc \<Rightarrow>
     and_then (inode_bitmap_block drv fs desc d) (\<lambda>ib.
     case inode_bitmap_reserve (buffer_data ib) of
       None \<Rightarrow> Inr (None, fs, d)
     | Some (l, ibs) \<Rightarrow>
     and_then (flush_buffer drv (ib\<lparr>buffer_data := ibs\<rparr>) d) (\<lambda>d1.
     and_then (block_bitmap_block drv fs desc d1) (\<lambda>bb.
     case block_bitmap_reserve (buffer_data bb) of
       None \<Rightarrow> Inr (None, fs, d1)
     | Some (addr, bbs) \<Rightarrow>
     and_then (flush_buffer drv (bb\<lparr>buffer_data := bbs\<rparr>) d1) (\<lambda>d2.
     and_then (insert_direct_block 0 addr empty_direct_blocks) (\<lambda>blocks.
     and_then (block_size sb) (\<lambda>bsz.
     let i = new_file_inode parent blocks bsz in
     and_then (inode_number sb g l) (\<lambda>n.
     and_then (write_inode drv fs i n d2) (\<lambda>d3.
     and_then (iter_directory_blocks drv fs parent (insert_into_directory drv name n) (False, d3)) (\<lambda>(found, d4).
     if \<not> found then Inr (None, fs, d4)
     else adjust_statistics drv fs g i n d4))))))))))))"

end
