(* ===== verification/Ext2_Inodes.thy ===== *)
theory Ext2_Inodes
  imports Ext2_File_System
begin

text \<open>
  The inode table of a mounted ext2 file system: what `read_inode` and
  `write_inode` of kernel/src/fs/ext2/file_system.rs do to the blocks of the
  disk. A consistent file system has its bitmaps and inode tables on the disk,
  apart from each other.
\<close>

section \<open>Consistent file systems\<close>

definition sb_of :: "file_system \<Rightarrow> superblock" where
  "sb_of fs = superblock_of_bytes (take 264 (buffer_data (fs_superblock fs)))"

definition desc_of :: "file_system \<Rightarrow> nat \<Rightarrow> block_group_descriptor" where
  "desc_of fs g = descriptor_of_bytes (take 32 (drop (g * 32) (buffer_data (fs_descriptors fs))))"

abbreviation per_group :: "file_system \<Rightarrow> nat" where
  "per_group fs \<equiv> unat (inodes_per_group (sb_of fs))"

abbreviation slot_size :: "file_system \<Rightarrow> nat" where
  "slot_size fs \<equiv> unat (sb_inode_size (sb_of fs))"

abbreviation bitmap_address :: "file_system \<Rightarrow> nat \<Rightarrow> nat" where
  "bitmap_address fs g \<equiv> unat (inode_bitmap (desc_of fs g))"

abbreviation table_address :: "file_system \<Rightarrow> nat \<Rightarrow> nat" where
  "table_address fs g \<equiv> unat (inode_table (desc_of fs g))"

definition table_blocks :: "file_system \<Rightarrow> nat" where
  "table_blocks fs = div_ceil (slot_size fs * per_group fs) (fs_block_size fs)"

definition fs_ok :: "'d block_driver \<Rightarrow> file_system \<Rightarrow> bool" where
  "fs_ok drv fs \<longleftrightarrow>
     264 \<le> length (buffer_data (fs_superblock fs)) \<and>
     fs_num_groups fs * 32 \<le> length (buffer_data (fs_descriptors fs)) \<and>
     block_size (sb_of fs) = Inr (fs_block_size fs) \<and> block_size_ok drv (fs_block_size fs) \<and>
     128 \<le> slot_size fs \<and> slot_size fs dvd fs_block_size fs \<and>
     0 < per_group fs \<and> per_group fs \<le> 8 * fs_block_size fs"

definition tables_ok :: "file_system \<Rightarrow> u8 list \<Rightarrow> bool" where
  "tables_ok fs disk \<longleftrightarrow>
     (\<forall>g < fs_num_groups fs.
        block_on_disk (fs_block_size fs) (bitmap_address fs g) disk \<and>
        (table_address fs g + table_blocks fs) * fs_block_size fs \<le> length disk \<and>
        (\<forall>h < fs_num_groups fs.
           bitmap_address fs g \<notin> {table_address fs h..<table_address fs h + table_blocks fs} \<and>
           (g \<noteq> h \<longrightarrow> table_address fs g + table_blocks fs \<le> table_address fs h \<or>
              table_address fs h + table_blocks fs \<le> table_address fs g)))"

text \<open>Inode numbers of the file system, and where their slots are.\<close>
definition group_of :: "file_system \<Rightarrow> nat \<Rightarrow> nat" where "group_of fs n = (n - 1) div per_group fs"
definition local_of :: "file_system \<Rightarrow> nat \<Rightarrow> nat" where "local_of fs n = (n - 1) mod per_group fs"

definition has_inode :: "file_system \<Rightarrow> nat \<Rightarrow> bool" where
  "has_inode fs n \<longleftrightarrow> 0 < n \<and> n < 2 ^ 32 \<and> group_of fs n < fs_num_groups fs"

definition slot_block :: "file_system \<Rightarrow> nat \<Rightarrow> nat" where
  "slot_block fs n = table_address fs (group_of fs n) + slot_size fs * local_of fs n div fs_block_size fs"

definition slot_offset :: "file_system \<Rightarrow> nat \<Rightarrow> nat" where
  "slot_offset fs n = slot_size fs * local_of fs n mod fs_block_size fs"

definition inode_used :: "file_system \<Rightarrow> u8 list \<Rightarrow> nat \<Rightarrow> bool" where
  "inode_used fs disk n \<longleftrightarrow>
     bitmap_bit (disk_block (fs_block_size fs) (bitmap_address fs (group_of fs n)) disk) (local_of fs n)"

definition inode_on_disk :: "file_system \<Rightarrow> u8 list \<Rightarrow> nat \<Rightarrow> inode" where
  "inode_on_disk fs disk n =
     inode_of_bytes (take 128 (drop (slot_offset fs n) (disk_block (fs_block_size fs) (slot_block fs n) disk)))"

section \<open>Slots\<close>

lemma fs_sb_eq: "fs_ok drv fs \<Longrightarrow> fs_sb fs = Inr (sb_of fs)"
  by (simp add: fs_ok_def fs_sb_def view_get_def view_deref_def try_cast_bytes_ref_def superblock_layout_def sb_of_def)

lemma descriptor_get_eq:
  assumes "fs_ok drv fs" "g < fs_num_groups fs"
  shows "descriptor_get fs g = Some (desc_of fs g)"
proof -
  have "Suc g * 32 \<le> fs_num_groups fs * 32" using assms(2) by (intro mult_le_mono1) simp
  then have "g * 32 + 32 \<le> length (buffer_data (fs_descriptors fs))" using assms(1) by (simp add: fs_ok_def)
  then show ?thesis
    using assms(2) by (simp add: descriptor_get_def descriptor_offset_def DESCRIPTOR_SIZE_def collection_get_def
        try_cast_bytes_ref_offset_def try_cast_bytes_ref_def descriptor_layout_def desc_of_def)
qed

lemma div_less_div_ceil: "0 < b \<Longrightarrow> a < c \<Longrightarrow> a div b < div_ceil c b"
proof -
  assume b: "0 < b" and "a < c"
  moreover have "c \<le> div_ceil c b * b" using div_ceil_le_iff[OF b, of c "div_ceil c b"] by simp
  moreover have "a div b * b \<le> a" by simp
  ultimately have "a div b * b < div_ceil c b * b" by linarith
  then show ?thesis by simp
qed

lemma fs_facts:
  assumes "fs_ok drv fs"
  shows "0 < fs_block_size fs" "128 \<le> slot_size fs" "slot_size fs dvd fs_block_size fs" "0 < per_group fs"
    "per_group fs \<le> 8 * fs_block_size fs" "block_size (sb_of fs) = Inr (fs_block_size fs)"
    "block_size_ok drv (fs_block_size fs)"
  using assms by (simp_all add: fs_ok_def block_size_ok_def)

lemma local_bound:
  assumes "fs_ok drv fs"
  shows "local_of fs n < per_group fs" "local_of fs n < 8 * fs_block_size fs"
proof -
  show "local_of fs n < per_group fs" using fs_facts(4)[OF assms] by (simp add: local_of_def)
  then show "local_of fs n < 8 * fs_block_size fs" using fs_facts(5)[OF assms] by simp
qed

lemma slot_fits:
  assumes "fs_ok drv fs"
  shows "slot_offset fs n + slot_size fs \<le> fs_block_size fs" "slot_offset fs n + 128 \<le> fs_block_size fs"
proof -
  show "slot_offset fs n + slot_size fs \<le> fs_block_size fs"
    using slot_in_block[OF fs_facts(3,1)[OF assms]] by (simp add: slot_offset_def)
  then show "slot_offset fs n + 128 \<le> fs_block_size fs" using fs_facts(2)[OF assms] by simp
qed

lemma slot_block_in_table:
  assumes "fs_ok drv fs"
  shows "slot_block fs n \<in> {table_address fs (group_of fs n)..<table_address fs (group_of fs n) + table_blocks fs}"
proof -
  have "slot_size fs * local_of fs n < slot_size fs * per_group fs"
    using local_bound(1)[OF assms] fs_facts(2)[OF assms] by simp
  then show ?thesis
    using div_less_div_ceil[OF fs_facts(1)[OF assms]] by (simp add: slot_block_def table_blocks_def)
qed

lemma slot_on_disk:
  assumes "fs_ok drv fs" "tables_ok fs disk" "has_inode fs n"
  shows "block_on_disk (fs_block_size fs) (slot_block fs n) disk"
    "block_on_disk (fs_block_size fs) (bitmap_address fs (group_of fs n)) disk"
proof -
  have "(slot_block fs n + 1) * fs_block_size fs \<le>
      (table_address fs (group_of fs n) + table_blocks fs) * fs_block_size fs"
    using slot_block_in_table[OF assms(1), of n] by (intro mult_le_mono1) simp
  also have "\<dots> \<le> length disk" using assms(2,3) by (simp add: tables_ok_def has_inode_def)
  finally show "block_on_disk (fs_block_size fs) (slot_block fs n) disk" by (simp add: block_on_disk_def)
  show "block_on_disk (fs_block_size fs) (bitmap_address fs (group_of fs n)) disk"
    using assms(2,3) by (simp add: tables_ok_def has_inode_def)
qed

lemma inode_location_of:
  assumes "fs_ok drv fs" "has_inode fs n"
  shows "inode_location (sb_of fs) n = Inr (group_of fs n, local_of fs n)"
  using assms(2) fs_facts(4)[OF assms(1)]
  by (simp add: inode_location_eq has_inode_def group_of_def local_of_def)

lemma inode_block_of:
  assumes "driver_spec drv contents" "fs_ok drv fs" "tables_ok fs (contents d)" "has_inode fs n"
  shows "inode_block drv fs (desc_of fs (group_of fs n)) (local_of fs n) d =
    Inr (buffer_for drv (fs_block_size fs) (slot_block fs n)
      (disk_block (fs_block_size fs) (slot_block fs n) (contents d)), slot_offset fs n)"
proof -
  have "per_group fs < 2 ^ 32" using unsigned_less[of "inodes_per_group (sb_of fs)", where 'a = nat] by simp
  then have "local_of fs n < 2 ^ 32" using local_bound(1)[OF assms(2), of n] by simp
  moreover have "table_address fs (group_of fs n) < 2 ^ 32"
    using unsigned_less[of "inode_table (desc_of fs (group_of fs n))", where 'a = nat] by simp
  ultimately have "inode_block_and_offset (sb_of fs) (table_address fs (group_of fs n)) (local_of fs n) =
      Inr (slot_block fs n, slot_offset fs n)"
    using inode_block_and_offset_eq[OF fs_facts(6,1)[OF assms(2)]] by (simp add: slot_block_def slot_offset_def)
  then show ?thesis
    using read_one_block[OF assms(1) fs_facts(7)[OF assms(2)] slot_on_disk(1)[OF assms(2-4)]]
    by (simp add: inode_block_def fs_sb_eq[OF assms(2)])
qed

lemma inode_bitmap_of:
  assumes "driver_spec drv contents" "fs_ok drv fs" "tables_ok fs (contents d)" "has_inode fs n"
  shows "inode_bitmap_block drv fs (desc_of fs (group_of fs n)) d =
    Inr (buffer_for drv (fs_block_size fs) (bitmap_address fs (group_of fs n))
      (disk_block (fs_block_size fs) (bitmap_address fs (group_of fs n)) (contents d)))"
    "bitmap_is_used (disk_block (fs_block_size fs) (bitmap_address fs (group_of fs n)) (contents d)) (local_of fs n) =
     Some (inode_used fs (contents d) n)"
  using read_one_block[OF assms(1) fs_facts(7)[OF assms(2)] slot_on_disk(2)[OF assms(2-4)]]
    length_disk_block[OF slot_on_disk(2)[OF assms(2-4)]] local_bound(2)[OF assms(2), of n]
  by (simp_all add: inode_bitmap_block_def bitmap_is_used_eq inode_used_def)

lemma read_inode_of:
  assumes "driver_spec drv contents" "fs_ok drv fs" "tables_ok fs (contents d)" "has_inode fs n"
  shows "read_inode drv fs n d =
    Inr (if inode_used fs (contents d) n then Some (inode_on_disk fs (contents d) n) else None)"
proof -
  let ?b = "disk_block (fs_block_size fs) (slot_block fs n) (contents d)"
  have "collection_get inode_layout ?b (slot_offset fs n) = Some (inode_on_disk fs (contents d) n)"
    using slot_fits(2)[OF assms(2), of n] length_disk_block[OF slot_on_disk(1)[OF assms(2-4)]]
    by (simp add: collection_get_def try_cast_bytes_ref_offset_def try_cast_bytes_ref_def inode_layout_def inode_on_disk_def)
  moreover have "descriptor_get fs (group_of fs n) = Some (desc_of fs (group_of fs n))"
    using assms(4) by (intro descriptor_get_eq[OF assms(2)]) (simp add: has_inode_def)
  ultimately show ?thesis
    using inode_block_of[OF assms] inode_bitmap_of[OF assms]
    by (simp add: read_inode_def fs_sb_eq[OF assms(2)] inode_location_of[OF assms(2,4)])
qed

text \<open>Writing an inode replaces the bytes of its slot.\<close>
lemma write_inode_of:
  assumes "driver_spec drv contents" "fs_ok drv fs" "tables_ok fs (contents d)" "has_inode fs n"
    and "inode_valid i" "inode_used fs (contents d) n"
  shows "\<exists>d'. write_inode drv fs i n d = Inr d' \<and>
    contents d' = overwrite (slot_block fs n * fs_block_size fs)
      (overwrite (slot_offset fs n) (encode inode_layout i)
        (disk_block (fs_block_size fs) (slot_block fs n) (contents d))) (contents d)"
proof -
  let ?b = "disk_block (fs_block_size fs) (slot_block fs n) (contents d)"
  let ?new = "overwrite (slot_offset fs n) (encode inode_layout i) ?b"
  have enc: "length (encode inode_layout i) = 128"
    using inode.length_encode[OF assms(5)] by (simp add: inode_layout_def)
  note on = slot_on_disk(1)[OF assms(2-4)]
  have len: "length ?b = fs_block_size fs" by (rule length_disk_block[OF on])
  have wr: "collection_write inode_layout ?b (slot_offset fs n) i = Some ?new"
    using slot_fits(2)[OF assms(2), of n] len enc
    by (simp add: collection_write_def try_write_bytes_offset_def try_cast_bytes_ref_offset_def
        try_cast_bytes_ref_def inode_layout_def overwrite_def)
  have "length ?new = fs_block_size fs" using slot_fits(2)[OF assms(2), of n] len enc by simp
  from flush_one_block[OF assms(1) fs_facts(7)[OF assms(2)] on this] obtain d' where
    "flush_buffer drv (buffer_for drv (fs_block_size fs) (slot_block fs n) ?new) d = Inr d'"
    "contents d' = overwrite (slot_block fs n * fs_block_size fs) ?new (contents d)" by blast
  moreover have "descriptor_get fs (group_of fs n) = Some (desc_of fs (group_of fs n))"
    using assms(4) by (intro descriptor_get_eq[OF assms(2)]) (simp add: has_inode_def)
  ultimately show ?thesis
    using inode_block_of[OF assms(1-4)] inode_bitmap_of[OF assms(1-4)] wr assms(6)
    by (simp add: write_inode_def fs_sb_eq[OF assms(2)] inode_location_of[OF assms(2,4)])
qed

section \<open>Reading back what was written\<close>

text \<open>Different inodes are in different blocks or in slots apart in the same block.\<close>
lemma slots_of_inodes_apart:
  assumes "fs_ok drv fs" "tables_ok fs disk" "has_inode fs n" "has_inode fs m" "n \<noteq> m"
    and "slot_block fs m = slot_block fs n"
  shows "slot_offset fs m + 128 \<le> slot_offset fs n \<or> slot_offset fs n + 128 \<le> slot_offset fs m"
proof -
  have same: "group_of fs m = group_of fs n"
  proof (rule ccontr)
    assume "group_of fs m \<noteq> group_of fs n"
    then have "table_address fs (group_of fs m) + table_blocks fs \<le> table_address fs (group_of fs n) \<or>
        table_address fs (group_of fs n) + table_blocks fs \<le> table_address fs (group_of fs m)"
      using assms(2-4) unfolding tables_ok_def has_inode_def by blast
    then show False
      using slot_block_in_table[OF assms(1), of n] slot_block_in_table[OF assms(1), of m] assms(6) by simp
  qed
  have "local_of fs m \<noteq> local_of fs n"
  proof
    assume "local_of fs m = local_of fs n"
    then have "n - 1 = m - 1"
      using same div_mult_mod_eq[of "n - 1" "per_group fs"] div_mult_mod_eq[of "m - 1" "per_group fs"]
      by (simp add: local_of_def group_of_def)
    moreover have "0 < n" "0 < m" using assms(3,4) by (simp_all add: has_inode_def)
    ultimately show False using assms(5) by linarith
  qed
  moreover have "slot_size fs * local_of fs m div fs_block_size fs = slot_size fs * local_of fs n div fs_block_size fs"
    using assms(6) same by (simp add: slot_block_def)
  ultimately show ?thesis
    using slots_apart[of "local_of fs m" "local_of fs n" "slot_size fs" "fs_block_size fs"] fs_facts(2)[OF assms(1)]
    by (auto simp: slot_offset_def)
qed

lemma bitmap_block_not_slot:
  assumes "fs_ok drv fs" "tables_ok fs disk" "has_inode fs n" "has_inode fs m"
  shows "bitmap_address fs (group_of fs m) \<noteq> slot_block fs n"
proof -
  have "bitmap_address fs (group_of fs m) \<notin>
      {table_address fs (group_of fs n)..<table_address fs (group_of fs n) + table_blocks fs}"
    using assms(2-4) unfolding tables_ok_def has_inode_def by blast
  then show ?thesis using slot_block_in_table[OF assms(1), of n] by metis
qed

text \<open>The effect of a written slot on everything that \<open>read_inode\<close> reads.\<close>
lemma inode_after_write:
  assumes "fs_ok drv fs" "tables_ok fs disk" "has_inode fs n" "has_inode fs m" "inode_valid i"
  defines "disk' \<equiv> overwrite (slot_block fs n * fs_block_size fs)
    (overwrite (slot_offset fs n) (encode inode_layout i) (disk_block (fs_block_size fs) (slot_block fs n) disk)) disk"
  shows "length disk' = length disk" "inode_used fs disk' m = inode_used fs disk m"
    "inode_on_disk fs disk' m = (if m = n then i else inode_on_disk fs disk m)"
proof -
  let ?bsz = "fs_block_size fs" and ?b = "disk_block (fs_block_size fs) (slot_block fs n) disk"
  let ?new = "overwrite (slot_offset fs n) (encode inode_layout i) ?b"
  have enc: "length (encode inode_layout i) = 128"
    using inode.length_encode[OF assms(5)] by (simp add: inode_layout_def)
  note on = slot_on_disk(1)[OF assms(1-3)]
  have fit: "slot_offset fs n + length (encode inode_layout i) \<le> length ?b"
    using slot_fits(2)[OF assms(1), of n] length_disk_block[OF on] enc by simp
  have len: "length ?new = ?bsz" using fit length_disk_block[OF on] by simp
  then show "length disk' = length disk" using on by (simp add: disk'_def block_on_disk_def)
  note block = disk_block_overwrite[OF on len, folded disk'_def]
  show "inode_used fs disk' m = inode_used fs disk m"
    using bitmap_block_not_slot[OF assms(1-4)] by (simp add: inode_used_def block)
  show "inode_on_disk fs disk' m = (if m = n then i else inode_on_disk fs disk m)"
  proof (cases "m = n")
    case True
    have "inode_of_bytes (encode inode_layout i) = i"
      using inode.decode_encode[OF assms(5)] by (simp add: inode_layout_def)
    then show ?thesis using True slice_overwrite_same[OF fit] enc by (simp add: inode_on_disk_def block)
  next
    case False
    then show ?thesis
      using slice_overwrite_other[OF fit, of "slot_offset fs m" 128] enc slots_of_inodes_apart[OF assms(1-4)]
      by (auto simp: inode_on_disk_def block)
  qed
qed

text \<open>C15: Writing an inode that is in use, on a consistent file system, succeeds; reading that
  inode back gives what was written, reading any other inode gives what it gave before, and
  the size of the disk is unchanged.\<close>
theorem write_inode_round_trip:
  assumes "driver_spec drv contents" "fs_ok drv fs" "tables_ok fs (contents d)"
    and "has_inode fs n" "has_inode fs m" "inode_valid i" "read_inode drv fs n d = Inr (Some j)"
  shows "\<exists>d'. write_inode drv fs i n d = Inr d' \<and> length (contents d') = length (contents d) \<and>
    read_inode drv fs m d' = (if m = n then Inr (Some i) else read_inode drv fs m d)"
proof -
  have used: "inode_used fs (contents d) n"
    using read_inode_of[OF assms(1-4)] assms(7) by (simp split: if_splits)
  from write_inode_of[OF assms(1-4,6) used] obtain d' where
    d': "write_inode drv fs i n d = Inr d'"
      "contents d' = overwrite (slot_block fs n * fs_block_size fs)
        (overwrite (slot_offset fs n) (encode inode_layout i)
          (disk_block (fs_block_size fs) (slot_block fs n) (contents d))) (contents d)" by blast
  note after = inode_after_write[OF assms(2-6), folded d'(2)]
  have "tables_ok fs (contents d')"
    using assms(3) after(1) by (simp add: tables_ok_def block_on_disk_def)
  from read_inode_of[OF assms(1,2) this assms(5)] show ?thesis
    using d'(1) after used read_inode_of[OF assms(1-3,5)] by auto
qed

section \<open>An example disk\<close>

definition example_descriptor :: block_group_descriptor where
  "example_descriptor =
     \<lparr>block_bitmap = 3, inode_bitmap = 4, inode_table = 5, free_blocks_count = 0, free_inodes_count = 0,
      used_dirs_count = 1, bg_pad = 0, bg_reserved = replicate 12 0\<rparr>"

text \<open>One block group with eight inodes, all in use: the bitmap in block 4, the table in block 5.\<close>
definition example_fs :: file_system where
  "example_fs =
     \<lparr>fs_superblock = \<lparr>device_start_block = 2, device_num_blocks = 2,
        buffer_data = encode superblock_layout example_superblock\<rparr>,
      fs_descriptors = \<lparr>device_start_block = 4, device_num_blocks = 2,
        buffer_data = encode descriptor_layout example_descriptor\<rparr>,
      fs_num_groups = 1, fs_block_size = 1024\<rparr>"

definition example_disk :: "u8 list" where
  "example_disk = replicate 4096 0 @ (0xFF # replicate 1023 0) @ replicate 3072 0"

lemma example_superblock_valid: "superblock_valid example_superblock"
  using superblock.decode_valid[of "replicate 264 0"]
  by (simp add: example_superblock_def superblock_valid_def superblock_layout_def)

lemma example_fs_parts: "sb_of example_fs = example_superblock" "desc_of example_fs 0 = example_descriptor"
  using superblock.length_encode[OF example_superblock_valid] superblock.decode_encode[OF example_superblock_valid]
    descriptor.length_encode[of example_descriptor] descriptor.decode_encode[of example_descriptor]
  by (simp_all add: sb_of_def desc_of_def example_fs_def superblock_layout_def descriptor_layout_def
      descriptor_valid_def example_descriptor_def)

lemma example_fs_sizes:
  "264 \<le> length (buffer_data (fs_superblock example_fs))" "32 \<le> length (buffer_data (fs_descriptors example_fs))"
  using superblock.length_encode[OF example_superblock_valid] descriptor.length_encode[of example_descriptor]
  by (simp_all add: example_fs_def superblock_layout_def descriptor_layout_def descriptor_valid_def example_descriptor_def)

lemma example_fs_fields [simp]: "fs_num_groups example_fs = 1" "fs_block_size example_fs = 1024"
  by (simp_all add: example_fs_def)

lemma example_fs_ok: "fs_ok memory_driver example_fs"
  using example_fs_sizes by (simp add: fs_ok_def example_fs_parts block_size_ok_def memory_driver_def)

lemma example_disk_contents [simp]: "memory_contents example_disk = example_disk" "length example_disk = 8192"
  by (simp_all add: memory_contents_def example_disk_def fits_usize_def)

lemma example_tables_ok: "tables_ok example_fs example_disk"
  by (simp add: tables_ok_def example_fs_parts block_on_disk_def table_blocks_def div_ceil_def example_descriptor_def)

lemma example_has_inode: "has_inode example_fs 3"
  by (simp add: has_inode_def group_of_def example_fs_parts)

lemma example_inode_used: "inode_used example_fs example_disk 3"
proof -
  have "disk_block 1024 4 example_disk = 0xFF # replicate 1023 0" by (simp add: disk_block_def example_disk_def)
  then show ?thesis
    by (simp add: inode_used_def group_of_def local_of_def example_fs_parts example_descriptor_def bitmap_bit_def)
qed

theorem write_inode_round_trip_witness:
  "\<exists>d'. write_inode memory_driver example_fs (new_file_inode (inode_of_bytes (replicate 128 0)) empty_direct_blocks 1024)
       3 example_disk = Inr d' \<and>
     read_inode memory_driver example_fs 3 d' =
       Inr (Some (new_file_inode (inode_of_bytes (replicate 128 0)) empty_direct_blocks 1024))"
proof -
  let ?i = "new_file_inode (inode_of_bytes (replicate 128 0)) empty_direct_blocks 1024"
  have "inode_valid ?i" by (simp add: inode_valid_def new_file_inode_def empty_direct_blocks_def)
  moreover have "tables_ok example_fs (memory_contents example_disk)" using example_tables_ok by simp
  moreover from this have "read_inode memory_driver example_fs 3 example_disk =
      Inr (Some (inode_on_disk example_fs example_disk 3))"
    using read_inode_of[OF memory_driver_spec example_fs_ok _ example_has_inode, of example_disk] example_inode_used by simp
  ultimately show ?thesis
    using write_inode_round_trip[OF memory_driver_spec example_fs_ok _ example_has_inode example_has_inode, of example_disk ?i]
    by auto
qed

end
