(* ===== verification/File_Path.thy ===== *)
theory File_Path
  imports Prelude
begin

text \<open>
  File paths: kernel/src/vfs/path.rs. A Rust string is its bytes; the separator
  is an ASCII character, so splitting at it is splitting the bytes.
\<close>

section \<open>Model\<close>

definition separator :: char where
  "separator = CHR ''/''"

datatype file_path_component = FilePathComponent string

record file_path =
  absolute :: bool
  components :: "file_path_component list"

text \<open>`str::split` at the separator.\<close>
fun split_at_separator :: "string \<Rightarrow> string list" where
  "split_at_separator [] = [[]]"
| "split_at_separator (c # cs) =
     (if c = separator then [] # split_at_separator cs
      else (case split_at_separator cs of
              [] \<Rightarrow> [[c]]
            | p # ps \<Rightarrow> (c # p) # ps))"

text \<open>`join` of strings with the separator.\<close>
fun join_with_separator :: "string list \<Rightarrow> string" where
  "join_with_separator [] = []"
| "join_with_separator [s] = s"
| "join_with_separator (s # t # ts) = s @ separator # join_with_separator (t # ts)"

definition component_new :: "string \<Rightarrow> file_path_component option outcome" where
  "component_new s =
     and_then (assert_that (separator \<notin> set s)) (\<lambda>_.
     Inr (if s = [] then None else Some (FilePathComponent s)))"

fun as_str :: "file_path_component \<Rightarrow> string" where
  "as_str (FilePathComponent s) = s"

text \<open>`filter_map` over the parts, each of which may panic.\<close>
fun collect_components :: "string list \<Rightarrow> file_path_component list outcome" where
  "collect_components [] = Inr []"
| "collect_components (s # ss) =
     and_then (component_new s) (\<lambda>c.
     and_then (collect_components ss) (\<lambda>cs.
     Inr (case c of None \<Rightarrow> cs | Some c \<Rightarrow> c # cs)))"

definition parse_path :: "string \<Rightarrow> file_path option outcome" where
  "parse_path s =
     (let abs = (s \<noteq> [] \<and> hd s = separator) in
      and_then (collect_components (filter (\<lambda>p. p \<noteq> []) (split_at_separator s))) (\<lambda>cs.
      Inr (if \<not> abs \<and> cs = [] then None else Some \<lparr>absolute = abs, components = cs\<rparr>)))"

definition path_from_str :: "string \<Rightarrow> (file_path, string) result outcome" where
  "path_from_str s =
     and_then (parse_path s) (\<lambda>p.
     Inr (case p of None \<Rightarrow> Err ''file path is empty'' | Some p \<Rightarrow> Ok p))"

definition as_string :: "file_path \<Rightarrow> string" where
  "as_string p =
     (if absolute p then [separator] else []) @ join_with_separator (map as_str (components p))"

definition split_dirname_filename :: "file_path \<Rightarrow> (file_path \<times> file_path_component) option" where
  "split_dirname_filename p =
     (if components p = [] then None
      else Some (\<lparr>absolute = absolute p, components = butlast (components p)\<rparr>, last (components p)))"

section \<open>Facts\<close>

fun component_ok :: "file_path_component \<Rightarrow> bool" where
  "component_ok (FilePathComponent s) \<longleftrightarrow> s \<noteq> [] \<and> separator \<notin> set s"

text \<open>What a parsed path satisfies.\<close>
definition path_ok :: "file_path \<Rightarrow> bool" where
  "path_ok p \<longleftrightarrow> (\<forall>c\<in>set (components p). component_ok c) \<and> (absolute p \<or> components p \<noteq> [])"

lemma split_nonempty: "split_at_separator s \<noteq> []"
  by (induction s) (auto split: list.split)

lemma split_no_separator: "p \<in> set (split_at_separator s) \<Longrightarrow> separator \<notin> set p"
  by (induction s arbitrary: p) (auto split: list.splits if_splits)

lemma collect_components_ok:
  "\<forall>s\<in>set ss. separator \<notin> set s \<and> s \<noteq> [] \<Longrightarrow> collect_components ss = Inr (map FilePathComponent ss)"
  by (induction ss) (simp_all add: component_new_def)

lemma split_prefix: "separator \<notin> set s \<Longrightarrow> split_at_separator s = [s]"
  by (induction s) auto

lemma split_append: "separator \<notin> set s \<Longrightarrow> split_at_separator (s @ separator # t) = s # split_at_separator t"
  by (induction s) auto

lemma split_join:
  "ss \<noteq> [] \<Longrightarrow> \<forall>s\<in>set ss. separator \<notin> set s \<Longrightarrow> split_at_separator (join_with_separator ss) = ss"
  by (induction ss rule: join_with_separator.induct) (simp_all add: split_prefix split_append)

lemma parse_path_eq:
  "parse_path s =
     (let abs = (s \<noteq> [] \<and> hd s = separator);
          cs = map FilePathComponent (filter (\<lambda>p. p \<noteq> []) (split_at_separator s))
      in Inr (if \<not> abs \<and> cs = [] then None else Some \<lparr>absolute = abs, components = cs\<rparr>))"
  using collect_components_ok[of "filter (\<lambda>p. p \<noteq> []) (split_at_separator s)"] split_no_separator[of _ s]
  by (simp add: parse_path_def Let_def)

lemma map_as_str: "map as_str (map FilePathComponent ss) = ss"
  by (induction ss) simp_all

lemma components_of: "\<exists>ss. cs = map FilePathComponent ss"
  by (metis as_str.cases ex_map_conv)

lemma parse_as_string:
  assumes "path_ok p"
  shows "parse_path (as_string p) = Inr (Some p)"
proof -
  obtain ss where cs: "components p = map FilePathComponent ss" using components_of by blast
  have ok: "\<forall>s\<in>set ss. s \<noteq> [] \<and> separator \<notin> set s" using assms by (simp add: path_ok_def cs)
  let ?j = "join_with_separator ss"
  have split: "filter (\<lambda>p. p \<noteq> []) (split_at_separator ?j) = ss"
  proof (cases "ss = []")
    case False
    then have "split_at_separator ?j = ss" using split_join[of ss] ok by simp
    then show ?thesis using ok by simp
  qed simp
  have head: "ss \<noteq> [] \<Longrightarrow> ?j \<noteq> [] \<and> hd ?j \<noteq> separator"
    using ok by (induction ss rule: join_with_separator.induct) (auto simp: hd_append, (metis hd_in_set)+)
  show ?thesis
  proof (cases "absolute p")
    case True
    then show ?thesis using split by (simp add: parse_path_eq as_string_def cs Let_def comp_def)
  next
    case False
    then have "ss \<noteq> []" using assms by (simp add: path_ok_def cs)
    with False head split show ?thesis by (simp add: parse_path_eq as_string_def cs Let_def comp_def)
  qed
qed

text \<open>Parsing a path never panics and gives a path whose components are non-empty and contain no
  separator; printing such a path and parsing it again gives the same path. In particular the
  printed form of a parsed path parses to that path.\<close>
theorem parse_path_round_trip:
  "(\<exists>r. parse_path s = Inr r \<and> (\<forall>p. r = Some p \<longrightarrow> path_ok p \<and> parse_path (as_string p) = Inr (Some p))) \<and>
   (path_ok q \<longrightarrow> parse_path (as_string q) = Inr (Some q))"
proof
  obtain r where r: "parse_path s = Inr r" by (simp add: parse_path_eq Let_def)
  have "path_ok p" if "r = Some p" for p
    using r that split_no_separator[of _ s]
    by (auto simp: parse_path_eq Let_def path_ok_def split: if_splits)
  with r show "\<exists>r. parse_path s = Inr r \<and> (\<forall>p. r = Some p \<longrightarrow> path_ok p \<and> parse_path (as_string p) = Inr (Some p))"
    using parse_as_string by blast
qed (use parse_as_string in blast)

theorem parse_path_round_trip_witness:
  "path_ok \<lparr>absolute = True, components = [FilePathComponent ''usr'', FilePathComponent ''bin'']\<rparr> \<and>
   parse_path (as_string \<lparr>absolute = True, components = [FilePathComponent ''usr'', FilePathComponent ''bin'']\<rparr>) =
     Inr (Some \<lparr>absolute = True, components = [FilePathComponent ''usr'', FilePathComponent ''bin'']\<rparr>)"
proof
  show "path_ok \<lparr>absolute = True, components = [FilePathComponent ''usr'', FilePathComponent ''bin'']\<rparr>"
    by (simp add: path_ok_def separator_def)
  with parse_path_round_trip[THEN conjunct2]
  show "parse_path (as_string \<lparr>absolute = True, components = [FilePathComponent ''usr'', FilePathComponent ''bin'']\<rparr>) =
     Inr (Some \<lparr>absolute = True, components = [FilePathComponent ''usr'', FilePathComponent ''bin'']\<rparr>)"
    by blast
qed

end
