(* ===== verification/Vfs.thy ===== *)
theory Vfs
  imports File_Path Rust_Strings
begin

text \<open>
  The virtual file system: kernel/src/vfs/fs.rs. Its traits are interfaces that
  the file systems implement. A file is given by its `read` method, a function
  from the length of the buffer and the offset to the result and the buffer it
  leaves; a file system is given by its root, the entries of its directories and
  the inodes of its entries. What the default methods `read_all` and
  `traverse_path` make of them is proved once, for every implementation.
\<close>

section \<open>Reading files\<close>

datatype read_result = Success | Done nat

definition READ_ALL_CHUNK :: nat where "READ_ALL_CHUNK = 4096"

type_synonym file_read = "nat \<Rightarrow> nat \<Rightarrow> (read_result \<times> u8 list) outcome"

text \<open>The loop of `read_all`; \<open>None\<close> when the fuel is spent.\<close>
fun read_all_from :: "nat \<Rightarrow> file_read \<Rightarrow> u8 list \<Rightarrow> nat \<Rightarrow> u8 list outcome option" where
  "read_all_from 0 rd buffer offset = None"
| "read_all_from (Suc fuel) rd buffer offset =
     (case rd READ_ALL_CHUNK offset of
        Inl e \<Rightarrow> Some (Inl e)
      | Inr (Success, bs) \<Rightarrow>
          (case usize_add offset (length bs) of
             Inl e \<Rightarrow> Some (Inl e)
           | Inr offset' \<Rightarrow> read_all_from fuel rd (buffer @ bs) offset')
      | Inr (Done n, bs) \<Rightarrow> Some (and_then (slice_range bs 0 n) (\<lambda>s. Inr (buffer @ s))))"

definition read_all :: "nat \<Rightarrow> file_read \<Rightarrow> u8 list outcome option" where
  "read_all fuel rd = read_all_from fuel rd [] 0"

text \<open>What the comments of `FileInodeReadResult` promise, at the offsets that `read_all` uses:
  `Success` fills the buffer with the bytes of the file at the offset, `Done` comes once the
  end is reached and tells how many bytes at the front of the buffer are the rest of the file.\<close>
definition reads_file :: "file_read \<Rightarrow> u8 list \<Rightarrow> bool" where
  "reads_file rd content \<longleftrightarrow> fits_usize (length content + READ_ALL_CHUNK) \<and>
     (\<forall>k. let off = k * READ_ALL_CHUNK in
       (off + READ_ALL_CHUNK < length content \<longrightarrow>
          rd READ_ALL_CHUNK off = Inr (Success, take READ_ALL_CHUNK (drop off content))) \<and>
       (off \<le> length content \<and> length content \<le> off + READ_ALL_CHUNK \<longrightarrow>
          (\<exists>bs. rd READ_ALL_CHUNK off = Inr (Done (length content - off), bs) \<and>
             length content - off \<le> length bs \<and> take (length content - off) bs = drop off content)))"

lemma read_all_from_correct:
  assumes "reads_file rd content" "k * READ_ALL_CHUNK \<le> length content"
    and "length content < (k + fuel) * READ_ALL_CHUNK"
  shows "read_all_from fuel rd (take (k * READ_ALL_CHUNK) content) (k * READ_ALL_CHUNK) = Some (Inr content)"
  using assms(2,3)
proof (induction fuel arbitrary: k)
  case (Suc fuel)
  let ?c = READ_ALL_CHUNK and ?off = "k * READ_ALL_CHUNK"
  show ?case
  proof (cases "?off + ?c < length content")
    case True
    then have "rd ?c ?off = Inr (Success, take ?c (drop ?off content))"
      using assms(1) by (simp add: reads_file_def Let_def)
    moreover have "length (take ?c (drop ?off content)) = ?c" using True by simp
    moreover have "fits_usize (?off + ?c)" using assms(1) True by (simp add: reads_file_def fits_usize_iff)
    moreover have "take ?off content @ take ?c (drop ?off content) = take (Suc k * ?c) content"
      by (simp add: take_add[symmetric] add.commute)
    moreover have "read_all_from fuel rd (take (Suc k * ?c) content) (Suc k * ?c) = Some (Inr content)"
      using True Suc.prems by (intro Suc.IH) simp_all
    ultimately show ?thesis by (simp add: add.commute)
  next
    case False
    then have "\<exists>bs. rd ?c ?off = Inr (Done (length content - ?off), bs) \<and>
        length content - ?off \<le> length bs \<and> take (length content - ?off) bs = drop ?off content"
      using assms(1) Suc.prems(1) unfolding reads_file_def Let_def by (meson not_less)
    then show ?thesis using Suc.prems(1) by auto
  qed
qed simp

text \<open>The whole file is read in one more call than it has full chunks.\<close>
lemma read_all_correct:
  assumes "reads_file rd content" "length content div READ_ALL_CHUNK < fuel"
  shows "read_all fuel rd = Some (Inr content)"
proof -
  have "length content < fuel * READ_ALL_CHUNK"
    using assms(2) by (simp add: READ_ALL_CHUNK_def div_less_iff_less_mult)
  then show ?thesis using read_all_from_correct[OF assms(1), of 0 fuel] by (simp add: read_all_def)
qed

section \<open>Walking paths\<close>

datatype 'n inode_type = FileInode 'n | DirectoryInode 'n

datatype directory_entry_type = FileEntry | DirectoryEntry

record 'n dir_entry =
  dir_entry_name :: "u8 list"
  dir_entry_type :: directory_entry_type
  dir_entry_inode :: "'n inode_type outcome"

record 'n vfs =
  vfs_root :: "'n inode_type outcome"
  vfs_subdirectories :: "'n \<Rightarrow> 'n dir_entry list outcome"

fun traverse_from :: "'n vfs \<Rightarrow> u8 list list \<Rightarrow> 'n inode_type \<Rightarrow> 'n inode_type option outcome" where
  "traverse_from v [] i = Inr (Some i)"
| "traverse_from v (c # cs) i =
     (case i of
        FileInode _ \<Rightarrow> Inr None
      | DirectoryInode dir \<Rightarrow>
          and_then (vfs_subdirectories v dir) (\<lambda>entries.
          case find (\<lambda>e. dir_entry_name e = c) entries of
            None \<Rightarrow> Inr None
          | Some e \<Rightarrow> and_then (dir_entry_inode e) (traverse_from v cs)))"

definition traverse_path :: "'n vfs \<Rightarrow> file_path \<Rightarrow> 'n inode_type option outcome" where
  "traverse_path v p =
     and_then (vfs_root v) (traverse_from v (map (\<lambda>c. bytes_of_string (as_str c)) (components p)))"

text \<open>The messages of `get_path_inode`, without the path that they print.\<close>
datatype path_error = NoFilesystemMounted | PathMustBeAbsolute | NoSuchFileOrDirectory

definition get_path_inode :: "'n vfs option \<Rightarrow> file_path \<Rightarrow> ('n inode_type, path_error) result outcome" where
  "get_path_inode mounted p =
     (case mounted of
        None \<Rightarrow> Inr (Err NoFilesystemMounted)
      | Some v \<Rightarrow>
          if \<not> absolute p then Inr (Err PathMustBeAbsolute)
          else
            and_then (traverse_path v p) (\<lambda>r.
            case r of None \<Rightarrow> Inr (Err NoSuchFileOrDirectory) | Some i \<Rightarrow> Inr (Ok i)))"

lemma traverse_from_append:
  "traverse_from v (cs @ es) i =
     and_then (traverse_from v cs i) (\<lambda>r. case r of None \<Rightarrow> Inr None | Some j \<Rightarrow> traverse_from v es j)"
proof (induction cs arbitrary: i)
  case (Cons c cs)
  have IH: "traverse_from v (cs @ es) =
      (\<lambda>j. and_then (traverse_from v cs j) (\<lambda>r. case r of None \<Rightarrow> Inr None | Some j \<Rightarrow> traverse_from v es j))"
    by (rule ext) (rule Cons.IH)
  have step: "(case find P entries of None \<Rightarrow> Inr None | Some e \<Rightarrow> and_then (dir_entry_inode e) (traverse_from v (cs @ es))) =
      and_then (case find P entries of None \<Rightarrow> Inr None | Some e \<Rightarrow> and_then (dir_entry_inode e) (traverse_from v cs))
        (\<lambda>r. case r of None \<Rightarrow> Inr None | Some j \<Rightarrow> traverse_from v es j)" for P entries
    by (cases "find P entries") (simp_all add: IH and_then_assoc)
  show ?case by (cases i) (simp_all add: step and_then_assoc)
qed simp

end
