(* ===== verification/Ext2_Vfs.thy ===== *)
theory Ext2_Vfs
  imports Ext2_Inodes Vfs
begin

text \<open>
  The ext2 file system behind the VFS interface: kernel/src/fs/ext2/vfs.rs. A
  `VFSInode` is the number and the copy of an inode; the mounted file system it
  shares with the others, and the disk, are passed along.
\<close>

section \<open>Files\<close>

record vfs_inode =
  vi_number :: nat
  vi_inode :: inode

definition read_step ::
  "'d block_driver \<Rightarrow> file_system \<Rightarrow> inode \<Rightarrow> nat \<Rightarrow> nat \<Rightarrow> 'd \<Rightarrow> nat \<Rightarrow>
     u8 list \<times> nat \<times> nat \<Rightarrow> (u8 list \<times> nat \<times> nat) outcome" where
  "read_step drv fs i bsz fin d block st =
     (case st of (buffer, current_offset, bytes_read) \<Rightarrow>
        and_then (read_inode_block drv fs i block d) (\<lambda>b.
        and_then (usize_rem current_offset bsz) (\<lambda>slice_start.
        and_then (usize_sub fin current_offset) (\<lambda>left.
        let slice_end = min bsz left in
        and_then (slice_range (buffer_data b) slice_start slice_end) (\<lambda>slice.
        and_then (slice_range buffer bytes_read (bytes_read + length slice)) (\<lambda>_.
        Inr (overwrite bytes_read slice buffer, current_offset + length slice, bytes_read + length slice)))))))"

definition ext2_read ::
  "'d block_driver \<Rightarrow> file_system \<Rightarrow> vfs_inode \<Rightarrow> 'd \<Rightarrow> u8 list \<Rightarrow> nat \<Rightarrow> (read_result \<times> u8 list) outcome" where
  "ext2_read drv fs vi d buffer offset =
     and_then (assert_that (inode_is_file (vi_inode vi))) (\<lambda>_.
     and_then (fs_sb fs) (\<lambda>sb.
     and_then (block_size sb) (\<lambda>bsz.
     let file_size = inode_size sb (vi_inode vi) in
     and_then (usize_add offset (length buffer)) (\<lambda>stop.
     let fin = min file_size stop in
     and_then (usize_div offset bsz) (\<lambda>start_block.
     and_then (for_each (read_step drv fs (vi_inode vi) bsz fin d) [start_block..<div_ceil fin bsz] (buffer, offset, 0))
       (\<lambda>(buffer', _, bytes_read).
     Inr (if fin = file_size then Done bytes_read else Success, buffer')))))))"

text \<open>Filling a block with the data from position \<open>w\<close> on, and zeros behind the end.\<close>
fun fill_block :: "u8 list \<Rightarrow> nat \<Rightarrow> u8 list \<Rightarrow> u8 list \<times> nat" where
  "fill_block data w [] = ([], w)"
| "fill_block data w (b # bs) =
     (if w < length data then let (bs', w') = fill_block data (w + 1) bs in (data ! w # bs', w')
      else let (bs', w') = fill_block data w bs in (0 # bs', w'))"

definition write_step ::
  "'d block_driver \<Rightarrow> u8 list \<Rightarrow> nat \<Rightarrow> block_buffer \<Rightarrow> nat \<times> 'd \<Rightarrow> (bool \<times> nat \<times> 'd) outcome" where
  "write_step drv data off b st =
     (case st of (written, d) \<Rightarrow>
        if length data \<le> written then Inr (False, written, d)
        else
          let (bs, written') = fill_block data written (buffer_data b) in
          and_then (flush_buffer drv (b\<lparr>buffer_data := bs\<rparr>) d) (\<lambda>d'. Inr (True, written', d')))"

definition ext2_write ::
  "'d block_driver \<Rightarrow> file_system \<Rightarrow> vfs_inode \<Rightarrow> u8 list \<Rightarrow> 'd \<Rightarrow> (bool \<times> vfs_inode \<times> 'd) outcome" where
  "ext2_write drv fs vi data d =
     and_then (assert_that (inode_is_file (vi_inode vi))) (\<lambda>_.
     and_then (iter_file_blocks drv fs (vi_inode vi) (write_step drv data) (0, d)) (\<lambda>(written, d1).
     and_then (assert_that (written = length data)) (\<lambda>_.
     let i = (vi_inode vi)\<lparr>size_low := of_nat (length data)\<rparr> in
     and_then (write_inode drv fs i (vi_number vi) d1) (\<lambda>d2.
     Inr (True, vi\<lparr>vi_inode := i\<rparr>, d2)))))"

section \<open>Directories\<close>

definition vfs_inode_of :: "nat \<Rightarrow> inode \<Rightarrow> vfs_inode inode_type outcome" where
  "vfs_inode_of n i =
     (let vi = \<lparr>vi_number = n, vi_inode = i\<rparr> in
      if inode_is_file i then Inr (FileInode vi)
      else if inode_is_dir i then Inr (DirectoryInode vi)
      else Inl ExplicitPanic)"

definition ext2_read_root :: "'d block_driver \<Rightarrow> file_system \<Rightarrow> 'd \<Rightarrow> vfs_inode inode_type outcome" where
  "ext2_read_root drv fs d = and_then (read_root drv fs d) (\<lambda>(i, n). vfs_inode_of n i)"

definition ext2_get_inode :: "'d block_driver \<Rightarrow> file_system \<Rightarrow> 'd \<Rightarrow> nat \<Rightarrow> vfs_inode inode_type outcome" where
  "ext2_get_inode drv fs d n =
     and_then (read_inode drv fs n d) (\<lambda>r.
     case r of None \<Rightarrow> Inl ExplicitPanic | Some i \<Rightarrow> vfs_inode_of n i)"

definition ext2_entry ::
  "'d block_driver \<Rightarrow> file_system \<Rightarrow> 'd \<Rightarrow> u8 list \<Rightarrow> vfs_inode dir_entry outcome" where
  "ext2_entry drv fs d e =
     and_then (entry_is_file e) (\<lambda>is_file.
     and_then (if is_file then Inr FileEntry
               else and_then (entry_is_dir e) (\<lambda>is_dir. if is_dir then Inr DirectoryEntry else Inl ExplicitPanic)) (\<lambda>kind.
     and_then (entry_inode_number e) (\<lambda>n.
     and_then (entry_name e) (\<lambda>name.
     Inr \<lparr>dir_entry_name = name, dir_entry_type = kind, dir_entry_inode = ext2_get_inode drv fs d n\<rparr>))))"

fun collect_entries ::
  "'d block_driver \<Rightarrow> file_system \<Rightarrow> 'd \<Rightarrow> u8 list list \<Rightarrow> vfs_inode dir_entry list outcome" where
  "collect_entries drv fs d [] = Inr []"
| "collect_entries drv fs d (e # es) =
     and_then (ext2_entry drv fs d e) (\<lambda>x.
     and_then (collect_entries drv fs d es) (\<lambda>xs. Inr (x # xs)))"

definition ext2_subdirectories ::
  "'d block_driver \<Rightarrow> file_system \<Rightarrow> 'd \<Rightarrow> vfs_inode \<Rightarrow> vfs_inode dir_entry list outcome" where
  "ext2_subdirectories drv fs d vi =
     and_then (assert_that (inode_is_dir (vi_inode vi))) (\<lambda>_.
     and_then (iter_directory_blocks drv fs (vi_inode vi)
       (\<lambda>db (entries, d').
          and_then (iter_entries db) (\<lambda>es.
          and_then (collect_entries drv fs d es) (\<lambda>xs.
          Inr (True, entries @ xs, d')))) ([], d)) (\<lambda>(entries, _).
     Inr entries))"

definition ext2_create_file ::
  "'d block_driver \<Rightarrow> file_system \<Rightarrow> vfs_inode \<Rightarrow> u8 list \<Rightarrow> 'd \<Rightarrow>
     (vfs_inode option \<times> file_system \<times> 'd) outcome" where
  "ext2_create_file drv fs vi name d =
     and_then (assert_that (inode_is_dir (vi_inode vi))) (\<lambda>_.
     and_then (create_file drv fs (vi_inode vi) (vi_number vi) name d) (\<lambda>(r, fs', d').
     Inr (map_option (\<lambda>(i, n). \<lparr>vi_number = n, vi_inode = i\<rparr>) r, fs', d')))"

definition ext2_vfs :: "'d block_driver \<Rightarrow> file_system \<Rightarrow> 'd \<Rightarrow> vfs_inode vfs" where
  "ext2_vfs drv fs d =
     \<lparr>vfs_root = ext2_read_root drv fs d, vfs_subdirectories = ext2_subdirectories drv fs d\<rparr>"

text \<open>Mounting: `VFSFileSystem::read`.\<close>
definition vfs_file_system_read :: "'d block_driver \<Rightarrow> 'd \<Rightarrow> (file_system \<times> 'd) outcome" where
  "vfs_file_system_read drv d =
     and_then (fs_read drv d) (\<lambda>(r, d'). and_then (expect r) (\<lambda>fs. Inr (fs, d')))"

section \<open>The content of a file\<close>

text \<open>A file of \<open>k\<close> direct blocks without holes, apart from the inode tables and bitmaps.\<close>
definition file_blocks_ok :: "file_system \<Rightarrow> inode \<Rightarrow> nat \<Rightarrow> u8 list \<Rightarrow> bool" where
  "file_blocks_ok fs i k disk \<longleftrightarrow>
     k \<le> 12 \<and> length (direct_blocks i) = 12 \<and>
     div_ceil (unat (inode_blocks i) * 512) (fs_block_size fs) = k \<and>
     distinct (take k (direct_blocks i)) \<and>
     (\<forall>b\<in>set (take k (direct_blocks i)). b \<noteq> 0 \<and> block_on_disk (fs_block_size fs) (unat b) disk \<and>
        (\<forall>g < fs_num_groups fs. unat b \<noteq> bitmap_address fs g \<and>
           unat b \<notin> {table_address fs g..<table_address fs g + table_blocks fs}))"

definition file_addresses :: "inode \<Rightarrow> nat \<Rightarrow> nat list" where
  "file_addresses i k = map unat (take k (direct_blocks i))"

definition file_bytes :: "nat \<Rightarrow> nat list \<Rightarrow> u8 list \<Rightarrow> u8 list" where
  "file_bytes bsz addrs disk = concat (map (\<lambda>a. disk_block bsz a disk) addrs)"

lemma length_concat_blocks:
  "\<forall>b\<in>set bs. length b = n \<Longrightarrow> length (concat bs) = n * length bs"
  by (induction bs) simp_all

lemma concat_block_nth:
  "\<forall>b\<in>set bs. length b = n \<Longrightarrow> k < length bs \<Longrightarrow> take n (drop (k * n) (concat bs)) = bs ! k"
proof (induction bs arbitrary: k)
  case (Cons b bs)
  then show ?case by (cases k) simp_all
qed simp

end
