(* ===== verification/Ext2_Files.thy ===== *)
theory Ext2_Files
  imports Ext2_Vfs
begin

text \<open>
  What reading and writing a file of an ext2 file system does: the methods `read`
  and `write` of kernel/src/fs/ext2/vfs.rs together with `read_all` of the VFS,
  on files whose blocks are all direct.
\<close>

section \<open>Reading\<close>

lemma block_size_bound: "block_size sb = Inr bsz \<Longrightarrow> bsz < 2 ^ 16"
  using unsigned_less[of "push_bit (unat (log_block_size sb)) (1024 :: u16)", where 'a = nat]
  by (auto simp: block_size_def Let_def split: if_splits)

lemma length_file_addresses: "file_blocks_ok fs i k disk \<Longrightarrow> length (file_addresses i k) = k"
  by (simp add: file_addresses_def file_blocks_ok_def)

lemma file_address_nth:
  assumes "file_blocks_ok fs i k disk" "b < k"
  shows "file_addresses i k ! b = unat (direct_blocks i ! b)" "direct_blocks i ! b \<noteq> 0"
    "block_on_disk (fs_block_size fs) (unat (direct_blocks i ! b)) disk" "b < length (direct_blocks i)" "b < 12"
proof -
  have b: "b < length (take k (direct_blocks i))" using assms by (simp add: file_blocks_ok_def)
  then show "file_addresses i k ! b = unat (direct_blocks i ! b)" by (simp add: file_addresses_def)
  have "direct_blocks i ! b \<in> set (take k (direct_blocks i))" using b by (metis nth_mem nth_take assms(2))
  then show "direct_blocks i ! b \<noteq> 0" "block_on_disk (fs_block_size fs) (unat (direct_blocks i ! b)) disk"
    using assms(1) by (simp_all add: file_blocks_ok_def)
  show "b < length (direct_blocks i)" "b < 12" using assms by (simp_all add: file_blocks_ok_def)
qed

lemma file_block_lengths:
  assumes "file_blocks_ok fs i k disk"
  shows "\<forall>b\<in>set (map (\<lambda>a. disk_block (fs_block_size fs) a disk) (file_addresses i k)). length b = fs_block_size fs"
  using assms by (auto simp: file_addresses_def file_blocks_ok_def intro: length_disk_block)

lemma length_file_bytes:
  "file_blocks_ok fs i k disk \<Longrightarrow>
     length (file_bytes (fs_block_size fs) (file_addresses i k) disk) = fs_block_size fs * k"
  using length_concat_blocks[OF file_block_lengths] by (simp add: file_bytes_def length_file_addresses)

lemma file_bytes_block:
  assumes "file_blocks_ok fs i k disk" "b < k"
  shows "take (fs_block_size fs) (drop (b * fs_block_size fs) (file_bytes (fs_block_size fs) (file_addresses i k) disk)) =
    disk_block (fs_block_size fs) (unat (direct_blocks i ! b)) disk"
  using concat_block_nth[OF file_block_lengths[OF assms(1)], of b] assms(2)
  by (simp add: file_bytes_def length_file_addresses[OF assms(1)] file_address_nth(1)[OF assms])

lemma read_direct_block:
  assumes "driver_spec drv contents" "fs_ok drv fs" "file_blocks_ok fs i k (contents d)" "b < k"
  shows "read_inode_block drv fs i b d =
    Inr (buffer_for drv (fs_block_size fs) (unat (direct_blocks i ! b))
      (disk_block (fs_block_size fs) (unat (direct_blocks i ! b)) (contents d)))"
  using read_one_block[OF assms(1) fs_facts(7)[OF assms(2)] file_address_nth(3)[OF assms(3,4)]]
    file_address_nth(4)[OF assms(3,4)] by (simp add: read_inode_block_def)

text \<open>Bytes of a file up to its size.\<close>
definition file_content :: "file_system \<Rightarrow> inode \<Rightarrow> nat \<Rightarrow> u8 list \<Rightarrow> u8 list" where
  "file_content fs i k disk =
     take (inode_size (sb_of fs) i) (file_bytes (fs_block_size fs) (file_addresses i k) disk)"

lemma file_content_slice:
  assumes "file_blocks_ok fs i k disk" "b < k" "n \<le> fs_block_size fs" "b * fs_block_size fs + n \<le> inode_size (sb_of fs) i"
  shows "take n (drop (b * fs_block_size fs) (file_content fs i k disk)) =
    take n (disk_block (fs_block_size fs) (unat (direct_blocks i ! b)) disk)"
proof -
  let ?f = "file_bytes (fs_block_size fs) (file_addresses i k) disk"
  have "take n (drop (b * fs_block_size fs) (file_content fs i k disk)) = take n (drop (b * fs_block_size fs) ?f)"
    using assms(4) by (simp add: file_content_def drop_take min_absorb1)
  also have "\<dots> = take n (take (fs_block_size fs) (drop (b * fs_block_size fs) ?f))"
    using assms(3) by (simp add: min_absorb1)
  finally show ?thesis by (simp add: file_bytes_block[OF assms(1,2)])
qed

text \<open>The state of the reading loop before block \<open>b\<close>: everything up to it has been copied.\<close>
definition reading_at :: "nat \<Rightarrow> nat \<Rightarrow> nat \<Rightarrow> u8 list \<Rightarrow> u8 list \<Rightarrow> nat \<Rightarrow> u8 list \<times> nat \<times> nat \<Rightarrow> bool" where
  "reading_at bsz off fin content buffer b st \<longleftrightarrow>
     (let cur = min (b * bsz) fin
      in st = (overwrite 0 (take (cur - off) (drop off content)) buffer, cur, cur - off))"

lemma read_step_copies:
  fixes fs i k b
  defines "bsz \<equiv> fs_block_size fs"
  assumes "driver_spec drv contents" "fs_ok drv fs" "file_blocks_ok fs i k (contents d)"
    and "fin \<le> inode_size (sb_of fs) i" "inode_size (sb_of fs) i \<le> bsz * k"
    and "off \<le> b * bsz" "b * bsz < fin" "fin \<le> off + length buffer"
    and "reading_at bsz off fin (file_content fs i k (contents d)) buffer b st"
  shows "\<exists>st'. read_step drv fs i bsz fin d b st = Inr st' \<and>
    reading_at bsz off fin (file_content fs i k (contents d)) buffer (Suc b) st'"
proof -
  let ?c = "file_content fs i k (contents d)" and ?n = "min bsz (fin - b * bsz)" and ?br = "b * bsz - off"
  let ?done = "take ?br (drop off ?c)" and ?s = "take ?n (drop (b * bsz) ?c)"
  have bsz: "0 < bsz" using fs_facts(1)[OF assms(3)] by (simp add: bsz_def)
  have "b * bsz < k * bsz" using assms(5,6,8) unfolding mult.commute[of k] by linarith
  then have bk: "b < k" by simp
  have lc: "length ?c = inode_size (sb_of fs) i"
    using assms(6) length_file_bytes[OF assms(4)] by (simp add: file_content_def bsz_def)
  have s: "take ?n (disk_block bsz (unat (direct_blocks i ! b)) (contents d)) = ?s"
    using file_content_slice[OF assms(4) bk, of ?n] assms(5,8) by (simp add: bsz_def)
  have len: "length ?s = ?n" "length ?done = ?br" using assms(5,7,8) lc by simp_all
  have fit: "?br + ?n \<le> length buffer" using assms(7-9) by simp
  have "drop (b * bsz) ?c = drop ?br (drop off ?c)" using assms(7) by simp
  then have "?done @ ?s = take (?br + ?n) (drop off ?c)" by (simp only: take_add)
  then have ow: "overwrite ?br ?s (overwrite 0 ?done buffer) = overwrite 0 (take (?br + ?n) (drop off ?c)) buffer"
    using overwrite_append[of 0 ?done ?s buffer] fit len by simp
  have lb: "length (disk_block bsz (unat (direct_blocks i ! b)) (contents d)) = bsz"
    using length_disk_block[OF file_address_nth(3)[OF assms(4) bk]] by (simp add: bsz_def)
  have st: "st = (overwrite 0 ?done buffer, b * bsz, ?br)" using assms(8,10) by (simp add: reading_at_def Let_def)
  have "slice_range (disk_block bsz (unat (direct_blocks i ! b)) (contents d)) 0 ?n = Inr ?s"
    unfolding s[symmetric] using lb by (simp add: slice_range_def)
  moreover have "?br + length ?s \<le> length (overwrite 0 ?done buffer)" using fit len by simp
  then have "slice_range (overwrite 0 ?done buffer) ?br (?br + length ?s) =
      Inr (take (length ?s) (drop ?br (overwrite 0 ?done buffer)))" by (simp only: slice_simps le_add1 add_diff_cancel_left')
  ultimately have "read_step drv fs i bsz fin d b st = Inr (overwrite ?br ?s (overwrite 0 ?done buffer), b * bsz + length ?s, ?br + length ?s)"
    unfolding st read_step_def prod.case read_direct_block[OF assms(2-4) bk, folded bsz_def]
    using bsz assms(8) by (simp only: and_then_simps buffer_data_for usize_simps less_imp_le mod_mult_self2_is_0 Let_def neq0_conv)
  then have "read_step drv fs i bsz fin d b st =
      Inr (overwrite 0 (take (?br + ?n) (drop off ?c)) buffer, b * bsz + ?n, ?br + ?n)"
    unfolding ow len(1) .
  moreover have "min (Suc b * bsz) fin = b * bsz + ?n" using assms(8) by auto
  moreover have "b * bsz + ?n - off = ?br + ?n" using assms(7) by simp
  ultimately show ?thesis by (simp add: reading_at_def Let_def)
qed

text \<open>The reading loop copies block by block, when it starts at the beginning of a block.\<close>
lemma read_loop:
  fixes fs i k j
  defines "bsz \<equiv> fs_block_size fs"
  assumes "driver_spec drv contents" "fs_ok drv fs" "file_blocks_ok fs i k (contents d)"
    and "fin \<le> inode_size (sb_of fs) i" "inode_size (sb_of fs) i \<le> bsz * k"
    and "j * bsz \<le> fin" "fin \<le> j * bsz + length buffer"
  shows "for_each (read_step drv fs i bsz fin d) [j..<div_ceil fin bsz] (buffer, j * bsz, 0) =
    Inr (overwrite 0 (take (fin - j * bsz) (drop (j * bsz) (file_content fs i k (contents d)))) buffer, fin, fin - j * bsz)"
proof -
  let ?I = "reading_at bsz (j * bsz) fin (file_content fs i k (contents d)) buffer"
  have bsz: "0 < bsz" using fs_facts(1)[OF assms(3)] by (simp add: bsz_def)
  have ceil: "fin \<le> div_ceil fin bsz * bsz" using div_ceil_le_iff[OF bsz, of fin "div_ceil fin bsz"] by simp
  have "\<exists>st. for_each (read_step drv fs i bsz fin d) [j..<div_ceil fin bsz] (buffer, j * bsz, 0) = Inr st \<and>
      ?I (div_ceil fin bsz) st"
  proof (rule for_range_invariant)
    show "?I j (buffer, j * bsz, 0)" using assms(7) by (simp add: reading_at_def Let_def overwrite_def)
    have "j * bsz \<le> div_ceil fin bsz * bsz" using assms(7) ceil by (rule le_trans)
    then show "j \<le> div_ceil fin bsz" using bsz mult_le_cancel2 by blast
  next
    fix b st assume b: "j \<le> b" "b < div_ceil fin bsz" and I: "?I b st"
    have "b * bsz < fin" using b(2) div_ceil_le_iff[OF bsz, of fin b] by simp
    moreover have "j * bsz \<le> b * bsz" using b(1) by (rule mult_le_mono1)
    ultimately show "\<exists>st'. read_step drv fs i bsz fin d b st = Inr st' \<and> ?I (Suc b) st'"
      using read_step_copies[OF assms(2-4), of fin "j * bsz" b buffer st] assms(5,6,8) I
      by (simp add: bsz_def)
  qed
  then show ?thesis using ceil by (auto simp: reading_at_def Let_def min_absorb2)
qed

text \<open>Reading from a block boundary inside the file.\<close>
lemma ext2_read_aligned:
  fixes fs vi k j
  defines "bsz \<equiv> fs_block_size fs" and "sz \<equiv> inode_size (sb_of fs) (vi_inode vi)"
  assumes "driver_spec drv contents" "fs_ok drv fs" "file_blocks_ok fs (vi_inode vi) k (contents d)"
    and "inode_is_file (vi_inode vi)" "sz \<le> bsz * k" "j * bsz \<le> sz" "fits_usize (j * bsz + length buffer)"
  shows "ext2_read drv fs vi d buffer (j * bsz) =
    (let fin = min sz (j * bsz + length buffer) in
     Inr (if fin = sz then Done (fin - j * bsz) else Success,
       overwrite 0 (take (fin - j * bsz) (drop (j * bsz) (file_content fs (vi_inode vi) k (contents d)))) buffer))"
proof -
  let ?fin = "min sz (j * bsz + length buffer)"
  have bsz: "0 < bsz" using fs_facts(1)[OF assms(4)] by (simp add: bsz_def)
  have "for_each (read_step drv fs (vi_inode vi) bsz ?fin d) [j..<div_ceil ?fin bsz] (buffer, j * bsz, 0) =
      Inr (overwrite 0 (take (?fin - j * bsz) (drop (j * bsz) (file_content fs (vi_inode vi) k (contents d)))) buffer,
        ?fin, ?fin - j * bsz)"
    unfolding bsz_def by (rule read_loop[OF assms(3-5)]) (use assms(7,8) in \<open>simp_all add: sz_def bsz_def\<close>)
  then show ?thesis
    using assms(6,9) bsz fs_facts(6)[OF assms(4)]
    by (simp add: ext2_read_def fs_sb_eq[OF assms(4)] bsz_def[symmetric] sz_def[symmetric] Let_def)
qed

section \<open>Writing\<close>

definition data_chunk :: "nat \<Rightarrow> u8 list \<Rightarrow> nat \<Rightarrow> u8 list" where
  "data_chunk bsz data m = take bsz (drop (m * bsz) data) @ replicate (bsz - (length data - m * bsz)) 0"

lemma length_data_chunk: "length (data_chunk bsz data m) = bsz"
  by (simp add: data_chunk_def)

lemma fill_block_eq:
  "w \<le> length data \<Longrightarrow> fill_block data w bs =
     (take (length bs) (drop w data) @ replicate (length bs - (length data - w)) 0, min (length data) (w + length bs))"
proof (induction bs arbitrary: w)
  case (Cons b bs)
  show ?case
  proof (cases "w < length data")
    case True
    then have "drop w data = data ! w # drop (w + 1) data" by (simp add: Cons_nth_drop_Suc)
    with True Cons.IH[of "w + 1"] show ?thesis by simp
  next
    case False
    with Cons.prems have "w = length data" by simp
    with Cons.IH[of w] show ?thesis by simp
  qed
qed simp

text \<open>The iterator over the blocks of a file without holes, before its block \<open>j\<close>.\<close>
definition blocks_iterator :: "inode \<Rightarrow> nat \<Rightarrow> nat \<Rightarrow> nat \<Rightarrow> inode_block_iterator" where
  "blocks_iterator i bsz k j =
     \<lparr>iter_direct_blocks = direct_blocks i, iter_block_size = bsz, iter_num_blocks = k,
      seen_blocks = j, iter_index = j\<rparr>"

lemma blocks_iterator_start:
  assumes "fs_ok drv fs" "file_blocks_ok fs i k disk"
  shows "iter_inode_blocks (sb_of fs) i = Inr (blocks_iterator i (fs_block_size fs) k 0)"
proof -
  have "unat (inode_blocks i) < 2 ^ 32" using unsigned_less[of "inode_blocks i", where 'a = nat] by simp
  then have "fits_usize (unat (inode_blocks i) * 512)" by (simp add: fits_usize_iff)
  then show ?thesis
    using assms(2) fs_facts(1,6)[OF assms(1)]
    by (simp add: iter_inode_blocks_def blocks_iterator_def file_blocks_ok_def)
qed

lemma blocks_iterator_next:
  assumes "file_blocks_ok fs i k disk" "fs_block_size fs < 2 ^ 16" "j \<le> k"
  shows "inode_block_next (blocks_iterator i (fs_block_size fs) k j) =
    (if j < k then Inr (Some (j * fs_block_size fs, unat (direct_blocks i ! j)),
                        blocks_iterator i (fs_block_size fs) k (j + 1))
     else Inr (None, blocks_iterator i (fs_block_size fs) k j))"
proof (cases "j < k")
  case True
  note nth = file_address_nth[OF assms(1) True]
  have "j * fs_block_size fs \<le> 12 * 2 ^ 16" using nth(5) assms(2) by (intro mult_le_mono) simp_all
  then have "fits_usize (j * fs_block_size fs)" by (simp add: fits_usize_iff)
  then show ?thesis using True nth(2,4,5)
    by (subst inode_block_next.simps) (simp add: blocks_iterator_def Let_def)
next
  case False
  then show ?thesis by (subst inode_block_next.simps) (simp add: blocks_iterator_def)
qed

lemma write_step_eq:
  assumes "driver_spec drv contents" "block_size_ok drv bsz" "block_on_disk bsz a (contents d)"
    and "m * bsz < length data" "length bs = bsz"
  shows "\<exists>d'. write_step drv data off (buffer_for drv bsz a bs) (m * bsz, d) =
      Inr (True, min (length data) (Suc m * bsz), d') \<and>
    contents d' = overwrite (a * bsz) (data_chunk bsz data m) (contents d)"
proof -
  have "fill_block data (m * bsz) bs = (data_chunk bsz data m, min (length data) (Suc m * bsz))"
    using assms(4,5) by (simp add: fill_block_eq data_chunk_def add.commute)
  then show ?thesis
    using flush_one_block[OF assms(1-3) length_data_chunk[of bsz data m]] assms(4)
    by (auto simp: write_step_def)
qed

text \<open>What the writing loop leaves on the disk: the chunks of the data in the blocks of the
  file from block \<open>j\<close> on, and no change in other blocks.\<close>
definition chunks_written :: "nat \<Rightarrow> nat list \<Rightarrow> u8 list \<Rightarrow> nat \<Rightarrow> u8 list \<Rightarrow> u8 list \<Rightarrow> bool" where
  "chunks_written bsz addrs data j disk disk' \<longleftrightarrow> length disk' = length disk \<and>
     (\<forall>m. j \<le> m \<and> m < length addrs \<and> m * bsz < length data \<longrightarrow>
        disk_block bsz (addrs ! m) disk' = data_chunk bsz data m) \<and>
     (\<forall>a. a \<notin> set (drop j addrs) \<longrightarrow> disk_block bsz a disk' = disk_block bsz a disk)"

lemma chunks_written_none: "length data \<le> j * bsz \<Longrightarrow> chunks_written bsz addrs data j disk disk"
proof -
  assume "length data \<le> j * bsz"
  then have "\<not> m * bsz < length data" if "j \<le> m" for m
    using mult_le_mono1[OF that, of bsz] by linarith
  then show ?thesis by (auto simp: chunks_written_def)
qed

lemma chunks_written_step:
  assumes "distinct addrs" "j < length addrs" "block_on_disk bsz (addrs ! j) disk"
    and "chunks_written bsz addrs data (Suc j) (overwrite (addrs ! j * bsz) (data_chunk bsz data j) disk) disk'"
  shows "chunks_written bsz addrs data j disk disk'"
proof -
  note block = disk_block_overwrite[OF assms(3) length_data_chunk[of bsz data j]]
  have drop: "drop j addrs = addrs ! j # drop (Suc j) addrs" using assms(2) by (simp add: Cons_nth_drop_Suc)
  have notin: "addrs ! j \<notin> set (drop (Suc j) addrs)"
    using assms(1) distinct_drop[of addrs j] unfolding drop by simp
  have "addrs ! j * bsz + length (data_chunk bsz data j) \<le> length disk"
    using assms(3) by (simp add: block_on_disk_def length_data_chunk)
  then have len: "length disk' = length disk" using assms(4) by (simp add: chunks_written_def)
  have "disk_block bsz (addrs ! m) disk' = data_chunk bsz data m"
    if "j \<le> m" "m < length addrs" "m * bsz < length data" for m
  proof (cases "m = j")
    case True
    then show ?thesis using assms(4) notin block by (simp add: chunks_written_def)
  next
    case False
    then show ?thesis using that assms(4) by (simp add: chunks_written_def)
  qed
  moreover have "disk_block bsz a disk' = disk_block bsz a disk" if "a \<notin> set (drop j addrs)" for a
    using that assms(4) block unfolding drop by (simp add: chunks_written_def)
  ultimately show ?thesis using len by (simp add: chunks_written_def)
qed

lemma file_blocks_ok_length:
  "file_blocks_ok fs i k disk \<Longrightarrow> length disk' = length disk \<Longrightarrow> file_blocks_ok fs i k disk'"
  by (simp add: file_blocks_ok_def block_on_disk_def)

lemma distinct_file_addresses: "file_blocks_ok fs i k disk \<Longrightarrow> distinct (file_addresses i k)"
  by (simp add: file_addresses_def file_blocks_ok_def distinct_map inj_on_def word_unat_eq_iff)

lemma write_step_done: "length data \<le> w \<Longrightarrow> write_step drv data off b (w, d) = Inr (False, w, d)"
  by (simp add: write_step_def)

text \<open>One turn of the loop over the blocks of a file.\<close>
lemma iter_file_turn:
  assumes "driver_spec drv contents" "fs_ok drv fs" "file_blocks_ok fs i k (contents d)" "j \<le> k"
  shows "iter_file_from drv (fs_block_size fs) func (blocks_iterator i (fs_block_size fs) k j) (w, d) =
    (if j < k then
       let a = unat (direct_blocks i ! j) in
       and_then (func (j * fs_block_size fs)
           (buffer_for drv (fs_block_size fs) a (disk_block (fs_block_size fs) a (contents d))) (w, d))
         (\<lambda>(go_on, sd). if go_on
           then iter_file_from drv (fs_block_size fs) func (blocks_iterator i (fs_block_size fs) k (Suc j)) sd
           else Inr sd)
     else Inr (w, d))"
proof -
  note step = blocks_iterator_next[OF assms(3) block_size_bound[OF fs_facts(6)[OF assms(2)]] assms(4)]
  show ?thesis
  proof (cases "j < k")
    case True
    from read_one_block[OF assms(1) fs_facts(7)[OF assms(2)] file_address_nth(3)[OF assms(3) True]] True step
    show ?thesis by (subst iter_file_from.simps) (simp add: Let_def)
  next
    case False
    with step show ?thesis by (subst iter_file_from.simps) simp
  qed
qed

lemma write_loop:
  assumes "driver_spec drv contents" "fs_ok drv fs" "file_blocks_ok fs i (j + n) (contents d)"
    and "length data \<le> (j + n) * fs_block_size fs"
  shows "\<exists>d'. iter_file_from drv (fs_block_size fs) (write_step drv data)
      (blocks_iterator i (fs_block_size fs) (j + n) j) (min (length data) (j * fs_block_size fs), d) =
      Inr (length data, d') \<and>
    chunks_written (fs_block_size fs) (file_addresses i (j + n)) data j (contents d) (contents d')"
  using assms(3,4)
proof (induction n arbitrary: j d)
  case 0
  then show ?case
    using chunks_written_none[of data j "fs_block_size fs"]
    by (simp add: iter_file_turn[OF assms(1,2)] min_absorb1)
next
  case (Suc n)
  let ?bsz = "fs_block_size fs" and ?a = "unat (direct_blocks i ! j)" and ?k = "j + Suc n"
  have jk: "j < ?k" by simp
  note nth = file_address_nth[OF Suc.prems(1) jk] and turn = iter_file_turn[OF assms(1,2) Suc.prems(1) less_imp_le[OF jk]]
  show ?case
  proof (cases "length data \<le> j * ?bsz")
    case True
    then show ?thesis
      unfolding turn using chunks_written_none[OF True] jk by (simp add: write_step_done Let_def min_absorb1)
  next
    case False
    then have less: "j * ?bsz < length data" by simp
    from write_step_eq[OF assms(1) fs_facts(7)[OF assms(2)] nth(3) less length_disk_block[OF nth(3)], of "j * ?bsz"]
    obtain d1 where d1: "write_step drv data (j * ?bsz) (buffer_for drv ?bsz ?a (disk_block ?bsz ?a (contents d))) (j * ?bsz, d) =
        Inr (True, min (length data) (Suc j * ?bsz), d1)"
      and c1: "contents d1 = overwrite (?a * ?bsz) (data_chunk ?bsz data j) (contents d)" by blast
    have shift: "Suc j + n = ?k" by simp
    have "length (contents d1) = length (contents d)"
      using nth(3) by (simp add: c1 block_on_disk_def length_data_chunk)
    from Suc.IH[of "Suc j" d1, unfolded shift, OF file_blocks_ok_length[OF Suc.prems(1) this] Suc.prems(2)]
    obtain d' where d': "iter_file_from drv ?bsz (write_step drv data) (blocks_iterator i ?bsz ?k (Suc j))
        (min (length data) (Suc j * ?bsz), d1) = Inr (length data, d')"
      and c': "chunks_written ?bsz (file_addresses i ?k) data (Suc j) (contents d1) (contents d')" by blast
    have "j < length (file_addresses i ?k)" using jk by (simp only: length_file_addresses[OF Suc.prems(1)])
    from chunks_written_step[OF distinct_file_addresses[OF Suc.prems(1)] this] c' nth(3)
    have "chunks_written ?bsz (file_addresses i ?k) data j (contents d) (contents d')"
      unfolding nth(1) c1 by blast
    moreover have "min (length data) (j * ?bsz) = j * ?bsz" using less by simp
    ultimately show ?thesis
      unfolding turn using jk by (simp only: if_True Let_def d1 and_then_simps prod.case d') simp
  qed
qed

text \<open>Reading the chunks one after the other gives the data.\<close>
lemma chunks_are_data:
  assumes "0 < bsz" "length data \<le> length xs"
    and "\<And>m. m * bsz < length data \<Longrightarrow> take bsz (drop (m * bsz) xs) = data_chunk bsz data m"
  shows "take (length data) xs = data"
proof (rule nth_equalityI)
  fix p assume "p < length (take (length data) xs)"
  then have p: "p < length data" by simp
  define m r where "m = p div bsz" and "r = p mod bsz"
  have mr: "p = m * bsz + r" "r < bsz" using assms(1) by (simp_all add: m_def r_def)
  have "take bsz (drop (m * bsz) xs) ! r = data_chunk bsz data m ! r" using assms(3)[of m] p mr by simp
  moreover have "take bsz (drop (m * bsz) xs) ! r = xs ! p" using mr p assms(2) by simp
  moreover have "r < length data - m * bsz" using mr p by simp
  then have "data_chunk bsz data m ! r = data ! p" using mr p by (simp add: data_chunk_def nth_append)
  ultimately show "take (length data) xs ! p = data ! p" using p by simp
qed (use assms(2) in simp)

lemma content_after_write:
  assumes "fs_ok drv fs" "file_blocks_ok fs i k disk'" "length data \<le> fs_block_size fs * k"
    and "chunks_written (fs_block_size fs) (file_addresses i k) data 0 disk disk'"
    and "inode_size (sb_of fs) i' = length data" "direct_blocks i' = direct_blocks i"
  shows "file_content fs i' k disk' = data"
proof -
  let ?bsz = "fs_block_size fs"
  have addrs: "file_addresses i' k = file_addresses i k" using assms(6) by (simp add: file_addresses_def)
  have "take (length data) (file_bytes ?bsz (file_addresses i k) disk') = data"
  proof (rule chunks_are_data[OF fs_facts(1)[OF assms(1)]])
    show "length data \<le> length (file_bytes ?bsz (file_addresses i k) disk')"
      using assms(3) length_file_bytes[OF assms(2)] by simp
    fix m assume m: "m * ?bsz < length data"
    then have "m * ?bsz < k * ?bsz" using assms(3) unfolding mult.commute[of k] by linarith
    then have mk: "m < k" by simp
    then have "disk_block ?bsz (file_addresses i k ! m) disk' = data_chunk ?bsz data m"
      using assms(4) m length_file_addresses[OF assms(2)] by (simp add: chunks_written_def)
    then show "take ?bsz (drop (m * ?bsz) (file_bytes ?bsz (file_addresses i k) disk')) = data_chunk ?bsz data m"
      using file_bytes_block[OF assms(2) mk] file_address_nth(1)[OF assms(2) mk] by simp
  qed
  then show ?thesis by (simp add: file_content_def addrs assms(5))
qed

section \<open>Writing a file and reading it back\<close>

lemma file_block_apart:
  assumes "fs_ok drv fs" "file_blocks_ok fs i k disk" "has_inode fs m" "a \<in> set (file_addresses i k)"
  shows "a \<noteq> bitmap_address fs (group_of fs m)" "a \<noteq> slot_block fs m"
proof -
  let ?g = "group_of fs m"
  have g: "?g < fs_num_groups fs" using assms(3) by (simp add: has_inode_def)
  obtain b where b: "b \<in> set (take k (direct_blocks i))" "a = unat b"
    using assms(4) by (auto simp: file_addresses_def)
  then have "unat b \<noteq> bitmap_address fs ?g" "unat b \<notin> {table_address fs ?g..<table_address fs ?g + table_blocks fs}"
    using assms(2) g unfolding file_blocks_ok_def by blast+
  then show "a \<noteq> bitmap_address fs ?g" "a \<noteq> slot_block fs m"
    using b(2) slot_block_in_table[OF assms(1), of m] by metis+
qed

text \<open>Writing the data touches no inode, and writing an inode touches no data.\<close>
lemma inodes_after_data:
  assumes "fs_ok drv fs" "file_blocks_ok fs i k disk" "has_inode fs m"
    and "chunks_written (fs_block_size fs) (file_addresses i k) data 0 disk disk'"
  shows "inode_used fs disk' m = inode_used fs disk m" "inode_on_disk fs disk' m = inode_on_disk fs disk m"
proof -
  have "bitmap_address fs (group_of fs m) \<notin> set (file_addresses i k)" "slot_block fs m \<notin> set (file_addresses i k)"
    using file_block_apart[OF assms(1-3)] by blast+
  then show "inode_used fs disk' m = inode_used fs disk m" "inode_on_disk fs disk' m = inode_on_disk fs disk m"
    using assms(4) by (simp_all add: chunks_written_def inode_used_def inode_on_disk_def)
qed

lemma content_after_inode:
  assumes "fs_ok drv fs" "file_blocks_ok fs i k disk" "has_inode fs n" "tables_ok fs disk" "direct_blocks i' = direct_blocks i"
    and "length new = fs_block_size fs"
  shows "file_content fs i' k (overwrite (slot_block fs n * fs_block_size fs) new disk) = file_content fs i' k disk"
proof -
  have "disk_block (fs_block_size fs) a (overwrite (slot_block fs n * fs_block_size fs) new disk) =
      disk_block (fs_block_size fs) a disk" if "a \<in> set (file_addresses i k)" for a
    using disk_block_overwrite[OF slot_on_disk(1)[OF assms(1,4,3)] assms(6)] file_block_apart(2)[OF assms(1-3) that] by simp
  then show ?thesis using assms(5) by (simp add: file_content_def file_bytes_def file_addresses_def cong: map_cong)
qed

lemma inode_size_written:
  assumes "n < 2 ^ 32" "rev_level sb = 0 \<or> size_high i = 0"
  shows "inode_size sb (i\<lparr>size_low := of_nat n\<rparr>) = n"
proof -
  have u: "unat (of_nat n :: u32) = n" using assms(1) by (rule unat_of_nat_small(3))
  have "unat (push_bit 32 (0 :: u64) OR ucast (of_nat n :: u32)) = n"
    using u assms(1) by (simp add: unsigned_ucast_eq take_bit_nat_eq_self)
  with u assms(2) show ?thesis by (auto simp: inode_size_def)
qed

text \<open>A file whose block size divides the chunks of `read_all` is read as the VFS expects.\<close>
lemma ext2_reads_file:
  assumes "driver_spec drv contents" "fs_ok drv fs" "file_blocks_ok fs (vi_inode vi) k (contents d)"
    and "inode_is_file (vi_inode vi)" "inode_size (sb_of fs) (vi_inode vi) \<le> fs_block_size fs * k"
    and "fs_block_size fs dvd READ_ALL_CHUNK"
  shows "reads_file (\<lambda>len. ext2_read drv fs vi d (replicate len 0)) (file_content fs (vi_inode vi) k (contents d))"
proof -
  let ?bsz = "fs_block_size fs" and ?c = "file_content fs (vi_inode vi) k (contents d)"
  let ?size = "inode_size (sb_of fs) (vi_inode vi)"
  have lc: "length ?c = ?size" using assms(5) length_file_bytes[OF assms(3)] by (simp add: file_content_def)
  have "?bsz * k \<le> 2 ^ 16 * 12" using block_size_bound[OF fs_facts(6)[OF assms(2)]] assms(3)
    by (intro mult_le_mono) (simp_all add: file_blocks_ok_def)
  then have fits: "fits_usize (?size + READ_ALL_CHUNK)" using assms(5) by (simp add: fits_usize_iff READ_ALL_CHUNK_def)
  obtain q where q: "READ_ALL_CHUNK = q * ?bsz" using assms(6) by (metis dvdE mult.commute)
  have rd: "ext2_read drv fs vi d (replicate READ_ALL_CHUNK 0) (m * READ_ALL_CHUNK) =
      (let fin = min ?size (m * READ_ALL_CHUNK + READ_ALL_CHUNK) in
       Inr (if fin = ?size then Done (fin - m * READ_ALL_CHUNK) else Success,
         overwrite 0 (take (fin - m * READ_ALL_CHUNK) (drop (m * READ_ALL_CHUNK) ?c)) (replicate READ_ALL_CHUNK 0)))"
    if "m * READ_ALL_CHUNK \<le> ?size" for m
  proof -
    have e: "m * READ_ALL_CHUNK = (m * q) * ?bsz" by (simp add: q)
    have "fits_usize (m * READ_ALL_CHUNK + READ_ALL_CHUNK)" using fits that by (simp add: fits_usize_iff)
    then show ?thesis
      using ext2_read_aligned[OF assms(1-5), of "m * q" "replicate READ_ALL_CHUNK 0"] that unfolding e[symmetric] by simp
  qed
  show ?thesis unfolding reads_file_def Let_def lc
  proof (intro conjI allI impI)
    show "fits_usize (?size + READ_ALL_CHUNK)" by (rule fits)
    fix m assume "m * READ_ALL_CHUNK + READ_ALL_CHUNK < ?size"
    then show "ext2_read drv fs vi d (replicate READ_ALL_CHUNK 0) (m * READ_ALL_CHUNK) =
        Inr (Success, take READ_ALL_CHUNK (drop (m * READ_ALL_CHUNK) ?c))"
      using lc by (simp add: rd Let_def overwrite_def min_absorb2)
  next
    fix m assume "m * READ_ALL_CHUNK \<le> ?size \<and> ?size \<le> m * READ_ALL_CHUNK + READ_ALL_CHUNK"
    then show "\<exists>bs. ext2_read drv fs vi d (replicate READ_ALL_CHUNK 0) (m * READ_ALL_CHUNK) =
        Inr (Done (?size - m * READ_ALL_CHUNK), bs) \<and> ?size - m * READ_ALL_CHUNK \<le> length bs \<and>
        take (?size - m * READ_ALL_CHUNK) bs = drop (m * READ_ALL_CHUNK) ?c"
      using lc by (auto simp: rd Let_def overwrite_def min_absorb1)
  qed
qed

text \<open>What `write` leaves on the disk.\<close>
lemma ext2_write_effect:
  assumes "driver_spec drv contents" "fs_ok drv fs" "tables_ok fs (contents d)" "has_inode fs (vi_number vi)"
    and "inode_used fs (contents d) (vi_number vi)" "inode_valid (vi_inode vi)" "inode_is_file (vi_inode vi)"
    and "file_blocks_ok fs (vi_inode vi) k (contents d)" "length data \<le> fs_block_size fs * k"
  defines "i \<equiv> (vi_inode vi)\<lparr>size_low := of_nat (length data)\<rparr>"
  shows "\<exists>d1 d2. ext2_write drv fs vi data d = Inr (True, vi\<lparr>vi_inode := i\<rparr>, d2) \<and>
    chunks_written (fs_block_size fs) (file_addresses (vi_inode vi) k) data 0 (contents d) (contents d1) \<and>
    contents d2 = overwrite (slot_block fs (vi_number vi) * fs_block_size fs)
      (overwrite (slot_offset fs (vi_number vi)) (encode inode_layout i)
        (disk_block (fs_block_size fs) (slot_block fs (vi_number vi)) (contents d1))) (contents d1)"
proof -
  from write_loop[OF assms(1,2), of "vi_inode vi" 0 k d data] assms(8,9) obtain d1 where
    d1: "iter_file_from drv (fs_block_size fs) (write_step drv data)
        (blocks_iterator (vi_inode vi) (fs_block_size fs) k 0) (0, d) = Inr (length data, d1)"
      "chunks_written (fs_block_size fs) (file_addresses (vi_inode vi) k) data 0 (contents d) (contents d1)"
    by (auto simp: mult.commute)
  have len: "length (contents d1) = length (contents d)" using d1(2) by (simp add: chunks_written_def)
  have t1: "tables_ok fs (contents d1)" using assms(3) len by (simp add: tables_ok_def block_on_disk_def)
  have u1: "inode_used fs (contents d1) (vi_number vi)"
    using inodes_after_data(1)[OF assms(2,8,4) d1(2)] assms(5) by simp
  have "inode_valid i" using assms(6) by (simp add: i_def inode_valid_def)
  from write_inode_of[OF assms(1,2) t1 assms(4) this u1] obtain d2 where
    d2: "write_inode drv fs i (vi_number vi) d1 = Inr d2"
      "contents d2 = overwrite (slot_block fs (vi_number vi) * fs_block_size fs)
        (overwrite (slot_offset fs (vi_number vi)) (encode inode_layout i)
          (disk_block (fs_block_size fs) (slot_block fs (vi_number vi)) (contents d1))) (contents d1)" by blast
  have "ext2_write drv fs vi data d = Inr (True, vi\<lparr>vi_inode := i\<rparr>, d2)"
    using assms(7) d1(1) d2(1)
    by (simp add: ext2_write_def iter_file_blocks_def fs_sb_eq[OF assms(2)] blocks_iterator_start[OF assms(2,8)] i_def)
  with d1(2) d2(2) show ?thesis by blast
qed


section \<open>Reading from the middle of a block\<close>

text \<open>C31: The slice `read` takes of a block ends at `min(block_size, end - current_offset)`, a length, while it
  starts at `current_offset mod block_size`, a position in the block.  So a read inside a file that starts behind
  the number of bytes it wants panics with a slice index out of order (fs/ext2/vfs.rs 83-86).\<close>
theorem ext2_read_unaligned_panics:
  assumes "driver_spec drv contents" "fs_ok drv fs" "file_blocks_ok fs (vi_inode vi) k (contents d)"
    and "inode_is_file (vi_inode vi)" "inode_size (sb_of fs) (vi_inode vi) \<le> fs_block_size fs * k"
    and "fits_usize (offset + length buffer)" "0 < length buffer" "offset < inode_size (sb_of fs) (vi_inode vi)"
    and "min (inode_size (sb_of fs) (vi_inode vi) - offset) (length buffer) < offset mod fs_block_size fs"
  shows "ext2_read drv fs vi d buffer offset = Inl IndexOutOfBounds"
proof -
  let ?bsz = "fs_block_size fs" and ?fin = "min (inode_size (sb_of fs) (vi_inode vi)) (offset + length buffer)"
  let ?j = "offset div ?bsz"
  have bsz: "0 < ?bsz" by (rule fs_facts(1)[OF assms(2)])
  have "offset < ?bsz * k" using assms(5,8) by linarith
  then have jk: "?j < k" using bsz by (simp add: div_less_iff_less_mult mult.commute)
  have fin: "offset < ?fin" "?fin - offset < offset mod ?bsz"
    using assms(7,8,9) by (auto simp: min_def split: if_splits)
  have "?j < div_ceil ?fin ?bsz" by (rule div_less_div_ceil[OF bsz fin(1)])
  then have turns: "[?j..<div_ceil ?fin ?bsz] = ?j # [Suc ?j..<div_ceil ?fin ?bsz]" by (rule upt_conv_Cons)
  have "read_step drv fs (vi_inode vi) ?bsz ?fin d ?j (buffer, offset, 0) = Inl IndexOutOfBounds"
    using fin bsz by (simp add: read_step_def read_direct_block[OF assms(1-3) jk] Let_def slice_range_def)
  then show ?thesis
    using assms(4,6) bsz fs_facts(6)[OF assms(2)]
    by (simp add: ext2_read_def fs_sb_eq[OF assms(2)] Let_def turns del: upt_Suc)
qed

section \<open>An example file\<close>

text \<open>Block 6 of the example disk holds the only block of an 800-byte file with inode 3.\<close>
definition example_file :: vfs_inode where
  "example_file = \<lparr>vi_number = 3, vi_inode =
     (new_file_inode (inode_of_bytes (replicate 128 0)) (empty_direct_blocks[0 := 6]) 1024)\<lparr>size_low := 800\<rparr>\<rparr>"

lemma example_file_inode:
  "inode_valid (vi_inode example_file)" "inode_is_file (vi_inode example_file)" "size_high (vi_inode example_file) = 0"
  "inode_size (sb_of example_fs) (vi_inode example_file) = 800" "vi_number example_file = 3"
  by (simp_all add: example_file_def inode_valid_def new_file_inode_def empty_direct_blocks_def inode_is_file_def
      new_file_mode_def IFREG_def inode_size_def example_fs_parts example_superblock_def)

lemma example_file_blocks_ok: "file_blocks_ok example_fs (vi_inode example_file) 1 example_disk"
proof -
  have "(replicate 12 0)[0 := 6 :: u32] = 6 # replicate 11 0" by (simp add: list_eq_iff_nth_eq nth_list_update nth_Cons split: nat.split)
  then show ?thesis
    by (simp add: file_blocks_ok_def example_file_def new_file_inode_def empty_direct_blocks_def div_ceil_def block_on_disk_def
      table_blocks_def example_fs_parts example_descriptor_def)
qed


theorem ext2_read_unaligned_panics_witness:
  "ext2_read memory_driver example_fs example_file example_disk [0, 0] 700 = Inl IndexOutOfBounds"
  using ext2_read_unaligned_panics[OF memory_driver_spec example_fs_ok, of example_file 1 example_disk 700 "[0, 0]"]
    example_file_inode example_file_blocks_ok by (simp add: fits_usize_def)

end
