(* ===== verification/Sysfs.thy ===== *)
theory Sysfs
  imports Vfs
begin

text \<open>
  The file system that shows the tasks of the kernel: kernel/src/fs/sysfs.rs. It
  has one directory per task with one file in it. The numbers of the tasks, which
  the scheduler keeps, and the text that Rust's derived formatter makes of a task
  are parameters.
\<close>

section \<open>Directories\<close>

datatype sysfs_node = VFSRootInode | VFSTasksDirectory | VFSTaskDirectory nat | VFSTaskInfoFile nat

text \<open>`format!("{}", n)` of an unsigned number.\<close>
fun show_decimal :: "nat \<Rightarrow> u8 list" where
  "show_decimal n = (if n < 10 then [of_nat (48 + n)] else show_decimal (n div 10) @ [of_nat (48 + n mod 10)])"

declare show_decimal.simps [simp del]

definition sysfs_inode :: "sysfs_node \<Rightarrow> sysfs_node inode_type" where
  "sysfs_inode node = (case node of VFSTaskInfoFile n \<Rightarrow> FileInode node | _ \<Rightarrow> DirectoryInode node)"

definition sysfs_entry :: "u8 list \<Rightarrow> directory_entry_type \<Rightarrow> sysfs_node \<Rightarrow> sysfs_node dir_entry" where
  "sysfs_entry name kind node =
     \<lparr>dir_entry_name = name, dir_entry_type = kind, dir_entry_inode = Inr (sysfs_inode node)\<rparr>"

fun sysfs_subdirectories :: "nat list \<Rightarrow> sysfs_node \<Rightarrow> sysfs_node dir_entry list outcome" where
  "sysfs_subdirectories tasks VFSRootInode =
     Inr [sysfs_entry (bytes_of_string ''tasks'') DirectoryEntry VFSTasksDirectory]"
| "sysfs_subdirectories tasks VFSTasksDirectory =
     Inr (map (\<lambda>n. sysfs_entry (show_decimal n) DirectoryEntry (VFSTaskDirectory n)) tasks)"
| "sysfs_subdirectories tasks (VFSTaskDirectory n) =
     Inr [sysfs_entry (bytes_of_string ''info'') FileEntry (VFSTaskInfoFile n)]"
| "sysfs_subdirectories tasks (VFSTaskInfoFile n) = Inl ExplicitPanic"

definition sysfs :: "nat list \<Rightarrow> sysfs_node vfs" where
  "sysfs tasks =
     \<lparr>vfs_root = Inr (DirectoryInode VFSRootInode), vfs_subdirectories = sysfs_subdirectories tasks\<rparr>"

section \<open>Files\<close>

definition sysfs_read_file :: "u8 list \<Rightarrow> u8 list \<Rightarrow> nat \<Rightarrow> (read_result \<times> u8 list) outcome" where
  "sysfs_read_file content buffer offset =
     and_then (usize_add offset (length buffer)) (\<lambda>stop.
     let start = min offset (length content); fin = min stop (length content) in
     and_then (slice_range content start fin) (\<lambda>copy.
     and_then (slice_range buffer 0 (length copy)) (\<lambda>_.
     let buffer' = overwrite 0 copy buffer in
     Inr (if fin = length content then (Done (length content), buffer') else (Success, buffer')))))"

text \<open>The `read` method of a task's file, and `read_all` on the zeroed buffers it passes.\<close>
definition task_info_read :: "u8 list \<Rightarrow> file_read" where
  "task_info_read content len offset = sysfs_read_file content (replicate len 0) offset"

definition task_info :: "(nat \<Rightarrow> u8 list option) \<Rightarrow> nat \<Rightarrow> u8 list" where
  "task_info shown n =
     (case shown n of None \<Rightarrow> bytes_of_string ''task not found...'' | Some text \<Rightarrow> text)"

section \<open>Finding a task's file\<close>

definition decimal_value :: "u8 list \<Rightarrow> nat" where
  "decimal_value bs = foldl (\<lambda>a b. a * 10 + (unat b - 48)) 0 bs"

lemma decimal_value_show: "decimal_value (show_decimal n) = n"
proof (induction n rule: show_decimal.induct)
  case (1 n)
  have "unat (of_nat (48 + k) :: u8) - 48 = k" if "k < 10" for k
    using that unat_of_nat_small(1)[of "48 + k"] by (simp del: of_nat_add)
  moreover have "n mod 10 < 10" by simp
  ultimately show ?case
    using 1 by (subst show_decimal.simps) (auto simp: decimal_value_def)
qed

lemma show_decimal_inject: "show_decimal m = show_decimal n \<longleftrightarrow> m = n"
  by (metis decimal_value_show)

lemma sysfs_entry_sel [simp]:
  "dir_entry_name (sysfs_entry name kind node) = name"
  "dir_entry_inode (sysfs_entry name kind node) = Inr (sysfs_inode node)"
  by (simp_all add: sysfs_entry_def)

lemma find_task:
  "find (\<lambda>e. dir_entry_name e = show_decimal n)
     (map (\<lambda>n. sysfs_entry (show_decimal n) DirectoryEntry (VFSTaskDirectory n)) tasks) =
   (if n \<in> set tasks then Some (sysfs_entry (show_decimal n) DirectoryEntry (VFSTaskDirectory n)) else None)"
  by (induction tasks) (auto simp: show_decimal_inject)

text \<open>In the file system of the tasks the path of three components `tasks`, the decimal
  number \<open>n\<close> and `info` leads to the file of task \<open>n\<close> if there is such a task, and nowhere
  otherwise; a longer path through that file leads nowhere.\<close>
theorem sysfs_task_path:
  "traverse_from (sysfs tasks) [bytes_of_string ''tasks'', show_decimal n, bytes_of_string ''info'']
     (DirectoryInode VFSRootInode) =
     Inr (if n \<in> set tasks then Some (FileInode (VFSTaskInfoFile n)) else None) \<and>
   traverse_from (sysfs tasks)
     (bytes_of_string ''tasks'' # show_decimal n # bytes_of_string ''info'' # c # cs)
     (DirectoryInode VFSRootInode) = Inr None"
  by (simp add: sysfs_def find_task sysfs_inode_def)

section \<open>Reading a task's file\<close>

lemma task_info_read_eq:
  assumes "off \<le> length content" "fits_usize (off + len)"
  shows "task_info_read content len off =
    Inr (if length content \<le> off + len
      then (Done (length content), drop off content @ replicate (len - (length content - off)) 0)
      else (Success, take len (drop off content)))"
proof (cases "length content \<le> off + len")
  case True
  then have "min (off + len) (length content) = length content" by simp
  then show ?thesis using assms True
    by (simp add: task_info_read_def sysfs_read_file_def overwrite_def Let_def)
next
  case False
  then have "min (off + len) (length content) = off + len" by simp
  then show ?thesis using assms False
    by (simp add: task_info_read_def sysfs_read_file_def overwrite_def Let_def)
qed

lemma read_all_long_file:
  assumes "READ_ALL_CHUNK < length content" "fits_usize (length content + READ_ALL_CHUNK)"
    and "k * READ_ALL_CHUNK \<le> length content" "length content < (k + fuel) * READ_ALL_CHUNK"
  shows "read_all_from fuel (task_info_read content) buf (k * READ_ALL_CHUNK) = Some (Inl IndexOutOfBounds)"
  using assms(3,4)
proof (induction fuel arbitrary: k buf)
  case (Suc fuel)
  let ?off = "k * READ_ALL_CHUNK"
  have fits: "fits_usize (?off + READ_ALL_CHUNK)" using Suc.prems(1) assms(2) by (simp add: fits_usize_iff)
  show ?case
  proof (cases "length content \<le> ?off + READ_ALL_CHUNK")
    case True
    have "0 < k" using True assms(1) by (cases k) simp_all
    then have "READ_ALL_CHUNK \<le> ?off" by (cases k) simp_all
    then have "length (drop ?off content @ replicate (READ_ALL_CHUNK - (length content - ?off)) (0 :: u8)) < length content"
      using True assms(1) by simp
    then show ?thesis using True fits Suc.prems(1) by (simp add: task_info_read_eq slice_range_def)
  next
    case False
    then have "read_all_from fuel (task_info_read content) (buf @ take READ_ALL_CHUNK (drop ?off content))
        (Suc k * READ_ALL_CHUNK) = Some (Inl IndexOutOfBounds)"
      using Suc.prems by (intro Suc.IH) simp_all
    then show ?thesis using False fits Suc.prems(1) by (simp add: task_info_read_eq add.commute)
  qed
qed simp

text \<open>C32: `read_all` on a task's file gives the text of the file if that fits one buffer of 4096
  bytes. On a longer file it panics: the last call of `read` reports the length of the whole
  file as the number of bytes in the buffer, and the buffer is sliced with it.\<close>
theorem sysfs_read_all:
  assumes "fits_usize (length content + READ_ALL_CHUNK)" "length content div READ_ALL_CHUNK < fuel"
  shows "read_all fuel (task_info_read content) =
    Some (if length content \<le> READ_ALL_CHUNK then Inr content else Inl IndexOutOfBounds)"
proof (cases "length content \<le> READ_ALL_CHUNK")
  case True
  obtain f where f: "fuel = Suc f" using assms(2) by (cases fuel) simp_all
  have "fits_usize (0 + READ_ALL_CHUNK)" using assms(1) by (simp add: fits_usize_iff)
  from task_info_read_eq[OF _ this, of content] True show ?thesis by (simp add: f read_all_def)
next
  case False
  have "length content < fuel * READ_ALL_CHUNK"
    using assms(2) by (simp add: READ_ALL_CHUNK_def div_less_iff_less_mult)
  then show ?thesis using read_all_long_file[of content 0 fuel "[]"] False assms(1) by (simp add: read_all_def)
qed

theorem sysfs_read_all_witness:
  "read_all 1 (task_info_read [1, 2, 3]) = Some (Inr [1, 2, 3]) \<and>
   read_all 3 (task_info_read (replicate 5000 65)) = Some (Inl IndexOutOfBounds)"
  using sysfs_read_all[of "[1, 2, 3]" 1] sysfs_read_all[of "replicate 5000 65" 3]
  by (simp add: READ_ALL_CHUNK_def fits_usize_def)

end
