(* ===== verification/Registers.thy ===== *)
theory Registers
  imports Byte_Layout
begin

text \<open>
  Memory-mapped arrays and registers: kernel/src/registers.rs. A `VolatileArrayRW`
  is the list of the values in its memory, and its length is the `len` the array
  was made with; a `RegisterRW` is the value it holds. Every access through an
  array checks its index. Memory that devices and the kernel share is the byte at every
  kernel physical address; a register in it is read little-endian.
\<close>

section \<open>Arrays and registers\<close>

definition volatile_read :: "nat \<Rightarrow> 'a list \<Rightarrow> 'a outcome" where
  "volatile_read index arr = and_then (assert_that (index < length arr)) (\<lambda>_. Inr (arr ! index))"

definition volatile_write :: "nat \<Rightarrow> 'a \<Rightarrow> 'a list \<Rightarrow> 'a list outcome" where
  "volatile_write index val arr = and_then (assert_that (index < length arr)) (\<lambda>_. Inr (arr[index := val]))"

definition volatile_modify :: "nat \<Rightarrow> ('a \<Rightarrow> 'a) \<Rightarrow> 'a list \<Rightarrow> 'a list outcome" where
  "volatile_modify index f arr =
     and_then (assert_that (index < length arr)) (\<lambda>_.
     and_then (volatile_read index arr) (\<lambda>val. volatile_write index (f val) arr))"

definition volatile_modify_mut :: "nat \<Rightarrow> ('a \<Rightarrow> 'a) \<Rightarrow> 'a list \<Rightarrow> 'a list outcome" where
  "volatile_modify_mut index f arr =
     and_then (volatile_read index arr) (\<lambda>val. volatile_write index (f val) arr)"

text \<open>`RegisterRW::modify`: the value read, changed and written back.\<close>
definition register_modify :: "('a \<Rightarrow> 'a) \<Rightarrow> 'a \<Rightarrow> 'a" where
  "register_modify f val = f val"

lemma volatile_simps [simp, run_facts]:
  "i < length arr \<Longrightarrow> volatile_read i arr = Inr (arr ! i)"
  "i < length arr \<Longrightarrow> volatile_write i v arr = Inr (arr[i := v])"
  "i < length arr \<Longrightarrow> volatile_modify i f arr = Inr (arr[i := f (arr ! i)])"
  "i < length arr \<Longrightarrow> volatile_modify_mut i f arr = Inr (arr[i := f (arr ! i)])"
  by (simp_all add: volatile_read_def volatile_write_def volatile_modify_def volatile_modify_mut_def)

lemma volatile_out_of_bounds:
  assumes "length arr \<le> i"
  shows "volatile_read i arr = Inl AssertFailed" "volatile_write i v arr = Inl AssertFailed"
    "volatile_modify i f arr = Inl AssertFailed" "volatile_modify_mut i f arr = Inl AssertFailed"
  using assms
  by (simp_all add: volatile_read_def volatile_write_def volatile_modify_def volatile_modify_mut_def)

text \<open>A write is what the next read gives, and only at its own index.\<close>
lemma volatile_read_write:
  assumes "volatile_write i v arr = Inr arr'"
  shows "volatile_read j arr' = (if j = i then Inr v else volatile_read j arr)"
  using assms
  by (cases "i < length arr"; cases "j < length arr")
    (auto simp: volatile_write_def volatile_read_def)

section \<open>Memory by bytes\<close>

type_synonym byte_memory = "u64 \<Rightarrow> u8"

definition put_bytes :: "u64 \<Rightarrow> u8 list \<Rightarrow> byte_memory \<Rightarrow> byte_memory" where
  "put_bytes a bs bm = (\<lambda>p. if unat (p - a) < length bs then bs ! unat (p - a) else bm p)"

definition get_bytes :: "u64 \<Rightarrow> nat \<Rightarrow> byte_memory \<Rightarrow> u8 list" where
  "get_bytes a n bm = map (\<lambda>i. bm (a + of_nat i)) [0..<n]"

definition read_u8 :: "u64 \<Rightarrow> byte_memory \<Rightarrow> u8" where
  "read_u8 a bm = bm a"

definition read_u16 :: "u64 \<Rightarrow> byte_memory \<Rightarrow> u16" where
  "read_u16 a bm = from_le (get_bytes a 2 bm)"

definition read_u32 :: "u64 \<Rightarrow> byte_memory \<Rightarrow> u32" where
  "read_u32 a bm = from_le (get_bytes a 4 bm)"

lemma get_put_bytes:
  assumes "length bs < 2 ^ 64" "off + n \<le> length bs"
  shows "get_bytes (a + of_nat off) n (put_bytes a bs bm) = take n (drop off bs)"
proof (rule nth_equalityI)
  fix i assume "i < length (get_bytes (a + of_nat off) n (put_bytes a bs bm))"
  then have i: "i < n" by (simp add: get_bytes_def)
  then have "unat (of_nat off + of_nat i :: u64) = off + i"
    using assms by (simp add: unat_of_nat_u64 flip: of_nat_add)
  then show "get_bytes (a + of_nat off) n (put_bytes a bs bm) ! i = take n (drop off bs) ! i"
    using i assms by (simp add: get_bytes_def put_bytes_def add.assoc)
qed (use assms in \<open>simp add: get_bytes_def\<close>)

lemma put_byte_at:
  assumes "length bs < 2 ^ 64" "off < length bs"
  shows "put_bytes a bs bm (a + of_nat off) = bs ! off"
  using assms by (simp add: put_bytes_def unat_of_nat_u64)

end
