(* ===== verification/Virtqueue.thy ===== *)
theory Virtqueue
  imports Registers Phys_Mem
begin

text \<open>
  Split virtqueues: kernel/src/virtio/queue.rs and the notification structure of
  kernel/src/virtio/config.rs. The descriptor table and the two rings are records
  of the values in their memory; ring positions are the 16-bit wrapping indices
  of the source. The device is the environment: it puts used elements in the
  used ring and counts its index up.
\<close>

section \<open>Wrapping indices\<close>

text \<open>`u16::is_power_of_two`.\<close>
definition is_power_of_two :: "u16 \<Rightarrow> bool" where
  "is_power_of_two w \<longleftrightarrow> list_ex (\<lambda>k. w = 2 ^ k) [0..<16]"

definition increment :: "u16 \<Rightarrow> u16" where
  "increment i = i + 1"

definition to_elem_index :: "u16 \<Rightarrow> u16 \<Rightarrow> u16 outcome" where
  "to_elem_index i queue_size =
     and_then (assert_that (is_power_of_two queue_size)) (\<lambda>_. Inr (i mod queue_size))"

section \<open>Descriptors\<close>

text \<open>`VirtQueueDescriptorFlags`: bit 0 is `next`, bit 1 `device_write`, bit 2 `indirect`.\<close>
type_synonym descriptor_flags = u16

definition flag_next :: "descriptor_flags \<Rightarrow> bool" where
  "flag_next f = bit f 0"

definition flag_indirect :: "descriptor_flags \<Rightarrow> bool" where
  "flag_indirect f = bit f 2"

definition set_next :: "bool \<Rightarrow> descriptor_flags \<Rightarrow> descriptor_flags" where
  "set_next b f = (if b then set_bit 0 f else unset_bit 0 f)"

definition with_device_write :: "bool \<Rightarrow> descriptor_flags \<Rightarrow> descriptor_flags" where
  "with_device_write b f = (if b then set_bit 1 f else unset_bit 1 f)"

record chained_descriptor =
  elem_addr :: u64
  elem_len :: u32
  elem_flags :: descriptor_flags

record raw_descriptor =
  desc_addr :: u64
  desc_len :: u32
  desc_flags :: descriptor_flags
  desc_next :: u16

definition zeroed_descriptor :: raw_descriptor where
  "zeroed_descriptor = \<lparr>desc_addr = 0, desc_len = 0, desc_flags = 0, desc_next = 0\<rparr>"

record descriptor_table =
  table_buffer :: physical_buffer
  raw_next_index :: u16
  table_descriptors :: "raw_descriptor list"

definition RAW_DESCRIPTOR_SIZE :: nat where
  "RAW_DESCRIPTOR_SIZE = 16"

definition map_ok :: "('a \<Rightarrow> 'b) \<Rightarrow> ('a, 'e) result \<times> 's \<Rightarrow> ('b, 'e) result \<times> 's" where
  "map_ok f r = (case r of (Ok x, s) \<Rightarrow> (Ok (f x), s) | (Err e, s) \<Rightarrow> (Err e, s))"

definition table_allocate ::
  "x86_64 \<Rightarrow> u16 \<Rightarrow> phys_allocator \<times> memory \<Rightarrow>
   ((descriptor_table, alloc_error) result \<times> phys_allocator \<times> memory) outcome" where
  "table_allocate x queue_size s =
     (let n = unat queue_size; mem_size = RAW_DESCRIPTOR_SIZE * n in
      and_then (assert_that (is_power_of_two queue_size)) (\<lambda>_.
      and_then (assert_that (mem_size = 16 * n)) (\<lambda>_.
      and_then (allocate_zeroed x mem_size s) (\<lambda>r.
      Inr (map_ok (\<lambda>buffer. \<lparr>table_buffer = buffer, raw_next_index = 0,
                             table_descriptors = replicate n zeroed_descriptor\<rparr>) r)))))"

definition table_physical_address :: "x86_64 \<Rightarrow> descriptor_table \<Rightarrow> u64 outcome" where
  "table_physical_address x t = to_phys_addr x (buffer_address (table_buffer t))"

text \<open>`fetch_add` gives the old value and wraps around.\<close>
definition next_index :: "descriptor_table \<Rightarrow> u16 \<times> descriptor_table" where
  "next_index t = (raw_next_index t, t\<lparr>raw_next_index := raw_next_index t + 1\<rparr>)"

text \<open>One turn of the loop of `add_descriptor`: the state is the table, the first index and the
  previous index.\<close>
definition add_descriptor_step ::
  "chained_descriptor \<Rightarrow> descriptor_table \<times> u16 option \<times> u16 option \<Rightarrow>
   (descriptor_table \<times> u16 option \<times> u16 option) outcome" where
  "add_descriptor_step desc st =
     (let (t, first_idx, prev_idx) = st; (w, t1) = next_index t in
      and_then (to_elem_index w (of_nat (length (table_descriptors t1)))) (\<lambda>idx.
      and_then (case prev_idx of
                  None \<Rightarrow> Inr (table_descriptors t1)
                | Some p \<Rightarrow> volatile_modify_mut (unat p)
                    (\<lambda>d. d\<lparr>desc_flags := set_next True (desc_flags d), desc_next := idx\<rparr>)
                    (table_descriptors t1)) (\<lambda>ds.
      and_then (assert_that (\<not> flag_indirect (elem_flags desc))) (\<lambda>_.
      and_then (volatile_write (unat idx)
                  \<lparr>desc_addr = elem_addr desc, desc_len = elem_len desc,
                   desc_flags = elem_flags desc, desc_next = 0\<rparr> ds) (\<lambda>ds'.
      Inr (t1\<lparr>table_descriptors := ds'\<rparr>,
           (case first_idx of None \<Rightarrow> Some idx | Some i \<Rightarrow> Some i), Some idx))))))"

definition add_descriptor ::
  "chained_descriptor list \<Rightarrow> descriptor_table \<Rightarrow> (u16 \<times> descriptor_table) outcome" where
  "add_descriptor descs t =
     and_then (for_each add_descriptor_step descs (t, None, None)) (\<lambda>(t', first_idx, _).
     and_then (expect first_idx) (\<lambda>i. Inr (i, t')))"

definition get_descriptor :: "u16 \<Rightarrow> descriptor_table \<Rightarrow> raw_descriptor outcome" where
  "get_descriptor index t = volatile_read (unat index) (table_descriptors t)"

section \<open>Walking a chain\<close>

record chain_iterator =
  chain_table :: descriptor_table
  current_index :: "u16 option"

definition chain_new :: "descriptor_table \<Rightarrow> u16 \<Rightarrow> chain_iterator" where
  "chain_new t start = \<lparr>chain_table = t, current_index = Some start\<rparr>"

definition chain_next :: "chain_iterator \<Rightarrow> (chained_descriptor option \<times> chain_iterator) outcome" where
  "chain_next it = (case current_index it of
     None \<Rightarrow> Inr (None, it)
   | Some i \<Rightarrow>
       and_then (get_descriptor i (chain_table it)) (\<lambda>d.
       Inr (Some \<lparr>elem_addr = desc_addr d, elem_len = desc_len d, elem_flags = desc_flags d\<rparr>,
            it\<lparr>current_index := if flag_next (desc_flags d) then Some (desc_next d) else None\<rparr>)))"

text \<open>What `n` calls of `next` give, up to the first that gives nothing.\<close>
fun chain_take :: "nat \<Rightarrow> chain_iterator \<Rightarrow> (chained_descriptor list \<times> chain_iterator) outcome" where
  "chain_take 0 it = Inr ([], it)"
| "chain_take (Suc n) it =
     and_then (chain_next it) (\<lambda>(d, it1).
       case d of None \<Rightarrow> Inr ([], it1)
       | Some d \<Rightarrow> and_then (chain_take n it1) (\<lambda>(ds, it2). Inr (d # ds, it2)))"

section \<open>Rings\<close>

text \<open>Registers inside a structure are at an offset from its address; making one checks that the
  address is in the physical mapping.\<close>
definition registers_at :: "u64 \<Rightarrow> nat list \<Rightarrow> unit outcome" where
  "registers_at addr offsets =
     for_each (\<lambda>off _. and_then (kern_phys_addr_add addr off) (\<lambda>_. Inr ())) offsets ()"

record avail_ring =
  avail_buffer :: physical_buffer
  avail_flags :: u16
  avail_idx :: u16
  avail_entries :: "u16 list"
  used_event :: u16

definition avail_allocate ::
  "x86_64 \<Rightarrow> u16 \<Rightarrow> phys_allocator \<times> memory \<Rightarrow>
   ((avail_ring, alloc_error) result \<times> phys_allocator \<times> memory) outcome" where
  "avail_allocate x queue_size s =
     (let n = unat queue_size; idx_offset = 2; ring_offset = idx_offset + 2; ring_len = n * 2;
          used_event_offset = ring_offset + ring_len; struct_size = used_event_offset + 2
      in
      and_then (assert_that (struct_size = 6 + 2 * n)) (\<lambda>_.
      and_then (allocate_zeroed x struct_size s) (\<lambda>r. case r of
        (Err e, s') \<Rightarrow> Inr (Err e, s')
      | (Ok buffer, s') \<Rightarrow>
          and_then (registers_at (buffer_address buffer) [0, idx_offset, ring_offset, used_event_offset]) (\<lambda>_.
          Inr (Ok \<lparr>avail_buffer = buffer, avail_flags = 0, avail_idx = 0,
                   avail_entries = replicate n 0, used_event = 0\<rparr>, s')))))"

definition avail_physical_address :: "x86_64 \<Rightarrow> avail_ring \<Rightarrow> u64 outcome" where
  "avail_physical_address x r = to_phys_addr x (buffer_address (avail_buffer r))"

definition add_entry :: "u16 \<Rightarrow> avail_ring \<Rightarrow> avail_ring outcome" where
  "add_entry desc_index r =
     (let len = (of_nat (length (avail_entries r)) :: u16) in
      if len = 0 then Inl DivisionByZero
      else and_then (volatile_write (unat (avail_idx r mod len)) desc_index (avail_entries r)) (\<lambda>es.
           Inr (r\<lparr>avail_entries := es, avail_idx := register_modify increment (avail_idx r)\<rparr>)))"

record used_elem =
  used_id :: u32
  used_len :: u32

definition desc_index :: "used_elem \<Rightarrow> u16 outcome" where
  "desc_index e = (if unat (used_id e) < 2 ^ 16 then Inr (ucast (used_id e)) else Inl ExplicitPanic)"

record used_ring =
  used_buffer :: physical_buffer
  used_flags :: u16
  used_idx :: u16
  used_entries :: "used_elem list"
  avail_event :: u16

definition used_allocate ::
  "x86_64 \<Rightarrow> u16 \<Rightarrow> phys_allocator \<times> memory \<Rightarrow>
   ((used_ring, alloc_error) result \<times> phys_allocator \<times> memory) outcome" where
  "used_allocate x queue_size s =
     (let n = unat queue_size; idx_offset = 2; ring_offset = idx_offset + 2; ring_len = n * 8;
          avail_event_offset = ring_offset + ring_len; struct_size = avail_event_offset + 2
      in
      and_then (assert_that (struct_size = 6 + 8 * n)) (\<lambda>_.
      and_then (allocate_zeroed x struct_size s) (\<lambda>r. case r of
        (Err e, s') \<Rightarrow> Inr (Err e, s')
      | (Ok buffer, s') \<Rightarrow>
          and_then (registers_at (buffer_address buffer) [0, idx_offset, ring_offset, avail_event_offset]) (\<lambda>_.
          Inr (Ok \<lparr>used_buffer = buffer, used_flags = 0, used_idx = 0,
                   used_entries = replicate n \<lparr>used_id = 0, used_len = 0\<rparr>, avail_event = 0\<rparr>, s')))))"

definition used_physical_address :: "x86_64 \<Rightarrow> used_ring \<Rightarrow> u64 outcome" where
  "used_physical_address x r = to_phys_addr x (buffer_address (used_buffer r))"

definition get_used_elem :: "u16 \<Rightarrow> used_ring \<Rightarrow> used_elem outcome" where
  "get_used_elem i r =
     and_then (to_elem_index i (of_nat (length (used_entries r)))) (\<lambda>elem_idx.
     volatile_read (unat elem_idx) (used_entries r))"

section \<open>Queues\<close>

record notify_config =
  config_addr :: u64
  notify_off_multiplier :: u32

definition queue_notify_address :: "notify_config \<Rightarrow> u16 \<Rightarrow> u64 outcome" where
  "queue_notify_address cfg off =
     kern_phys_addr_add (config_addr cfg) (unat off * unat (notify_off_multiplier cfg))"

text \<open>A notification is a 16-bit write of the queue index to the queue's notify address: the
  address and the value.\<close>
definition config_notify_device :: "notify_config \<Rightarrow> u16 \<Rightarrow> u16 \<Rightarrow> (u64 \<times> u16) outcome" where
  "config_notify_device cfg off queue_index =
     and_then (queue_notify_address cfg off) (\<lambda>a. Inr (a, queue_index))"

record virt_queue =
  queue_index :: u16
  device_notify_config :: notify_config
  notify_offset :: u16
  queue_table :: descriptor_table
  queue_avail :: avail_ring
  queue_used :: used_ring
  last_processed_used_index :: u16

definition virt_queue_new ::
  "u16 \<Rightarrow> notify_config \<Rightarrow> u16 \<Rightarrow> descriptor_table \<Rightarrow> avail_ring \<Rightarrow> used_ring \<Rightarrow> virt_queue" where
  "virt_queue_new i cfg off t a u =
     \<lparr>queue_index = i, device_notify_config = cfg, notify_offset = off, queue_table = t,
      queue_avail = a, queue_used = u, last_processed_used_index = 0\<rparr>"

definition notify_device :: "virt_queue \<Rightarrow> (u64 \<times> u16) outcome" where
  "notify_device q = config_notify_device (device_notify_config q) (notify_offset q) (queue_index q)"

definition get_used_ring_entry :: "u16 \<Rightarrow> virt_queue \<Rightarrow> (used_elem \<times> chain_iterator) outcome" where
  "get_used_ring_entry i q =
     and_then (get_used_elem i (queue_used q)) (\<lambda>e.
     and_then (desc_index e) (\<lambda>idx. Inr (e, chain_new (queue_table q) idx)))"

text \<open>The callback is a state transformer; the loop runs over the 16-bit range from the last
  processed index to the ring's index, which is empty when the latter is smaller.\<close>
definition process_new_entries ::
  "(used_elem \<Rightarrow> chain_iterator \<Rightarrow> 's \<Rightarrow> 's outcome) \<Rightarrow> virt_queue \<Rightarrow> 's \<Rightarrow> (virt_queue \<times> 's) outcome" where
  "process_new_entries f q s =
     (let used_index = used_idx (queue_used q) in
      and_then (for_each (\<lambda>i s.
                  and_then (get_used_ring_entry (of_nat i) q) (\<lambda>(e, chain). f e chain s))
                [unat (last_processed_used_index q) ..< unat used_index] s) (\<lambda>s'.
      Inr (q\<lparr>last_processed_used_index := used_index\<rparr>, s')))"

section \<open>Queues with data\<close>

record 'd queue_data =
  entry_data :: "'d option list"
  data_queue :: virt_queue

definition queue_data_new :: "virt_queue \<Rightarrow> 'd queue_data" where
  "queue_data_new q =
     \<lparr>entry_data = replicate (length (table_descriptors (queue_table q))) None, data_queue = q\<rparr>"

definition queue_data_index :: "'d queue_data \<Rightarrow> u16" where
  "queue_data_index vq = queue_index (data_queue vq)"

definition add_buffer :: "chained_descriptor list \<Rightarrow> 'd \<Rightarrow> 'd queue_data \<Rightarrow> 'd queue_data outcome" where
  "add_buffer descs d vq =
     and_then (add_descriptor descs (queue_table (data_queue vq))) (\<lambda>(i, t).
     and_then (index_at (entry_data vq) (unat i)) (\<lambda>previous.
     and_then (assert_that (previous = None)) (\<lambda>_.
     and_then (add_entry i (queue_avail (data_queue vq))) (\<lambda>r.
     Inr (vq\<lparr>entry_data := (entry_data vq)[unat i := Some d],
             data_queue := (data_queue vq)\<lparr>queue_table := t, queue_avail := r\<rparr>\<rparr>)))))"

text \<open>What the queue's callback does for one entry: it takes the data out of its slot and hands it
  on. Its state is the data and the state of the caller's callback.\<close>
definition take_data_entry ::
  "(used_elem \<Rightarrow> chain_iterator \<Rightarrow> 'd option \<Rightarrow> 's \<Rightarrow> 's outcome) \<Rightarrow> used_elem \<Rightarrow> chain_iterator \<Rightarrow>
   'd option list \<times> 's \<Rightarrow> ('d option list \<times> 's) outcome" where
  "take_data_entry f e chain ds =
     (let (data, s) = ds in
      and_then (desc_index e) (\<lambda>i.
      and_then (index_at data (unat i)) (\<lambda>d.
      and_then (f e chain d s) (\<lambda>s'. Inr (data[unat i := None], s')))))"

definition process_data_entries ::
  "(used_elem \<Rightarrow> chain_iterator \<Rightarrow> 'd option \<Rightarrow> 's \<Rightarrow> 's outcome) \<Rightarrow> 'd queue_data \<Rightarrow> 's \<Rightarrow>
   ('d queue_data \<times> 's) outcome" where
  "process_data_entries f vq s =
     and_then (process_new_entries (take_data_entry f) (data_queue vq) (entry_data vq, s))
       (\<lambda>(q', data', s'). Inr (vq\<lparr>entry_data := data', data_queue := q'\<rparr>, s'))"

definition data_notify_device :: "'d queue_data \<Rightarrow> (u64 \<times> u16) outcome" where
  "data_notify_device vq = notify_device (data_queue vq)"

section \<open>Positions\<close>

text \<open>The sizes a virtqueue can have.\<close>
definition ring_size :: "nat \<Rightarrow> bool" where
  "ring_size n \<longleftrightarrow> (\<exists>k<16. n = 2 ^ k)"

lemma ring_size_bounds: "ring_size n \<Longrightarrow> 0 < n \<and> n \<le> 2 ^ 15"
  unfolding ring_size_def by (elim exE conjE, hypsubst, intro conjI power_increasing) simp_all

lemma unat_ring_size: "ring_size n \<Longrightarrow> unat (of_nat n :: u16) = n"
  using ring_size_bounds[of n] by (simp add: unat_of_nat)

lemma is_power_of_two_ring_size: "ring_size n \<Longrightarrow> is_power_of_two (of_nat n)"
  by (auto simp: ring_size_def is_power_of_two_def list_ex_iff)

lemma ring_position:
  fixes w :: u16
  assumes "ring_size n"
  shows "unat ((w + of_nat i) mod of_nat n) = (unat w + i) mod n"
proof -
  obtain k where k: "k < 16" "n = 2 ^ k" using assms by (auto simp: ring_size_def)
  have "unat (w + of_nat i) = (unat w + i) mod 2 ^ 16"
    by (simp add: unat_word_ariths unat_of_nat mod_simps)
  moreover have "(unat w + i) mod 2 ^ 16 mod 2 ^ k = (unat w + i) mod 2 ^ k"
    using k(1) by (intro mod_mod_cancel le_imp_power_dvd) simp
  ultimately show ?thesis using k unat_ring_size[OF assms] by (simp add: unat_mod)
qed

lemma to_elem_index_ring:
  "ring_size n \<Longrightarrow> to_elem_index w (of_nat n) = Inr (w mod of_nat n)"
  by (simp add: to_elem_index_def is_power_of_two_ring_size)

lemma position_bound: "ring_size n \<Longrightarrow> unat ((w :: u16) mod of_nat n) < n"
  using ring_position[of n w 0] ring_size_bounds[of n] by simp

lemma positions_inj:
  assumes "i < n" "j < n" "(a + i) mod n = (a + j) mod (n :: nat)"
  shows "i = j"
proof -
  have "y = x" if "x \<le> y" "y < n" "(a + x) mod n = (a + y) mod n" for x y
  proof -
    have "n dvd (a + y) - (a + x)" using that by (subst mod_eq_dvd_iff_nat[symmetric]) simp_all
    then show ?thesis using that(1,2) by (auto dest: dvd_imp_le)
  qed
  then show ?thesis using assms by (metis nle_le)
qed

section \<open>Adding a chain\<close>

text \<open>The slot the `i`-th descriptor added to a table goes into.\<close>
definition slot :: "descriptor_table \<Rightarrow> nat \<Rightarrow> nat" where
  "slot t i = (unat (raw_next_index t) + i) mod length (table_descriptors t)"

text \<open>The `i`-th descriptor of a chain as the table holds it.\<close>
definition linked :: "descriptor_table \<Rightarrow> chained_descriptor list \<Rightarrow> nat \<Rightarrow> raw_descriptor" where
  "linked t ds i =
     \<lparr>desc_addr = elem_addr (ds ! i), desc_len = elem_len (ds ! i),
      desc_flags = (if Suc i < length ds then set_next True (elem_flags (ds ! i)) else elem_flags (ds ! i)),
      desc_next = (if Suc i < length ds then of_nat (slot t (Suc i)) else 0)\<rparr>"

definition chain_added :: "descriptor_table \<Rightarrow> chained_descriptor list \<Rightarrow> descriptor_table \<Rightarrow> bool" where
  "chain_added t ds t' \<longleftrightarrow>
     raw_next_index t' = raw_next_index t + of_nat (length ds) \<and>
     table_buffer t' = table_buffer t \<and>
     length (table_descriptors t') = length (table_descriptors t) \<and>
     (\<forall>i<length ds. table_descriptors t' ! slot t i = linked t ds i) \<and>
     (\<forall>j<length (table_descriptors t). j \<notin> slot t ` {..<length ds} \<longrightarrow>
        table_descriptors t' ! j = table_descriptors t ! j)"

lemma slot_bound: "ring_size (length (table_descriptors t)) \<Longrightarrow> slot t i < length (table_descriptors t)"
  using ring_size_bounds[of "length (table_descriptors t)"] by (simp add: slot_def)

lemma unat_slot:
  "ring_size (length (table_descriptors t)) \<Longrightarrow> unat (of_nat (slot t i) :: u16) = slot t i"
  using slot_bound[of t i] ring_size_bounds[of "length (table_descriptors t)"]
  by (simp add: unat_of_nat)

lemma slot_word:
  assumes "ring_size (length (table_descriptors t))"
  shows "(raw_next_index t + of_nat i) mod of_nat (length (table_descriptors t)) = of_nat (slot t i)"
  unfolding word_unat_eq_iff ring_position[OF assms] unat_slot[OF assms] by (simp only: slot_def)

lemma slot_inj:
  "slot t i = slot t j \<Longrightarrow> i < length (table_descriptors t) \<Longrightarrow> j < length (table_descriptors t) \<Longrightarrow> i = j"
  unfolding slot_def by (rule positions_inj)

text \<open>The table after one more turn: the last descriptor points to the new one, which ends the
  chain.\<close>
definition extend_chain :: "descriptor_table \<Rightarrow> chained_descriptor list \<Rightarrow> chained_descriptor \<Rightarrow>
    raw_descriptor list \<Rightarrow> raw_descriptor list" where
  "extend_chain t ds d raws =
     (if ds = [] then raws
      else raws[slot t (length ds - 1) := (raws ! slot t (length ds - 1))
        \<lparr>desc_flags := set_next True (desc_flags (raws ! slot t (length ds - 1))),
         desc_next := of_nat (slot t (length ds))\<rparr>])
     [slot t (length ds) := \<lparr>desc_addr = elem_addr d, desc_len = elem_len d,
        desc_flags = elem_flags d, desc_next = 0\<rparr>]"

lemma linked_snoc:
  "i < length ds \<Longrightarrow> linked t (ds @ [d]) i =
     (if Suc i = length ds
      then (linked t ds i)\<lparr>desc_flags := set_next True (desc_flags (linked t ds i)),
                           desc_next := of_nat (slot t (length ds))\<rparr>
      else linked t ds i)"
  by (auto simp: linked_def nth_append)

lemma linked_last:
  "linked t (ds @ [d]) (length ds) =
     \<lparr>desc_addr = elem_addr d, desc_len = elem_len d, desc_flags = elem_flags d, desc_next = 0\<rparr>"
  by (simp add: linked_def)

lemma extend_chain_nth:
  assumes size: "ring_size (length (table_descriptors t))"
    and room: "length ds < length (table_descriptors t)"
    and added: "chain_added t ds t'" and i: "i \<le> length ds"
  shows "extend_chain t ds d (table_descriptors t') ! slot t i = linked t (ds @ [d]) i"
proof (cases "i = length ds")
  case True
  then show ?thesis
    using slot_bound[OF size, of i] added
    by (auto simp: extend_chain_def linked_last chain_added_def)
next
  case False
  with i have i': "i < length ds" by simp
  have old: "table_descriptors t' ! slot t i = linked t ds i"
    using added i' by (simp add: chain_added_def)
  have len: "length (table_descriptors t') = length (table_descriptors t)"
    using added by (simp add: chain_added_def)
  have "slot t i \<noteq> slot t (length ds)" using slot_inj[of t i] i' room by fastforce
  moreover have "slot t i = slot t (length ds - 1) \<longleftrightarrow> Suc i = length ds"
    using slot_inj[of t i "length ds - 1"] i' room by (cases "Suc i = length ds") (auto dest: sym)
  ultimately show ?thesis
    using old i' slot_bound[OF size, of i] len
    by (auto simp: extend_chain_def linked_snoc nth_list_update)
qed

lemma chain_added_snoc:
  assumes size: "ring_size (length (table_descriptors t))"
    and room: "length ds < length (table_descriptors t)" and added: "chain_added t ds t'"
  shows "chain_added t (ds @ [d]) (t'\<lparr>raw_next_index := raw_next_index t' + 1,
    table_descriptors := extend_chain t ds d (table_descriptors t')\<rparr>)"
proof -
  have "extend_chain t ds d (table_descriptors t') ! j = table_descriptors t ! j"
    if "j < length (table_descriptors t)" "j \<notin> slot t ` {..<Suc (length ds)}" for j
  proof -
    have "j \<noteq> slot t (length ds)" "ds \<noteq> [] \<longrightarrow> j \<noteq> slot t (length ds - 1)" using that(2) by auto
    then show ?thesis using added that by (auto simp: chain_added_def extend_chain_def)
  qed
  then show ?thesis
    using added extend_chain_nth[OF size room added]
    by (simp add: chain_added_def less_Suc_eq_le) (simp add: extend_chain_def)
qed

lemma add_descriptors:
  assumes size: "ring_size (length (table_descriptors t))" and "length ds \<le> length (table_descriptors t)"
    and "\<forall>d\<in>set ds. \<not> flag_indirect (elem_flags d)"
  shows "\<exists>t'. for_each add_descriptor_step ds (t, None, None) =
      Inr (t', if ds = [] then None else Some (of_nat (slot t 0)),
               if ds = [] then None else Some (of_nat (slot t (length ds - 1)))) \<and>
    chain_added t ds t'"
  using assms(2,3)
proof (induction ds rule: rev_induct)
  case Nil
  then show ?case by (simp add: chain_added_def)
next
  case (snoc d ds)
  then obtain t' where t': "for_each add_descriptor_step ds (t, None, None) =
      Inr (t', if ds = [] then None else Some (of_nat (slot t 0)),
               if ds = [] then None else Some (of_nat (slot t (length ds - 1))))"
    and added: "chain_added t ds t'" by auto
  let ?i = "of_nat (slot t (length ds)) :: u16"
  let ?t = "t'\<lparr>raw_next_index := raw_next_index t' + 1,
    table_descriptors := extend_chain t ds d (table_descriptors t')\<rparr>"
  have len: "length (table_descriptors t') = length (table_descriptors t)"
    and nxt: "raw_next_index t' = raw_next_index t + of_nat (length ds)"
    using added by (simp_all add: chain_added_def)
  have bound: "slot t j < length (table_descriptors t')" for j using slot_bound[OF size] len by simp
  have "add_descriptor_step d (t', if ds = [] then None else Some (of_nat (slot t 0)),
               if ds = [] then None else Some (of_nat (slot t (length ds - 1)))) =
      Inr (?t, Some (of_nat (slot t 0)), Some ?i)"
    using snoc.prems(2) size bound
    by (simp add: add_descriptor_step_def next_index_def len nxt slot_word[OF size] unat_slot[OF size]
        to_elem_index_ring extend_chain_def)
  moreover have "chain_added t (ds @ [d]) ?t"
    using chain_added_snoc[OF size _ added] snoc.prems(1) by simp
  ultimately show ?case using t' by (auto simp: for_each_append)
qed

lemma add_descriptor_spec:
  assumes "ring_size (length (table_descriptors t))" "ds \<noteq> []"
    and "length ds \<le> length (table_descriptors t)" "\<forall>d\<in>set ds. \<not> flag_indirect (elem_flags d)"
  shows "\<exists>t'. add_descriptor ds t = Inr (of_nat (slot t 0), t') \<and> chain_added t ds t'"
  using add_descriptors[OF assms(1,3,4)] assms(2) by (auto simp: add_descriptor_def)

section \<open>Reading a chain back\<close>

text \<open>The chain as its reader sees it: every descriptor but the last carries the `next` flag.\<close>
definition link_elems :: "chained_descriptor list \<Rightarrow> chained_descriptor list" where
  "link_elems ds = map (\<lambda>d. d\<lparr>elem_flags := set_next True (elem_flags d)\<rparr>) (butlast ds) @ [last ds]"

lemma flag_next_set [simp]: "flag_next (set_next True f)"
  by (simp add: flag_next_def set_next_def bit_set_bit_iff)

lemma length_link_elems: "ds \<noteq> [] \<Longrightarrow> length (link_elems ds) = length ds"
  by (simp add: link_elems_def)

lemma link_elems_nth:
  "i < length ds \<Longrightarrow> link_elems ds ! i =
     (if Suc i < length ds then (ds ! i)\<lparr>elem_flags := set_next True (elem_flags (ds ! i))\<rparr> else ds ! i)"
  by (cases ds rule: rev_cases) (auto simp: link_elems_def nth_append)

lemma chain_next_added:
  assumes size: "ring_size (length (table_descriptors t))" and added: "chain_added t ds t'"
    and i: "i < length ds" and fin: "\<not> flag_next (elem_flags (last ds))"
  shows "chain_next \<lparr>chain_table = t', current_index = Some (of_nat (slot t i))\<rparr> =
    Inr (Some (link_elems ds ! i),
         \<lparr>chain_table = t', current_index = if Suc i < length ds then Some (of_nat (slot t (Suc i))) else None\<rparr>)"
proof -
  have "\<not> Suc i < length ds \<Longrightarrow> last ds = ds ! i"
    using i by (subst last_conv_nth) (auto intro!: arg_cong[of _ _ "nth ds"])
  moreover have "get_descriptor (of_nat (slot t i)) t' = Inr (linked t ds i)"
    using added i slot_bound[OF size, of i]
    by (simp add: get_descriptor_def unat_slot[OF size] chain_added_def)
  ultimately show ?thesis
    using fin i by (cases "Suc i < length ds") (simp_all add: chain_next_def linked_def link_elems_nth)
qed

lemma chain_take_added:
  assumes "ring_size (length (table_descriptors t))" "chain_added t ds t'"
    and "\<not> flag_next (elem_flags (last ds))" "i < length ds"
  shows "chain_take (length ds - i) \<lparr>chain_table = t', current_index = Some (of_nat (slot t i))\<rparr> =
    Inr (drop i (link_elems ds), \<lparr>chain_table = t', current_index = None\<rparr>)"
  using assms(4)
proof (induction "length ds - i" arbitrary: i)
  case (Suc m)
  note nxt = chain_next_added[OF assms(1,2) Suc.prems assms(3)]
  have drop: "drop i (link_elems ds) = link_elems ds ! i # drop (Suc i) (link_elems ds)"
    using Suc.prems by (intro Cons_nth_drop_Suc[symmetric]) (subst length_link_elems, auto)
  show ?case
  proof (cases "Suc i < length ds")
    case True
    then have "m = length ds - Suc i" using Suc.hyps(2) by simp
    with Suc.hyps(1)[OF this True] show ?thesis
      by (simp add: nxt drop True flip: Suc.hyps(2))
  next
    case False
    moreover have "ds \<noteq> []" using Suc.prems by auto
    ultimately have "m = 0" "drop (Suc i) (link_elems ds) = []"
      using Suc.hyps(2) Suc.prems length_link_elems[of ds] by simp_all
    then show ?thesis using False by (simp add: nxt drop flip: Suc.hyps(2))
  qed
qed simp

section \<open>Offering a buffer\<close>

definition virtqueue_inv :: "'d queue_data \<Rightarrow> bool" where
  "virtqueue_inv vq \<longleftrightarrow>
     (let q = data_queue vq; n = length (table_descriptors (queue_table q)) in
      ring_size n \<and> length (avail_entries (queue_avail q)) = n \<and>
      length (used_entries (queue_used q)) = n \<and> length (entry_data vq) = n)"

lemma add_entry_ring:
  assumes "ring_size (length (avail_entries r))"
  shows "add_entry i r = Inr (r\<lparr>
    avail_entries := (avail_entries r)[unat (avail_idx r) mod length (avail_entries r) := i],
    avail_idx := avail_idx r + 1\<rparr>)"
proof -
  have "of_nat (length (avail_entries r)) \<noteq> (0 :: u16)"
    using unat_ring_size[OF assms] ring_size_bounds[OF assms] by auto
  moreover have "unat (avail_idx r mod of_nat (length (avail_entries r))) =
      unat (avail_idx r) mod length (avail_entries r)"
    using ring_position[OF assms, of "avail_idx r" 0] by simp
  moreover have "unat (avail_idx r) mod length (avail_entries r) < length (avail_entries r)"
    using ring_size_bounds[OF assms] by simp
  ultimately show ?thesis
    by (simp add: add_entry_def register_modify_def increment_def)
qed

lemma add_buffer_ok:
  assumes "virtqueue_inv vq" "ds \<noteq> []" "length ds \<le> length (entry_data vq)"
    and "\<forall>d\<in>set ds. \<not> flag_indirect (elem_flags d)" "\<not> flag_next (elem_flags (last ds))"
    and "entry_data vq ! slot (queue_table (data_queue vq)) 0 = None"
  obtains t' where
    "chain_added (queue_table (data_queue vq)) ds t'"
    "add_buffer ds d vq =
       Inr (vq\<lparr>entry_data := (entry_data vq)[slot (queue_table (data_queue vq)) 0 := Some d],
         data_queue := (data_queue vq)\<lparr>queue_table := t', queue_avail := (queue_avail (data_queue vq))\<lparr>
           avail_entries := (avail_entries (queue_avail (data_queue vq)))
             [unat (avail_idx (queue_avail (data_queue vq))) mod length (entry_data vq) :=
              of_nat (slot (queue_table (data_queue vq)) 0)],
           avail_idx := avail_idx (queue_avail (data_queue vq)) + 1\<rparr>\<rparr>\<rparr>)"
    "chain_take (length ds) (chain_new t' (of_nat (slot (queue_table (data_queue vq)) 0))) =
       Inr (link_elems ds, \<lparr>chain_table = t', current_index = None\<rparr>)"
proof -
  let ?q = "data_queue vq"
  let ?t = "queue_table ?q" and ?r = "queue_avail ?q"
  let ?n = "length (table_descriptors ?t)"
  have size: "ring_size ?n" and len: "length (avail_entries ?r) = ?n" "length (entry_data vq) = ?n"
    using assms(1) by (simp_all add: virtqueue_inv_def Let_def)
  obtain t' where t': "add_descriptor ds ?t = Inr (of_nat (slot ?t 0), t')" "chain_added ?t ds t'"
    using add_descriptor_spec[OF size assms(2)] assms(3,4) len by auto
  show thesis
  proof (rule that[OF t'(2)])
    show "add_buffer ds d vq = Inr (vq\<lparr>entry_data := (entry_data vq)[slot ?t 0 := Some d],
         data_queue := ?q\<lparr>queue_table := t', queue_avail := ?r\<lparr>
           avail_entries := (avail_entries ?r)[unat (avail_idx ?r) mod length (entry_data vq) := of_nat (slot ?t 0)],
           avail_idx := avail_idx ?r + 1\<rparr>\<rparr>\<rparr>)"
      using slot_bound[OF size, of 0] assms(6) len size
      by (simp add: add_buffer_def t'(1) unat_slot[OF size] add_entry_ring)
    show "chain_take (length ds) (chain_new t' (of_nat (slot ?t 0))) =
        Inr (link_elems ds, \<lparr>chain_table = t', current_index = None\<rparr>)"
      using chain_take_added[OF size t'(2) assms(5), of 0] assms(2) by (simp add: chain_new_def)
  qed
qed

text \<open>The same, by what it keeps and changes.\<close>
lemma add_buffer_effect:
  assumes "virtqueue_inv vq" "ds \<noteq> []" "length ds \<le> length (entry_data vq)"
    and "\<forall>d\<in>set ds. \<not> flag_indirect (elem_flags d)" "\<not> flag_next (elem_flags (last ds))"
    and "entry_data vq ! slot (queue_table (data_queue vq)) 0 = None"
  obtains vq' where "add_buffer ds d vq = Inr vq'" "virtqueue_inv vq'"
    "entry_data vq' = (entry_data vq)[slot (queue_table (data_queue vq)) 0 := Some d]"
    "queue_used (data_queue vq') = queue_used (data_queue vq)"
    "last_processed_used_index (data_queue vq') = last_processed_used_index (data_queue vq)"
    "chain_take (length ds) (chain_new (queue_table (data_queue vq')) (of_nat (slot (queue_table (data_queue vq)) 0))) =
       Inr (link_elems ds, \<lparr>chain_table = queue_table (data_queue vq'), current_index = None\<rparr>)"
proof -
  from add_buffer_ok[OF assms] obtain t' where t': "chain_added (queue_table (data_queue vq)) ds t'"
    "add_buffer ds d vq =
       Inr (vq\<lparr>entry_data := (entry_data vq)[slot (queue_table (data_queue vq)) 0 := Some d],
         data_queue := (data_queue vq)\<lparr>queue_table := t', queue_avail := (queue_avail (data_queue vq))\<lparr>
           avail_entries := (avail_entries (queue_avail (data_queue vq)))
             [unat (avail_idx (queue_avail (data_queue vq))) mod length (entry_data vq) :=
              of_nat (slot (queue_table (data_queue vq)) 0)],
           avail_idx := avail_idx (queue_avail (data_queue vq)) + 1\<rparr>\<rparr>\<rparr>)"
    "chain_take (length ds) (chain_new t' (of_nat (slot (queue_table (data_queue vq)) 0))) =
       Inr (link_elems ds, \<lparr>chain_table = t', current_index = None\<rparr>)" by metis
  show thesis
    using assms(1) t'(1,3) by (intro that[OF t'(2)]) (simp_all add: virtqueue_inv_def Let_def chain_added_def)
qed

text \<open>C12: Offering a buffer that fits in the table, of descriptors that are not indirect and whose
  last one does not ask for a successor, to a queue whose next descriptor slot carries no data, does not
  panic; the head of the chain is the table's next slot, it is put at the position the available
  ring's index names and that index counts up by one with 16-bit wrap-around, the request data is in the
  head's slot, and walking the chain from its head gives exactly the descriptors, in order, each but
  the last with the `next` flag, and then ends. The data of other slots, the other entries of
  the ring and the descriptors outside the chain are untouched.\<close>
theorem add_buffer_correct:
  assumes "virtqueue_inv vq" "ds \<noteq> []" "length ds \<le> length (entry_data vq)"
    and "\<forall>d\<in>set ds. \<not> flag_indirect (elem_flags d)" "\<not> flag_next (elem_flags (last ds))"
    and "entry_data vq ! slot (queue_table (data_queue vq)) 0 = None"
  shows "\<exists>vq' t'. add_buffer ds d vq = Inr vq' \<and> virtqueue_inv vq' \<and>
    (let q = data_queue vq; r = queue_avail q; n = length (entry_data vq); head = slot (queue_table q) 0 in
     vq' = vq\<lparr>entry_data := (entry_data vq)[head := Some d],
       data_queue := q\<lparr>queue_table := t', queue_avail := r\<lparr>
         avail_entries := (avail_entries r)[unat (avail_idx r) mod n := of_nat head],
         avail_idx := avail_idx r + 1\<rparr>\<rparr>\<rparr> \<and>
     chain_take (length ds) (chain_new t' (of_nat head)) =
       Inr (link_elems ds, \<lparr>chain_table = t', current_index = None\<rparr>) \<and>
     (\<forall>j<n. j \<notin> slot (queue_table q) ` {..<length ds} \<longrightarrow>
        table_descriptors t' ! j = table_descriptors (queue_table q) ! j))"
proof -
  let ?t = "queue_table (data_queue vq)"
  have n: "length (entry_data vq) = length (table_descriptors ?t)"
    using assms(1) by (simp add: virtqueue_inv_def Let_def)
  from add_buffer_ok[OF assms] obtain t' where added: "chain_added ?t ds t'" and
    t': "add_buffer ds d vq =
       Inr (vq\<lparr>entry_data := (entry_data vq)[slot ?t 0 := Some d],
         data_queue := (data_queue vq)\<lparr>queue_table := t', queue_avail := (queue_avail (data_queue vq))\<lparr>
           avail_entries := (avail_entries (queue_avail (data_queue vq)))
             [unat (avail_idx (queue_avail (data_queue vq))) mod length (entry_data vq) := of_nat (slot ?t 0)],
           avail_idx := avail_idx (queue_avail (data_queue vq)) + 1\<rparr>\<rparr>\<rparr>)" (is "_ = Inr ?vq")
    "chain_take (length ds) (chain_new t' (of_nat (slot ?t 0))) =
       Inr (link_elems ds, \<lparr>chain_table = t', current_index = None\<rparr>)" by metis
  have "virtqueue_inv ?vq" using assms(1) added by (simp add: virtqueue_inv_def Let_def chain_added_def)
  moreover have "\<forall>j<length (entry_data vq). j \<notin> slot ?t ` {..<length ds} \<longrightarrow>
      table_descriptors t' ! j = table_descriptors ?t ! j"
    using added n by (simp add: chain_added_def)
  ultimately show ?thesis
    using t' by (intro exI[of _ ?vq] exI[of _ t']) (simp add: Let_def)
qed

section \<open>Taking buffers back\<close>

text \<open>The device's side of the used ring, as the VirtIO specification has it: a used element is
  written at the position of the ring's index, which counts up.\<close>
definition device_used :: "used_elem \<Rightarrow> used_ring \<Rightarrow> used_ring" where
  "device_used e r =
     r\<lparr>used_entries := (used_entries r)[unat (used_idx r) mod length (used_entries r) := e],
       used_idx := used_idx r + 1\<rparr>"

definition device_completes :: "used_elem list \<Rightarrow> 'd queue_data \<Rightarrow> 'd queue_data" where
  "device_completes es vq =
     vq\<lparr>data_queue := (data_queue vq)\<lparr>queue_used := fold device_used es (queue_used (data_queue vq))\<rparr>\<rparr>"

lemma device_used_simps [simp]:
  "used_idx (device_used e r) = used_idx r + 1"
  "used_entries (device_used e r) =
     (used_entries r)[unat (used_idx r) mod length (used_entries r) := e]"
  by (simp_all add: device_used_def)

lemma fold_device_used:
  assumes "ring_size (length (used_entries r))" "length es \<le> length (used_entries r)"
  shows "used_idx (fold device_used es r) = used_idx r + of_nat (length es) \<and>
    length (used_entries (fold device_used es r)) = length (used_entries r) \<and>
    (\<forall>i<length es. used_entries (fold device_used es r) !
       ((unat (used_idx r) + i) mod length (used_entries r)) = es ! i)"
  using assms(2)
proof (induction es rule: rev_induct)
  case (snoc e es)
  let ?r = "fold device_used es r" and ?n = "length (used_entries r)"
  have r: "used_idx ?r = used_idx r + of_nat (length es)" "length (used_entries ?r) = ?n"
    and old: "\<forall>i<length es. used_entries ?r ! ((unat (used_idx r) + i) mod ?n) = es ! i"
    using snoc by auto
  have pos: "unat (used_idx r + of_nat (length es)) mod ?n = (unat (used_idx r) + length es) mod ?n"
    using ring_position[OF assms(1), of "used_idx r" "length es"]
      ring_position[OF assms(1), of "used_idx r + of_nat (length es)" 0] by simp
  have "0 < ?n" using ring_size_bounds[OF assms(1)] by simp
  moreover have "(unat (used_idx r) + length es) mod ?n \<noteq> (unat (used_idx r) + i) mod ?n"
    if "i < length es" for i
    using positions_inj[of i ?n "length es" "unat (used_idx r)"] snoc.prems that by auto
  ultimately show ?case
    using r old by (auto simp: pos nth_append less_Suc_eq)
qed simp

text \<open>What the queue does with one used element.\<close>
definition deliver ::
  "(used_elem \<Rightarrow> chain_iterator \<Rightarrow> 'd option \<Rightarrow> 's \<Rightarrow> 's outcome) \<Rightarrow> descriptor_table \<Rightarrow> used_elem \<Rightarrow>
   'd option list \<times> 's \<Rightarrow> ('d option list \<times> 's) outcome" where
  "deliver f t e ds = and_then (desc_index e) (\<lambda>i. take_data_entry f e (chain_new t i) ds)"

lemma get_used_elem_completed:
  assumes "ring_size (length (used_entries r))" "length es \<le> length (used_entries r)" "i < length es"
  shows "get_used_elem (used_idx r + of_nat i) (fold device_used es r) = Inr (es ! i)"
proof -
  note new = fold_device_used[OF assms(1,2)]
  have "unat ((used_idx r + of_nat i) mod of_nat (length (used_entries r))) < length (used_entries r)"
    by (rule position_bound[OF assms(1)])
  then show ?thesis
    using new assms(1,3)
    by (simp add: get_used_elem_def to_elem_index_ring ring_position)
qed

lemma process_loop:
  assumes "virtqueue_inv vq" "length es \<le> length (entry_data vq)"
    and "unat (used_idx (queue_used (data_queue vq))) + length es < 2 ^ 16"
  shows "for_each (\<lambda>i st. and_then (get_used_ring_entry (of_nat i) (data_queue (device_completes es vq)))
             (\<lambda>(e, chain). take_data_entry f e chain st))
           [unat (used_idx (queue_used (data_queue vq))) ..<
            unat (used_idx (queue_used (data_queue vq))) + length es] st =
         for_each (deliver f (queue_table (data_queue vq))) es st"
    (is "for_each ?body [?a ..< ?a + _] st = _")
proof -
  let ?r = "queue_used (data_queue vq)"
  have size: "ring_size (length (used_entries ?r))" and len: "length es \<le> length (used_entries ?r)"
    using assms(1,2) by (simp_all add: virtqueue_inv_def Let_def)
  have "?body i st = deliver f (queue_table (data_queue vq)) (es ! (i - ?a)) st"
    if "i \<in> set [?a ..< ?a + length es]" for i st
  proof -
    have "of_nat i = used_idx ?r + of_nat (i - ?a)" using that by (simp flip: of_nat_add)
    then have "get_used_elem (of_nat i) (fold device_used es ?r) = Inr (es ! (i - ?a))"
      using get_used_elem_completed[OF size len, of "i - ?a"] that by auto
    then show ?thesis
      by (simp add: get_used_ring_entry_def device_completes_def deliver_def and_then_assoc)
  qed
  then have "for_each ?body [?a ..< ?a + length es] st =
      for_each (\<lambda>i. deliver f (queue_table (data_queue vq)) (es ! (i - ?a))) [?a ..< ?a + length es] st"
    by (rule for_each_cong)
  then show ?thesis by (simp only: for_each_indices)
qed

lemma completes_keeps_data:
  "(device_completes es vq)\<lparr>entry_data := entry_data vq, data_queue := q\<rparr> =
     (device_completes es vq)\<lparr>data_queue := q\<rparr>"
  by (cases vq) (simp add: device_completes_def)

lemma process_data_completed:
  assumes "virtqueue_inv vq" "length es \<le> length (entry_data vq)"
    and "last_processed_used_index (data_queue vq) = used_idx (queue_used (data_queue vq))"
  shows "process_data_entries f (device_completes es vq) s =
    (let u = used_idx (queue_used (data_queue vq)); vq1 = device_completes es vq;
         q = (data_queue vq1)\<lparr>last_processed_used_index := u + of_nat (length es)\<rparr> in
     and_then (if unat u + length es < 2 ^ 16
               then for_each (deliver f (queue_table (data_queue vq))) es (entry_data vq, s)
               else Inr (entry_data vq, s)) (\<lambda>(data', s').
     Inr (vq1\<lparr>entry_data := data', data_queue := q\<rparr>, s')))"
proof -
  let ?r = "queue_used (data_queue vq)"
  have size: "ring_size (length (used_entries ?r))" and len: "length es \<le> length (used_entries ?r)"
    using assms(1,2) by (simp_all add: virtqueue_inv_def Let_def)
  have new: "used_idx (fold device_used es ?r) = used_idx ?r + of_nat (length es)"
    using fold_device_used[OF size len] by simp
  have small: "length es < 2 ^ 16" using len ring_size_bounds[OF size] by simp
  show ?thesis
  proof (cases "unat (used_idx ?r) + length es < 2 ^ 16")
    case True
    then have "unat (used_idx ?r + of_nat (length es)) = unat (used_idx ?r) + length es"
      by (simp add: unat_word_ariths unat_of_nat mod_simps)
    then show ?thesis
      using process_loop[OF assms(1,2) True, of f "(entry_data vq, s)"] True assms(3) new
      by (cases "for_each (deliver f (queue_table (data_queue vq))) es (entry_data vq, s)")
        (simp_all add: process_data_entries_def process_new_entries_def device_completes_def Let_def
          split: prod.split)
  next
    case False
    have "unat (used_idx ?r + of_nat (length es)) = (unat (used_idx ?r) + length es) mod 2 ^ 16"
      by (simp add: unat_word_ariths unat_of_nat mod_simps)
    also have "\<dots> = unat (used_idx ?r) + length es - 2 ^ 16"
      using False small unsigned_less[of "used_idx ?r", where 'a = nat] by (simp add: mod_if)
    finally have "unat (used_idx ?r + of_nat (length es)) \<le> unat (used_idx ?r)"
      using small by simp
    then show ?thesis
      using False assms(3) new
      by (simp add: process_data_entries_def process_new_entries_def device_completes_def Let_def)
  qed
qed


text \<open>C35: When the device's 16-bit used index wraps around while it completes a batch, processing the
  new entries runs the callback for none of them: the range of the loop is empty, the entries
  count as processed, and their requests keep their data and are never answered.\<close>
theorem wrapped_entries_are_lost:
  assumes "virtqueue_inv vq" "length es \<le> length (entry_data vq)"
    and "last_processed_used_index (data_queue vq) = used_idx (queue_used (data_queue vq))"
    and "2 ^ 16 \<le> unat (used_idx (queue_used (data_queue vq))) + length es"
  shows "process_data_entries f (device_completes es vq) s =
    Inr ((device_completes es vq)\<lparr>data_queue := (data_queue (device_completes es vq))\<lparr>
           last_processed_used_index := used_idx (queue_used (data_queue vq)) + of_nat (length es)\<rparr>\<rparr>, s)"
  using assms(4) by (simp add: process_data_completed[OF assms(1-3)] Let_def completes_keeps_data)

section \<open>An example queue\<close>

text \<open>Four slots, the table's next slot is the last one, and the available index is about to wrap.\<close>
definition example_buffer :: physical_buffer where
  "example_buffer = \<lparr>buffer_pages = page_range_new \<lparr>start_addr = 0, size_of_page = Size4KiB\<rparr> 1\<rparr>"

definition example_queue :: "u16 \<Rightarrow> 'd queue_data" where
  "example_queue u = queue_data_new
     \<lparr>queue_index = 0, device_notify_config = \<lparr>config_addr = 0xFFFF800000000000, notify_off_multiplier = 4\<rparr>, notify_offset = 0,
      queue_table = \<lparr>table_buffer = example_buffer, raw_next_index = 3,
        table_descriptors = replicate 4 zeroed_descriptor\<rparr>,
      queue_avail = \<lparr>avail_buffer = example_buffer, avail_flags = 0, avail_idx = 0xFFFF,
        avail_entries = replicate 4 0, used_event = 0\<rparr>,
      queue_used = \<lparr>used_buffer = example_buffer, used_flags = 0, used_idx = u,
        used_entries = replicate 4 \<lparr>used_id = 0, used_len = 0\<rparr>, avail_event = 0\<rparr>,
      last_processed_used_index = u\<rparr>"

lemma example_queue_inv: "virtqueue_inv (example_queue u)"
proof -
  have "ring_size 4" unfolding ring_size_def by (rule exI[of _ 2]) simp
  then show ?thesis by (simp add: virtqueue_inv_def example_queue_def queue_data_new_def)
qed

definition example_chain :: "chained_descriptor list" where
  "example_chain =
     [\<lparr>elem_addr = 0x1000, elem_len = 16, elem_flags = 0\<rparr>,
      \<lparr>elem_addr = 0x2000, elem_len = 512, elem_flags = with_device_write True 0\<rparr>]"

lemma example_chain_facts:
  "example_chain \<noteq> []" "length example_chain = 2"
  "\<forall>d\<in>set example_chain. \<not> flag_indirect (elem_flags d)"
  "\<not> flag_next (elem_flags (last example_chain))"
  by (simp_all add: example_chain_def flag_indirect_def flag_next_def with_device_write_def bit_set_bit_iff)

lemma example_slots:
  "slot (queue_table (data_queue (example_queue u))) 0 = 3"
  "entry_data (example_queue u) = replicate 4 None"
  by (simp_all add: slot_def example_queue_def queue_data_new_def)

lemma example_room:
  "length example_chain \<le> length (entry_data (example_queue u))"
  "entry_data (example_queue u) ! slot (queue_table (data_queue (example_queue u))) 0 = None"
  by (simp_all add: example_chain_facts example_slots)

lemma example_avail:
  "unat (avail_idx (queue_avail (data_queue (example_queue u)))) mod 4 = 3"
  "avail_idx (queue_avail (data_queue (example_queue u))) + 1 = 0"
  "avail_entries (queue_avail (data_queue (example_queue u))) = replicate 4 0"
  by (simp_all add: example_queue_def queue_data_new_def)

theorem add_buffer_correct_witness:
  "\<exists>vq' t'. add_buffer example_chain (7 :: nat) (example_queue 0) = Inr vq' \<and>
     entry_data vq' = [None, None, None, Some 7] \<and>
     avail_idx (queue_avail (data_queue vq')) = 0 \<and>
     avail_entries (queue_avail (data_queue vq')) = [0, 0, 0, 3] \<and>
     chain_take 2 (chain_new t' 3) = Inr (link_elems example_chain, \<lparr>chain_table = t', current_index = None\<rparr>)"
proof -
  note offer = add_buffer_correct[OF example_queue_inv example_chain_facts(1) example_room(1)
      example_chain_facts(3,4) example_room(2), of "7 :: nat" 0, unfolded Let_def example_slots length_replicate
      example_chain_facts(2) example_avail]
  have upd: "(replicate 4 a)[3 := b] = [a, a, a, b]" for a b :: 'z by (simp add: eval_nat_numeral)
  obtain vq' t' where "add_buffer example_chain (7 :: nat) (example_queue 0) = Inr vq'"
    and "vq' = (example_queue 0)\<lparr>entry_data := (replicate 4 None)[3 := Some 7],
      data_queue := (data_queue (example_queue 0 :: nat queue_data))\<lparr>queue_table := t',
        queue_avail := (queue_avail (data_queue (example_queue 0 :: nat queue_data)))\<lparr>
          avail_entries := (replicate 4 0)[3 := of_nat 3], avail_idx := 0\<rparr>\<rparr>\<rparr>"
    and "chain_take 2 (chain_new t' (of_nat 3)) =
      Inr (link_elems example_chain, \<lparr>chain_table = t', current_index = None\<rparr>)"
    using offer by blast
  then show ?thesis by (intro exI[of _ vq'] exI[of _ t']) (simp add: upd)
qed

text \<open>A callback that logs the requests it is called for.\<close>
definition log_request :: "used_elem \<Rightarrow> chain_iterator \<Rightarrow> nat option \<Rightarrow> nat option list \<Rightarrow> nat option list outcome" where
  "log_request e chain d s = Inr (s @ [d])"

definition answered :: "nat queue_data \<Rightarrow> nat queue_data" where
  "answered vq = device_completes [\<lparr>used_id = 3, used_len = 1\<rparr>] (vq\<lparr>entry_data := [None, None, None, Some 7]\<rparr>)"

lemma example_pending_inv: "virtqueue_inv ((example_queue u)\<lparr>entry_data := [None, None, None, Some 7]\<rparr>)"
  using example_queue_inv[of u] by (auto simp: virtqueue_inv_def Let_def example_slots)


theorem wrapped_entries_are_lost_witness:
  "\<exists>vq'. process_data_entries log_request (answered (example_queue 0xFFFF)) [] = Inr (vq', []) \<and>
     entry_data vq' = [None, None, None, Some 7] \<and>
     last_processed_used_index (data_queue vq') = used_idx (queue_used (data_queue vq'))"
  using wrapped_entries_are_lost[OF example_pending_inv, of "[\<lparr>used_id = 3, used_len = 1\<rparr>]" "0xFFFF" log_request "[]"]
  by (simp add: answered_def example_queue_def queue_data_new_def device_completes_def)

end
