(* ===== verification/Once_Cell.thy ===== *)
theory Once_Cell
  imports Prelude
begin

text \<open>
  Cells that are written once: kernel/src/sync/once_cell.rs and init_cell.rs, and the
  integers that hold an enumeration, kernel/src/sync/atomic_int.rs. A cell is the
  content of its `RefCell`, the flag `ready`, and whether a reference to the content
  has been leaked, which keeps the `RefCell` borrowed for ever.
\<close>

section \<open>OnceCell\<close>

record 'a once_cell =
  message :: "'a option"
  ready :: bool
  leaked :: bool

definition cell_new :: "'a once_cell" where
  "cell_new = \<lparr>message = None, ready = False, leaked = False\<rparr>"

text \<open>`RefCell::replace` panics while the content is borrowed.\<close>
definition cell_replace :: "'a option \<Rightarrow> 'a once_cell \<Rightarrow> ('a option \<times> 'a once_cell) outcome" where
  "cell_replace v c = (if leaked c then Inl ExplicitPanic else Inr (message c, c\<lparr>message := v\<rparr>))"

definition cell_set :: "'a \<Rightarrow> 'a once_cell \<Rightarrow> 'a once_cell outcome" where
  "cell_set v c =
     and_then (cell_replace (Some v) c) (\<lambda>(_, c').
     and_then (assert_that (\<not> ready c')) (\<lambda>_. Inr (c'\<lparr>ready := True\<rparr>)))"

definition get_once :: "'a once_cell \<Rightarrow> ('a option \<times> 'a once_cell) outcome" where
  "get_once c =
     (if ready c then cell_replace None (c\<lparr>ready := False\<rparr>) else Inr (None, c\<lparr>ready := False\<rparr>))"

definition get_ref :: "'a once_cell \<Rightarrow> 'a option \<times> 'a once_cell" where
  "get_ref c = (if ready c then (message c, c\<lparr>leaked := True\<rparr>) else (None, c))"

definition get_clone :: "'a once_cell \<Rightarrow> 'a option" where
  "get_clone c = (if ready c then message c else None)"

section \<open>InitCell\<close>

type_synonym 'a init_cell = "'a once_cell"

definition init_cell_init :: "'a \<Rightarrow> 'a init_cell \<Rightarrow> 'a init_cell outcome" where
  "init_cell_init v c = cell_set v c"

definition init_cell_get :: "'a init_cell \<Rightarrow> 'a option \<times> 'a init_cell" where
  "init_cell_get c = get_ref c"

section \<open>What a cell holds\<close>

text \<open>A cell is ready only while it has a message, and references to it are leaked only then.\<close>
definition cell_inv :: "'a once_cell \<Rightarrow> bool" where
  "cell_inv c \<longleftrightarrow> (ready c \<longleftrightarrow> message c \<noteq> None) \<and> (leaked c \<longrightarrow> ready c)"

lemma cell_new_inv: "cell_inv cell_new" "get_clone cell_new = None" "\<not> ready cell_new"
  by (simp_all add: cell_new_def cell_inv_def get_clone_def)

lemma cell_set_spec:
  assumes "cell_inv c"
  shows "cell_set v c = (if leaked c then Inl ExplicitPanic else if ready c then Inl AssertFailed
    else Inr \<lparr>message = Some v, ready = True, leaked = False\<rparr>)"
  by (simp add: cell_set_def cell_replace_def)

text \<open>The first write fills the cell; what was written is what is read, by a copy, by a
  reference, or by taking it out, after which the cell is empty again.\<close>
lemma cell_first_set:
  assumes "cell_inv c" "\<not> ready c"
  obtains c' where "cell_set v c = Inr c'" "cell_inv c'" "get_clone c' = Some v" "fst (get_ref c') = Some v"
    "get_once c' = Inr (Some v, cell_new)"
proof -
  let ?c = "\<lparr>message = Some v, ready = True, leaked = False\<rparr>"
  have "cell_set v c = Inr ?c" using assms by (auto simp: cell_set_spec cell_inv_def)
  then show ?thesis
    by (rule that) (simp_all add: cell_inv_def get_clone_def get_ref_def get_once_def cell_replace_def cell_new_def)
qed

text \<open>A second write never succeeds: it fails the assertion, or the replacement when a reference is out.\<close>
lemma cell_second_set: "cell_inv c \<Longrightarrow> ready c \<Longrightarrow> \<exists>p. cell_set w c = Inl p"
  by (simp add: cell_set_spec)

lemma get_ref_inv: "cell_inv c \<Longrightarrow> cell_inv (snd (get_ref c)) \<and> get_clone (snd (get_ref c)) = get_clone c"
  by (auto simp: get_ref_def get_clone_def cell_inv_def)

section \<open>Integers that hold an enumeration\<close>

text \<open>`AtomicEnum`: the stored integer and the conversions of the enumeration.\<close>
definition atomic_new :: "('t \<Rightarrow> 'i) \<Rightarrow> 't \<Rightarrow> 'i" where
  "atomic_new into v = into v"

definition convert_from_integer :: "('i \<Rightarrow> 't option) \<Rightarrow> 'i \<Rightarrow> 't outcome" where
  "convert_from_integer try_from i = (case try_from i of None \<Rightarrow> Inl ExplicitPanic | Some v \<Rightarrow> Inr v)"

definition atomic_load :: "('i \<Rightarrow> 't option) \<Rightarrow> 'i \<Rightarrow> 't outcome" where
  "atomic_load try_from i = convert_from_integer try_from i"

text \<open>`swap` stores the new value before it converts the old one.\<close>
definition atomic_swap :: "('t \<Rightarrow> 'i) \<Rightarrow> ('i \<Rightarrow> 't option) \<Rightarrow> 't \<Rightarrow> 'i \<Rightarrow> ('t \<times> 'i) outcome" where
  "atomic_swap into try_from v i = and_then (convert_from_integer try_from i) (\<lambda>old. Inr (old, into v))"

text \<open>The contract between the two conversions: what was stored reads back, so an integer that
  was only written through the wrapper never fails to convert.\<close>
locale enum_code =
  fixes into :: "'t \<Rightarrow> 'i" and try_from :: "'i \<Rightarrow> 't option"
  assumes round_trip: "try_from (into v) = Some v"
begin

definition stored :: "'i \<Rightarrow> bool" where "stored i \<longleftrightarrow> (\<exists>v. i = into v)"

lemma load_new: "atomic_load try_from (atomic_new into v) = Inr v"
  by (simp add: atomic_load_def atomic_new_def convert_from_integer_def round_trip)

lemma into_inject: "into v = into w \<longleftrightarrow> v = w"
  by (metis option.inject round_trip)

lemma load_into: "atomic_load try_from (into v) = Inr v"
  by (simp add: atomic_load_def convert_from_integer_def round_trip)

lemma swap_into: "atomic_swap into try_from w (into v) = Inr (v, into w)"
  by (simp add: atomic_swap_def convert_from_integer_def round_trip)

lemma load_stored: "stored i \<Longrightarrow> \<exists>v. atomic_load try_from i = Inr v \<and> i = into v"
  by (auto simp: stored_def load_into)

end

end
