(* ===== verification/Context_Switch.thy ===== *)
theory Context_Switch
  imports Address
begin

text \<open>
  The assembly of `switch_to_task` (kernel/src/sched/schedcore.rs) and the stack frame
  that `Task::new` (kernel/src/sched/task.rs) prepares for the first switch to a task.
  The machine is the general purpose registers, the stack pointer, the instruction
  pointer and CR3. Kernel stacks lie in the upper half of the address space, which all
  page tables share, so their memory is one map from the addresses of 64-bit words to
  their values.
\<close>

section \<open>The machine\<close>

datatype reg = RAX | RBX | RCX | RDX | RBP | RSI | RDI | R8 | R9 | R10 | R11 | R12 | R13 | R14 | R15

record machine =
  gpr :: "reg \<Rightarrow> u64"
  rsp :: u64
  rip :: u64
  cr3 :: u64
  words :: "u64 \<Rightarrow> u64"

definition push :: "reg \<Rightarrow> machine \<Rightarrow> machine" where
  "push r m = m\<lparr>rsp := rsp m - 8, words := (words m)(rsp m - 8 := gpr m r)\<rparr>"

definition pop :: "reg \<Rightarrow> machine \<Rightarrow> machine" where
  "pop r m = m\<lparr>gpr := (gpr m)(r := words m (rsp m)), rsp := rsp m + 8\<rparr>"

definition ret :: "machine \<Rightarrow> machine" where
  "ret m = m\<lparr>rip := words m (rsp m), rsp := rsp m + 8\<rparr>"

section \<open>switch\_to\_task\<close>

definition pushed_registers :: "reg list" where
  "pushed_registers = [RAX, RBX, RCX, RDX, RBP, RSI, RDI, R8, R9, R10, R11, R12, R13, R14, R15]"

definition popped_registers :: "reg list" where
  "popped_registers = [R15, R14, R13, R12, R11, R10, R9, R8, RDI, RSI, RBP, RDX, RCX, RBX, RAX]"

text \<open>The function from its entry, where the stack pointer is at the return address, to its `ret`.
  It stores the stack pointer of the task it leaves through its first argument; that value is
  the second result.\<close>
definition switch_to_task :: "u64 \<Rightarrow> u64 \<Rightarrow> machine \<Rightarrow> machine \<times> u64" where
  "switch_to_task next_rsp next_page_table m =
     (let m1 = fold push pushed_registers m;
          m2 = m1\<lparr>rsp := next_rsp, cr3 := next_page_table\<rparr>;
          m3 = fold pop popped_registers m2
      in (ret m3, rsp m1))"

section \<open>The first frame of a task\<close>

definition num_general_purpose_registers :: nat where
  "num_general_purpose_registers = 15"

text \<open>The writes of `Task::new` to the new stack, in the order of the code; the stack pointer it
  records in the task.\<close>
definition first_frame :: "u64 \<Rightarrow> u64 \<Rightarrow> u64 \<Rightarrow> u64 \<Rightarrow> (u64 \<Rightarrow> u64) \<Rightarrow> (u64 \<Rightarrow> u64) \<times> u64" where
  "first_frame task_setup start_fn arg stack_top ws =
     (ws(stack_top - 2 * 8 := task_setup, stack_top - 8 * 8 := arg, stack_top - 9 * 8 := start_fn),
      stack_top - of_nat (num_general_purpose_registers + 2) * 8)"

section \<open>What a switch saves and restores\<close>

lemma register_order: "popped_registers = rev pushed_registers"
  "distinct pushed_registers" "length pushed_registers = 15" "r \<in> set pushed_registers"
  by (simp_all add: pushed_registers_def popped_registers_def) (cases r; simp)

lemma push_sel [simp]:
  "gpr (push r m) = gpr m" "rsp (push r m) = rsp m - 8" "cr3 (push r m) = cr3 m" "rip (push r m) = rip m"
  "words (push r m) = (words m)(rsp m - 8 := gpr m r)"
  by (simp_all add: push_def)

lemma pop_sel [simp]:
  "gpr (pop r m) = (gpr m)(r := words m (rsp m))" "rsp (pop r m) = rsp m + 8" "cr3 (pop r m) = cr3 m"
  "rip (pop r m) = rip m" "words (pop r m) = words m"
  by (simp_all add: pop_def)

text \<open>Word \<open>k\<close> above an address.\<close>
definition word_at :: "u64 \<Rightarrow> nat \<Rightarrow> u64" where "word_at a k = a + of_nat (8 * k)"

lemma word_at_Suc: "word_at a (Suc k) = word_at (a + 8) k" "word_at (word_at a j) k = word_at a (j + k)"
  "word_at a 0 = a" "word_at (a - 8) (Suc k) = word_at a k"
  by (simp_all add: word_at_def algebra_simps)

lemma word_at_inject: "j < 2 ^ 61 \<Longrightarrow> k < 2 ^ 61 \<Longrightarrow> word_at a j = word_at a k \<longleftrightarrow> j = k"
proof -
  assume "j < 2 ^ 61" "k < 2 ^ 61"
  then have "unat (of_nat (8 * j) :: u64) = 8 * j" "unat (of_nat (8 * k) :: u64) = 8 * k"
    by (simp_all add: unat_of_nat_u64 del: of_nat_mult)
  then show ?thesis unfolding word_at_def add_left_cancel by (metis nat_mult_eq_cancel1 zero_less_numeral)
qed

lemma push_regs:
  shows "rsp (fold push rs m) = rsp m - of_nat (8 * length rs)" "gpr (fold push rs m) = gpr m"
    "cr3 (fold push rs m) = cr3 m" "rip (fold push rs m) = rip m"
  by (induction rs arbitrary: m) simp_all

lemma push_all_words_outside:
  "(\<And>k. k < length rs \<Longrightarrow> a \<noteq> rsp m - of_nat (8 * Suc k)) \<Longrightarrow> words (fold push rs m) a = words m a"
proof (induction rs arbitrary: m)
  case (Cons r rs)
  have "a \<noteq> rsp m - 8" using Cons.prems[of 0] by simp
  moreover have "a \<noteq> rsp (push r m) - of_nat (8 * Suc k)" if "k < length rs" for k
    using Cons.prems[of "Suc k"] that by (simp add: algebra_simps)
  ultimately show ?case using Cons.IH[of "push r m"] by simp
qed simp

lemma pop_all:
  shows "rsp (fold pop rs m) = word_at (rsp m) (length rs)" "words (fold pop rs m) = words m"
    "cr3 (fold pop rs m) = cr3 m" "rip (fold pop rs m) = rip m"
  by (induction rs arbitrary: m) (simp_all add: word_at_def algebra_simps)

lemma pop_all_other: "r \<notin> set rs \<Longrightarrow> gpr (fold pop rs m) r = gpr m r"
  by (induction rs arbitrary: m) simp_all

lemma pop_all_gpr:
  "distinct rs \<Longrightarrow> k < length rs \<Longrightarrow> gpr (fold pop rs m) (rs ! k) = words m (word_at (rsp m) k)"
  by (induction rs arbitrary: m k) (auto simp: nth_Cons word_at_Suc pop_all_other split: nat.splits)

text \<open>After the pushes the registers are on the stack, the last one lowest, below the return address.\<close>
lemma push_all_frame:
  "length rs < 2 ^ 61 \<Longrightarrow> k < length rs \<Longrightarrow>
     words (fold push rs m) (word_at (rsp m - of_nat (8 * length rs)) k) = gpr m (rev rs ! k)"
proof (induction rs arbitrary: k rule: rev_induct)
  case (snoc r rs)
  let ?a = "rsp m - of_nat (8 * length rs)"
  have w: "words (fold push (rs @ [r]) m) = (words (fold push rs m))(?a - 8 := gpr m r)"
    by (simp add: push_regs)
  have a: "rsp m - of_nat (8 * length (rs @ [r])) = ?a - 8" by (simp add: algebra_simps)
  show ?case
  proof (cases k)
    case 0
    then show ?thesis unfolding w a by (simp add: word_at_Suc)
  next
    case (Suc i)
    have "word_at (?a - 8) k \<noteq> ?a - 8"
      using word_at_inject[of k 0 "?a - 8"] snoc.prems Suc by (simp add: word_at_Suc)
    then show ?thesis unfolding w a using snoc.IH[of i] snoc.prems Suc by (simp add: word_at_Suc)
  qed
qed simp

lemma below_word_at: "j + Suc k < 2 ^ 61 \<Longrightarrow> word_at a j \<noteq> a - of_nat (8 * Suc k)"
proof
  assume "j + Suc k < 2 ^ 61" and e: "word_at a j = a - of_nat (8 * Suc k)"
  from e have "(of_nat (8 * (j + Suc k)) :: u64) = 0" by (simp add: word_at_def algebra_simps)
  moreover have "unat (of_nat (8 * (j + Suc k)) :: u64) = 8 * (j + Suc k)"
    using \<open>j + Suc k < 2 ^ 61\<close> by (intro unat_of_nat_u64) simp
  ultimately show False by simp
qed

lemma push_all_above: "j + length rs < 2 ^ 61 \<Longrightarrow> words (fold push rs m) (word_at (rsp m) j) = words m (word_at (rsp m) j)"
  by (rule push_all_words_outside) (rule below_word_at, simp)

text \<open>The stack pointer of a task that has been switched away from.\<close>
definition saved_rsp :: "machine \<Rightarrow> u64" where "saved_rsp m = rsp m - of_nat (8 * 15)"

lemma saved_rsp_word: "word_at (saved_rsp m) (15 + j) = word_at (rsp m) j"
  by (simp add: saved_rsp_def word_at_def algebra_simps)

lemma switch_saves:
  fixes m :: machine and sp pt :: u64
  shows "snd (switch_to_task sp pt m) = saved_rsp m"
    "k < 15 \<Longrightarrow> words (fst (switch_to_task sp pt m)) (word_at (saved_rsp m) k) = gpr m (popped_registers ! k)"
    "j < 2 ^ 60 \<Longrightarrow> words (fst (switch_to_task sp pt m)) (word_at (rsp m) j) = words m (word_at (rsp m) j)"
  using push_all_frame[of pushed_registers k m] push_all_above[of j pushed_registers m]
  by (simp_all add: switch_to_task_def Let_def ret_def pop_all push_regs register_order saved_rsp_def)

text \<open>Switching to a stack pointer loads the registers from the frame there, provided the pushes of
  the task that is left do not hit that frame.\<close>
lemma switch_loads:
  assumes "\<And>j k. j < 16 \<Longrightarrow> k < 15 \<Longrightarrow> word_at sp j \<noteq> rsp m - of_nat (8 * Suc k)"
  shows "k < 15 \<Longrightarrow> gpr (fst (switch_to_task sp pt m)) (popped_registers ! k) = words m (word_at sp k)"
    "rip (fst (switch_to_task sp pt m)) = words m (word_at sp 15)"
    "rsp (fst (switch_to_task sp pt m)) = word_at sp 16" "cr3 (fst (switch_to_task sp pt m)) = pt"
proof -
  have out: "words (fold push pushed_registers m) (word_at sp j) = words m (word_at sp j)" if "j < 16" for j
    using assms[OF that] by (intro push_all_words_outside) (simp add: register_order)
  have d: "distinct popped_registers" "length popped_registers = 15" by (simp_all add: register_order)
  show "k < 15 \<Longrightarrow> gpr (fst (switch_to_task sp pt m)) (popped_registers ! k) = words m (word_at sp k)"
    using out[of k] by (simp add: switch_to_task_def Let_def ret_def pop_all_gpr[OF d(1)] d(2))
  show "rip (fst (switch_to_task sp pt m)) = words m (word_at sp 15)" "rsp (fst (switch_to_task sp pt m)) = word_at sp 16"
    "cr3 (fst (switch_to_task sp pt m)) = pt"
    using out[of 15] by (simp_all add: switch_to_task_def Let_def ret_def pop_all d(2) word_at_def algebra_simps)
qed

lemma popped_register: obtains k where "k < 15" "popped_registers ! k = r"
  using register_order(1,3) register_order(4)[of r] by (metis in_set_conv_nth length_rev set_rev)

text \<open>C19: A task that was switched away from and is later switched back to, on whatever stack the
  processor was in between, continues after its call of `switch_to_task` with all fifteen general
  purpose registers and its stack pointer as they were, if its saved frame is untouched.\<close>
theorem switch_round_trip:
  assumes "switch_to_task sp pt m = (m1, saved)"
    and "\<And>k. k < 16 \<Longrightarrow> words m2 (word_at saved k) = words m1 (word_at saved k)"
    and "\<And>j k. j < 16 \<Longrightarrow> k < 15 \<Longrightarrow> word_at saved j \<noteq> rsp m2 - of_nat (8 * Suc k)"
  shows "let m3 = fst (switch_to_task saved pt' m2) in
    gpr m3 = gpr m \<and> rsp m3 = rsp m + 8 \<and> rip m3 = words m (rsp m) \<and> cr3 m3 = pt'"
proof -
  note saves = switch_saves[where sp = sp and pt = pt and m = m, unfolded assms(1), simplified] and loads = switch_loads[OF assms(3)]
  have saved: "saved = saved_rsp m" using saves(1) by simp
  have "gpr (fst (switch_to_task saved pt' m2)) r = gpr m r" for r
    by (rule popped_register[of r]) (use loads(1) saves(2) assms(2) saved in auto)
  moreover have "words m2 (word_at saved 15) = words m (rsp m)"
    using assms(2)[of 15] saves(3)[of 0] saved_rsp_word[of m 0] saved by (simp add: word_at_Suc)
  moreover have "word_at saved 16 = rsp m + 8"
    using saved_rsp_word[of m 1] saved by (simp add: word_at_def)
  ultimately show ?thesis using loads(2-4) by (simp add: Let_def fun_eq_iff)
qed

lemma first_frame_words:
  assumes "first_frame setup f arg stack_top ws = (ws', sp)"
  shows "sp = stack_top - 17 * 8" "ws' (word_at sp 15) = setup" "ws' (word_at sp 9) = arg" "ws' (word_at sp 8) = f"
    "ws' (word_at sp 10) = ws (word_at sp 10)"
  using assms by (auto simp: first_frame_def num_general_purpose_registers_def word_at_def)

text \<open>The first switch to a task starts `task_setup` with the task's function and argument as the
  first two arguments of the C calling convention, and with the frame pointer left zero.\<close>
lemma first_switch:
  assumes "first_frame setup f arg stack_top ws = (ws', sp)" "ws (stack_top - 56) = 0"
    and "\<And>j. j < 16 \<Longrightarrow> words m (word_at sp j) = ws' (word_at sp j)"
    and "\<And>j k. j < 16 \<Longrightarrow> k < 15 \<Longrightarrow> word_at sp j \<noteq> rsp m - of_nat (8 * Suc k)"
  shows "let m' = fst (switch_to_task sp pt m) in
    rip m' = setup \<and> gpr m' RDI = f \<and> gpr m' RSI = arg \<and> gpr m' RBP = 0 \<and> rsp m' = stack_top - 8 \<and> cr3 m' = pt"
proof -
  note fr = first_frame_words[OF assms(1)] and loads = switch_loads[OF assms(4)]
  have "popped_registers ! 8 = RDI" "popped_registers ! 9 = RSI" "popped_registers ! 10 = RBP"
    by (simp_all add: popped_registers_def)
  moreover have "word_at sp 10 = stack_top - 56" "word_at sp 16 = stack_top - 8"
    by (simp_all add: fr(1) word_at_def)
  ultimately show ?thesis
    using loads(1)[of 8] loads(1)[of 9] loads(1)[of 10] loads(2-4) assms(2) assms(3)[of 10] assms(3) fr(2-5) by (simp add: Let_def)
qed

theorem switch_round_trip_witness:
  "let m = \<lparr>gpr = (\<lambda>_. 7), rsp = 0x1000, rip = 0x50, cr3 = 1, words = (\<lambda>_. 3)\<rparr>;
       (m1, saved) = switch_to_task 0x5000 2 m
   in rsp (fst (switch_to_task saved 1 (m1\<lparr>rsp := 0x6000\<rparr>))) = 0x1008 \<and>
      gpr (fst (switch_to_task saved 1 (m1\<lparr>rsp := 0x6000\<rparr>))) = (\<lambda>_. 7)"
proof -
  let ?m = "\<lparr>gpr = (\<lambda>_. 7), rsp = 0x1000, rip = 0x50, cr3 = 1, words = (\<lambda>_. 3)\<rparr>"
  obtain m1 saved where sw: "switch_to_task 0x5000 2 ?m = (m1, saved)" by fastforce
  then have saved: "saved = 0x1000 - 120" using switch_saves(1)[where sp = "0x5000" and pt = 2 and m = ?m] by (simp add: saved_rsp_def)
  have "word_at saved j \<noteq> rsp (m1\<lparr>rsp := 0x6000\<rparr>) - of_nat (8 * Suc k)" if "j < 16" "k < 15" for j k
  proof
    assume "word_at saved j = rsp (m1\<lparr>rsp := 0x6000\<rparr>) - of_nat (8 * Suc k)"
    then have "(of_nat (8 * j + 8 * Suc k) :: u64) = of_nat 0x5078" by (simp add: saved word_at_def algebra_simps)
    then show False using that by (simp add: word_unat_eq_iff unat_of_nat_u64 del: of_nat_add of_nat_mult of_nat_Suc)
  qed
  from switch_round_trip[OF sw _ this, of 1] show ?thesis by (simp add: sw Let_def)
qed

end
