(* ===== verification/Tasks.thy ===== *)
theory Tasks
  imports Kernel_Stack Once_Cell Context_Switch "HOL-Library.Mapping"
begin

text \<open>
  Tasks and the table of all tasks: kernel/src/sched/task.rs. A task's state is stored
  as a byte (`AtomicEnum`), so reading it goes through the conversion that can fail. The
  B-tree of the code is a mapping ordered by task number.
\<close>

section \<open>Task numbers and states\<close>

datatype task_id = TaskId (task_number: u32)

instantiation task_id :: linorder
begin

definition less_eq_task_id :: "task_id \<Rightarrow> task_id \<Rightarrow> bool" where
  "a \<le> b \<longleftrightarrow> task_number a \<le> task_number b"

definition less_task_id :: "task_id \<Rightarrow> task_id \<Rightarrow> bool" where
  "a < b \<longleftrightarrow> task_number a < task_number b"

instance
  by standard (auto simp: less_eq_task_id_def less_task_id_def task_id.expand)

end

datatype desired_task_state = ReadyToRun | Sleeping | Killed

definition state_code :: "desired_task_state \<Rightarrow> u8" where
  "state_code st = (case st of ReadyToRun \<Rightarrow> 0 | Sleeping \<Rightarrow> 1 | Killed \<Rightarrow> 2)"

definition state_try_from :: "u8 \<Rightarrow> desired_task_state option" where
  "state_try_from v =
     (if v = state_code ReadyToRun then Some ReadyToRun
      else if v = state_code Sleeping then Some Sleeping
      else if v = state_code Killed then Some Killed
      else None)"

interpretation state: enum_code state_code state_try_from
proof
  fix v show "state_try_from (state_code v) = Some v"
    by (cases v) (simp_all add: state_try_from_def state_code_def)
qed

datatype task_exit_code = ExitSuccess | ExitFailure u64

definition exit_code_from :: "u64 \<Rightarrow> task_exit_code" where
  "exit_code_from value = (if value = 0 then ExitSuccess else ExitFailure value)"

section \<open>Tasks\<close>

text \<open>`WaitCell` (kernel/src/sync/wait\_cell.rs): a cell and the tasks that wait for it.\<close>
record 'a wait_cell =
  wait_cell_cell :: "'a once_cell"
  waiting_tasks :: "task_id list"

definition wait_cell_new :: "'a wait_cell" where
  "wait_cell_new = \<lparr>wait_cell_cell = cell_new, waiting_tasks = []\<rparr>"

text \<open>Only the stack pointer of a task's registers is ever used by the scheduler.\<close>
record task_registers =
  r15 :: u64
  r14 :: u64
  r13 :: u64
  r12 :: u64
  rbp :: u64
  rbx :: u64
  r11 :: u64
  r10 :: u64
  r9 :: u64
  r8 :: u64
  rax :: u64
  rcx :: u64
  rdx :: u64
  rsi :: u64
  rdi :: u64
  syscall_number_or_irq_or_error_code :: u64
  frame_rip :: u64
  frame_cs :: u64
  frame_rflags :: u64
  frame_rsp :: u64
  frame_ss :: u64

definition default_registers :: task_registers where
  "default_registers =
     \<lparr>r15 = 0, r14 = 0, r13 = 0, r12 = 0, rbp = 0, rbx = 0, r11 = 0, r10 = 0, r9 = 0, r8 = 0,
      rax = 0, rcx = 0, rdx = 0, rsi = 0, rdi = 0, syscall_number_or_irq_or_error_code = 0,
      frame_rip = 0, frame_cs = 0, frame_rflags = 0, frame_rsp = 0, frame_ss = 0\<rparr>"

record task =
  task_id :: task_id
  task_name :: "u8 list"
  registers :: task_registers
  desired_state :: u8
  exit_wait_cell :: "task_exit_code wait_cell"
  task_page_table :: u64
  remaining_slice :: u64
  task_kernel_stack :: kernel_stack

text \<open>What `Task::new` takes from the memory system: a stack and a clone of the kernel's page table.\<close>
type_synonym 'm task_memory = "'m \<Rightarrow> ((kernel_stack \<times> u64) \<times> 'm) outcome"

definition kernel_task_memory :: "x86_64 \<Rightarrow> (bitmap_allocator option \<times> kernel_memory) task_memory" where
  "kernel_task_memory x s =
     and_then (allocate_stack x s) (\<lambda>(stack, (lock, k)).
     and_then (clone_kernel_page_table x k) (\<lambda>(table, k'). Inr ((stack, table), (lock, k'))))"

text \<open>A new stack is zeroed, then it gets the frame of the first switch.\<close>
definition zero_words :: "u64 \<Rightarrow> u64 \<Rightarrow> (u64 \<Rightarrow> u64) \<Rightarrow> u64 \<Rightarrow> u64" where
  "zero_words lo hi ws a = (if lo \<le> a \<and> a < hi then 0 else ws a)"

definition task_new ::
  "x86_64 \<Rightarrow> 'm task_memory \<Rightarrow> u64 \<Rightarrow> task_id \<Rightarrow> u8 list \<Rightarrow> u64 \<Rightarrow> u64 \<Rightarrow>
     (u64 \<Rightarrow> u64) \<times> 'm \<Rightarrow> (task \<times> (u64 \<Rightarrow> u64) \<times> 'm) outcome" where
  "task_new x mem task_setup i name start_fn arg s =
     (let (ws, m) = s in
      and_then (mem m) (\<lambda>((stack, table), m').
      and_then (top_addr x stack) (\<lambda>stack_top.
      and_then (assert_that (stack_top mod 8 = 0)) (\<lambda>_.
      let (ws', sp) = first_frame task_setup start_fn arg stack_top
             (zero_words (stack_start_addr stack + of_nat PAGE_SIZE) stack_top ws) in
      Inr (\<lparr>task_id = i, task_name = name, registers = default_registers\<lparr>frame_rsp := sp\<rparr>,
            desired_state = atomic_new state_code ReadyToRun, exit_wait_cell = wait_cell_new,
            task_page_table = table, remaining_slice = 0, task_kernel_stack = stack\<rparr>, ws', m')))))"

section \<open>The table of tasks\<close>

text \<open>Besides the two fields of `Tasks` the state keeps the tasks that were removed from the table,
  because holders of a reference (`Arc`) can still use them.\<close>
record tasks =
  next_task_id :: task_id
  task_map :: "(task_id, task) mapping"
  removed_tasks :: "(task_id, task) mapping"

definition tasks_new :: tasks where
  "tasks_new = \<lparr>next_task_id = TaskId 1, task_map = Mapping.empty, removed_tasks = Mapping.empty\<rparr>"

text \<open>Adding one to a `u32`, checked.\<close>
definition u32_inc :: "u32 \<Rightarrow> u32 outcome" where
  "u32_inc n = (if unat n + 1 < 2 ^ 32 then Inr (n + 1) else Inl Overflow)"

definition tasks_new_task ::
  "x86_64 \<Rightarrow> 'm task_memory \<Rightarrow> u64 \<Rightarrow> u8 list \<Rightarrow> u64 \<Rightarrow> u64 \<Rightarrow>
     tasks \<times> (u64 \<Rightarrow> u64) \<times> 'm \<Rightarrow> (task_id \<times> tasks \<times> (u64 \<Rightarrow> u64) \<times> 'm) outcome" where
  "tasks_new_task x mem task_setup name start_fn arg s =
     (let (ts, wm) = s; i = next_task_id ts in
      and_then (u32_inc (task_number i)) (\<lambda>next_id.
      and_then (assert_that (Mapping.lookup (task_map ts) i = None)) (\<lambda>_.
      and_then (task_new x mem task_setup i name start_fn arg wm) (\<lambda>(t, wm').
      Inr (i, ts\<lparr>next_task_id := TaskId next_id, task_map := Mapping.update i t (task_map ts)\<rparr>, wm')))))"

definition get_task :: "tasks \<Rightarrow> task_id \<Rightarrow> task option" where
  "get_task ts i = Mapping.lookup (task_map ts) i"

definition get_task_assert :: "tasks \<Rightarrow> task_id \<Rightarrow> task outcome" where
  "get_task_assert ts i = (case get_task ts i of None \<Rightarrow> Inl ExplicitPanic | Some t \<Rightarrow> Inr t)"

definition task_ids :: "tasks \<Rightarrow> task_id list" where
  "task_ids ts = sort (Mapping.ordered_keys (task_map ts))"

definition delete_task :: "task_id \<Rightarrow> tasks \<Rightarrow> tasks outcome" where
  "delete_task i ts =
     (case Mapping.lookup (task_map ts) i of
        None \<Rightarrow> Inl AssertFailed
      | Some t \<Rightarrow> Inr (ts\<lparr>task_map := Mapping.delete i (task_map ts),
          removed_tasks := Mapping.update i t (removed_tasks ts)\<rparr>))"

text \<open>The task a reference points to.\<close>
definition task_object :: "tasks \<Rightarrow> task_id \<Rightarrow> task option" where
  "task_object ts i =
     (case get_task ts i of Some t \<Rightarrow> Some t | None \<Rightarrow> Mapping.lookup (removed_tasks ts) i)"

text \<open>A change of the fields of a task that every holder of a reference sees.\<close>
definition update_task :: "task_id \<Rightarrow> (task \<Rightarrow> task) \<Rightarrow> tasks \<Rightarrow> tasks" where
  "update_task i f ts =
     ts\<lparr>task_map := Mapping.map_entry i f (task_map ts),
        removed_tasks := Mapping.map_entry i f (removed_tasks ts)\<rparr>"

definition load_state :: "task \<Rightarrow> desired_task_state outcome" where
  "load_state t = atomic_load state_try_from (desired_state t)"

definition swap_state :: "desired_task_state \<Rightarrow> task_id \<Rightarrow> tasks \<Rightarrow> (desired_task_state \<times> tasks) outcome" where
  "swap_state st i ts =
     and_then (get_task_assert ts i) (\<lambda>t.
     and_then (atomic_swap state_code state_try_from st (desired_state t)) (\<lambda>(old, v).
     Inr (old, update_task i (\<lambda>t. t\<lparr>desired_state := v\<rparr>) ts)))"

section \<open>Facts about the table\<close>

text \<open>Well-formed tables: every task is stored under its own number, below the next one, and its
  state byte is one of the three that were ever stored.\<close>
definition tasks_inv :: "tasks \<Rightarrow> bool" where
  "tasks_inv ts \<longleftrightarrow>
     (\<forall>i t. get_task ts i = Some t \<longrightarrow> task_id t = i \<and> i < next_task_id ts \<and> state.stored (desired_state t))"

definition state_of :: "tasks \<Rightarrow> task_id \<Rightarrow> desired_task_state option" where
  "state_of ts i = (case get_task ts i of None \<Rightarrow> None | Some t \<Rightarrow> state_try_from (desired_state t))"

lemma tasks_new_inv: "tasks_inv tasks_new"
  by (simp add: tasks_inv_def tasks_new_def get_task_def)

lemma get_task_update [simp]:
  "get_task (update_task i f ts) j = (if j = i then map_option f (get_task ts i) else get_task ts j)"
  "next_task_id (update_task i f ts) = next_task_id ts"
  by (simp_all add: get_task_def update_task_def lookup_map_entry')

lemma get_task_assert_eq [simp]: "get_task ts i = Some t \<Longrightarrow> get_task_assert ts i = Inr t"
  by (simp add: get_task_assert_def)

lemma get_task_assert_Inr: "get_task_assert ts i = Inr t \<longleftrightarrow> get_task ts i = Some t"
  by (simp add: get_task_assert_def split: option.splits)

lemma update_task_inv:
  assumes "tasks_inv ts" "\<And>t. get_task ts i = Some t \<Longrightarrow> task_id (f t) = task_id t \<and> state.stored (desired_state (f t))"
  shows "tasks_inv (update_task i f ts)"
  using assms by (auto simp: tasks_inv_def)

lemma state_of_Some:
  "tasks_inv ts \<Longrightarrow> get_task ts i = Some t \<Longrightarrow>
     \<exists>st. state_of ts i = Some st \<and> desired_state t = state_code st \<and> load_state t = Inr st"
  unfolding tasks_inv_def load_state_def state_of_def
  using state.load_stored[of "desired_state t"] by (auto simp: state.round_trip)

lemma load_state_of: "tasks_inv ts \<Longrightarrow> get_task ts i = Some t \<Longrightarrow> load_state t = Inr (the (state_of ts i))"
  using state_of_Some by fastforce

text \<open>Swapping a state never fails on a task in the table, and returns the state it had.\<close>
lemma swap_state_spec:
  assumes "tasks_inv ts" "get_task ts i = Some t"
  shows "\<exists>ts'. swap_state st i ts = Inr (the (state_of ts i), ts') \<and> tasks_inv ts' \<and>
    ts' = update_task i (\<lambda>t. t\<lparr>desired_state := state_code st\<rparr>) ts"
proof -
  obtain old where old: "state_of ts i = Some old" "desired_state t = state_code old" using state_of_Some[OF assms] by blast
  have "tasks_inv (update_task i (\<lambda>t. t\<lparr>desired_state := state_code st\<rparr>) ts)"
    using assms(1) by (rule update_task_inv) (auto simp: state.stored_def)
  then show ?thesis using assms(2) old by (simp add: swap_state_def state.swap_into)
qed

lemma state_of_update:
  "get_task ts i = Some t \<Longrightarrow> state_of (update_task i (\<lambda>t. t\<lparr>desired_state := state_code st\<rparr>) ts) j =
     (if j = i then Some st else state_of ts j)"
  by (simp add: state_of_def state.round_trip)

lemma delete_task_spec:
  assumes "tasks_inv ts" "get_task ts i = Some t"
  shows "\<exists>ts'. delete_task i ts = Inr ts' \<and> tasks_inv ts' \<and> next_task_id ts' = next_task_id ts \<and>
    (\<forall>j. get_task ts' j = (if j = i then None else get_task ts j))"
proof -
  have "Mapping.lookup (Mapping.delete i (task_map ts)) j = (if j = i then None else Mapping.lookup (task_map ts) j)" for j
    by (simp add: lookup_delete lookup_delete_neq)
  with assms show ?thesis by (auto simp: delete_task_def get_task_def tasks_inv_def)
qed

lemma u32_inc_less: "u32_inc n = Inr m \<Longrightarrow> n < m \<and> m = n + 1"
  by (auto simp: u32_inc_def word_less_nat_alt unat_plus_if_size word_size split: if_splits)

text \<open>A new task has the number that was next, and is ready to run with no time left.\<close>
lemma tasks_new_task_spec:
  assumes "tasks_inv ts" "tasks_new_task x mem setup name f arg (ts, wm) = Inr (i, ts', wm')"
  shows "\<exists>t. i = next_task_id ts \<and> get_task ts i = None \<and> i < next_task_id ts' \<and> tasks_inv ts' \<and>
    (\<forall>j. get_task ts' j = (if j = i then Some t else get_task ts j)) \<and>
    task_id t = i \<and> desired_state t = state_code ReadyToRun \<and> remaining_slice t = 0 \<and>
    exit_wait_cell t = wait_cell_new \<and> (\<exists>a. top_addr x (task_kernel_stack t) = Inr a)"
proof -
  from assms(2) obtain n t where n: "u32_inc (task_number i) = Inr n" and
    run: "Mapping.lookup (task_map ts) i = None" "task_new x mem setup i name f arg wm = Inr (t, wm')"
      "i = next_task_id ts" "ts' = ts\<lparr>next_task_id := TaskId n, task_map := Mapping.update i t (task_map ts)\<rparr>"
    by (auto simp: tasks_new_task_def Let_def run_facts split: prod.splits)
  have t: "task_id t = i" "desired_state t = state_code ReadyToRun" "remaining_slice t = 0"
      "exit_wait_cell t = wait_cell_new" "\<exists>a. top_addr x (task_kernel_stack t) = Inr a"
    using run(2) by (auto simp: task_new_def Let_def run_facts atomic_new_def first_frame_def split: prod.splits)
  have less: "i < next_task_id ts'" using conjunct1[OF u32_inc_less[OF n]] run(4) by (simp add: less_task_id_def)
  have get: "get_task ts' j = (if j = i then Some t else get_task ts j)" for j
    using run(4) by (simp add: get_task_def lookup_update')
  have "tasks_inv ts'"
    unfolding tasks_inv_def get using assms(1) t less run(3)
    by (auto simp: tasks_inv_def state.stored_def intro: less_trans)
  then show ?thesis using run(1,3) t get less by (auto simp: get_task_def)
qed

end
