(* ===== verification/Scheduler.thy ===== *)
theory Scheduler
  imports Tasks
begin

text \<open>
  The scheduler: kernel/src/sched/schedcore.rs, with the preemption counter of
  preempt.rs, the wait cells of kernel/src/sync/wait\_cell.rs and the timers of
  kernel/src/tick.rs that wake tasks. The state is what the processors share (the
  table of tasks, the run queue, the timers, the memory of the kernel stacks) and the
  per-CPU variables and registers of every processor, which a processor number selects.
  An operation is one function of the state: the run queue is locked for the whole of a
  switch, and every other access to shared state is a single atomic access or is made
  under the lock of the structure it touches.
\<close>

section \<open>State\<close>

record cpu =
  CURRENT_TASK_ID :: u32
  IDLE_TASK_ID :: u32
  NEEDS_RESCHEDULE :: u8
  PREEMPT_COUNT :: int
  interrupts_enabled :: bool
  TOP_OF_KERNEL_STACK :: u64
  tss_rsp0 :: u64
  cpu_machine :: machine

text \<open>The closures that are given to timers wake a task (`sleep_timeout`) or print (the shell).\<close>
datatype timer_callback = AwakenTask task_id | PrintMessage

record timer =
  expiration :: u64
  callback :: timer_callback

record 'm sched =
  sched_tasks :: tasks
  pending_tasks :: "task_id list"
  timers :: "timer list"
  cpus :: "nat \<Rightarrow> cpu"
  sched_words :: "u64 \<Rightarrow> u64"
  sched_memory :: 'm

definition update_cpu :: "nat \<Rightarrow> (cpu \<Rightarrow> cpu) \<Rightarrow> 'm sched \<Rightarrow> 'm sched" where
  "update_cpu c f s = s\<lparr>cpus := (cpus s)(c := f (cpus s c))\<rparr>"

definition current_task_id :: "nat \<Rightarrow> 'm sched \<Rightarrow> task_id" where
  "current_task_id c s = TaskId (CURRENT_TASK_ID (cpus s c))"

definition idle_task_id :: "nat \<Rightarrow> 'm sched \<Rightarrow> task_id" where
  "idle_task_id c s = TaskId (IDLE_TASK_ID (cpus s c))"

definition current_task :: "nat \<Rightarrow> 'm sched \<Rightarrow> task outcome" where
  "current_task c s = get_task_assert (sched_tasks s) (current_task_id c s)"

section \<open>The preemption counter\<close>

definition preempt_guard_new :: "nat \<Rightarrow> 'm sched \<Rightarrow> 'm sched" where
  "preempt_guard_new c = update_cpu c (\<lambda>p. p\<lparr>PREEMPT_COUNT := PREEMPT_COUNT p + 1\<rparr>)"

definition preempt_guard_drop :: "nat \<Rightarrow> 'm sched \<Rightarrow> 'm sched" where
  "preempt_guard_drop c = update_cpu c (\<lambda>p. p\<lparr>PREEMPT_COUNT := PREEMPT_COUNT p - 1\<rparr>)"

definition set_preempt_count :: "nat \<Rightarrow> int \<Rightarrow> 'm sched \<Rightarrow> 'm sched" where
  "set_preempt_count c n = update_cpu c (\<lambda>p. p\<lparr>PREEMPT_COUNT := n\<rparr>)"

section \<open>The run queue\<close>

text \<open>The loop of `remove_killed_pending_tasks`.\<close>
fun remove_killed :: "task_id list \<Rightarrow> tasks \<Rightarrow> (task_id list \<times> tasks) outcome" where
  "remove_killed [] ts = Inr ([], ts)"
| "remove_killed (i # is) ts =
     and_then (get_task_assert ts i) (\<lambda>t.
     and_then (load_state t) (\<lambda>st.
     if st = Killed then and_then (delete_task i ts) (remove_killed is)
     else and_then (remove_killed is ts) (\<lambda>(rest, ts'). Inr (i # rest, ts'))))"

definition remove_killed_pending_tasks :: "'m sched \<Rightarrow> 'm sched outcome" where
  "remove_killed_pending_tasks s =
     and_then (remove_killed (pending_tasks s) (sched_tasks s)) (\<lambda>(rest, ts).
     Inr (s\<lparr>pending_tasks := rest, sched_tasks := ts\<rparr>))"

text \<open>The loop of `pop_next_ready_pending_task`, with the tasks that were not ready so far.\<close>
fun pop_ready :: "tasks \<Rightarrow> task_id list \<Rightarrow> task_id list \<Rightarrow> (task_id option \<times> task_id list) outcome" where
  "pop_ready ts [] non_ready = Inr (None, non_ready)"
| "pop_ready ts (i # is) non_ready =
     and_then (get_task_assert ts i) (\<lambda>t.
     and_then (load_state t) (\<lambda>st.
     if st = ReadyToRun then Inr (Some i, is @ non_ready) else pop_ready ts is (non_ready @ [i])))"

definition pop_next_ready_pending_task :: "'m sched \<Rightarrow> (task_id option \<times> 'm sched) outcome" where
  "pop_next_ready_pending_task s =
     and_then (pop_ready (sched_tasks s) (pending_tasks s) []) (\<lambda>(r, pend).
     Inr (r, s\<lparr>pending_tasks := pend\<rparr>))"

section \<open>Creating tasks\<close>

definition sched_new_task ::
  "x86_64 \<Rightarrow> 'm task_memory \<Rightarrow> u64 \<Rightarrow> u8 list \<Rightarrow> u64 \<Rightarrow> u64 \<Rightarrow> 'm sched \<Rightarrow> (task_id \<times> 'm sched) outcome" where
  "sched_new_task x mem task_setup name start_fn arg s =
     and_then (tasks_new_task x mem task_setup name start_fn arg (sched_tasks s, sched_words s, sched_memory s))
       (\<lambda>(i, ts, ws, m). Inr (i, s\<lparr>sched_tasks := ts, sched_words := ws, sched_memory := m\<rparr>))"

definition per_cpu_init ::
  "x86_64 \<Rightarrow> 'm task_memory \<Rightarrow> u64 \<Rightarrow> u8 list \<Rightarrow> u64 \<Rightarrow> nat \<Rightarrow> 'm sched \<Rightarrow> 'm sched outcome" where
  "per_cpu_init x mem task_setup name idle_task_start c s =
     and_then (sched_new_task x mem task_setup name idle_task_start 0 s) (\<lambda>(i, s').
     Inr (update_cpu c (\<lambda>p. p\<lparr>IDLE_TASK_ID := task_number i, CURRENT_TASK_ID := task_number i\<rparr>) s'))"

definition new_task ::
  "x86_64 \<Rightarrow> 'm task_memory \<Rightarrow> u64 \<Rightarrow> u8 list \<Rightarrow> u64 \<Rightarrow> u64 \<Rightarrow> 'm sched \<Rightarrow> (task_id \<times> 'm sched) outcome" where
  "new_task x mem task_setup name start_fn arg s =
     and_then (sched_new_task x mem task_setup name start_fn arg s) (\<lambda>(i, s').
     Inr (i, s'\<lparr>pending_tasks := pending_tasks s' @ [i]\<rparr>))"

section \<open>Running the scheduler\<close>

definition DEFAULT_TIME_SLICE :: u64 where "DEFAULT_TIME_SLICE = 100"

definition check_current_task_needs_preemption :: "nat \<Rightarrow> 'm sched \<Rightarrow> bool outcome" where
  "check_current_task_needs_preemption c s =
     (let preempt_count = PREEMPT_COUNT (cpus s c) in
      and_then (current_task c s) (\<lambda>t.
      and_then (assert_that (0 \<le> preempt_count)) (\<lambda>_.
      if 0 < preempt_count then Inr False
      else
        and_then (load_state t) (\<lambda>st.
        let is_idle = (task_id t = idle_task_id c s);
            is_ready = (st = ReadyToRun);
            is_expired = (remaining_slice t = 0)
        in Inr (\<not> (\<not> is_idle \<and> is_ready \<and> \<not> is_expired))))))"

text \<open>The part of `task_swap_parameters` after the next task has been chosen.\<close>
definition swap_to ::
  "x86_64 \<Rightarrow> nat \<Rightarrow> task_id \<Rightarrow> task_id \<Rightarrow> 'm sched \<Rightarrow> ((task_id \<times> u64 \<times> u64) option \<times> 'm sched) outcome" where
  "swap_to x c prev_id next_id s =
     (let s1 = update_cpu c (\<lambda>p. p\<lparr>CURRENT_TASK_ID := task_number next_id\<rparr>) s;
          s2 = (if prev_id \<noteq> idle_task_id c s then s1\<lparr>pending_tasks := pending_tasks s1 @ [prev_id]\<rparr> else s1)
      in
      and_then (get_task_assert (sched_tasks s2) prev_id) (\<lambda>_.
      and_then (get_task_assert (sched_tasks s2) next_id) (\<lambda>next_task.
      let s3 = s2\<lparr>sched_tasks := update_task next_id (\<lambda>t. t\<lparr>remaining_slice := DEFAULT_TIME_SLICE\<rparr>) (sched_tasks s2)\<rparr>
      in
      if prev_id = next_id then Inr (None, s3)
      else
        and_then (top_addr x (task_kernel_stack next_task)) (\<lambda>stack_top.
        Inr (Some (prev_id, frame_rsp (registers next_task), task_page_table next_task),
             update_cpu c (\<lambda>p. p\<lparr>TOP_OF_KERNEL_STACK := stack_top, tss_rsp0 := stack_top\<rparr>) s3)))))"

definition task_swap_parameters ::
  "x86_64 \<Rightarrow> nat \<Rightarrow> 'm sched \<Rightarrow> ((task_id \<times> u64 \<times> u64) option \<times> 'm sched) outcome" where
  "task_swap_parameters x c s =
     and_then (remove_killed_pending_tasks s) (\<lambda>s1.
     and_then (current_task c s1) (\<lambda>prev_task.
     and_then (load_state prev_task) (\<lambda>prev_state.
     and_then (pop_next_ready_pending_task s1) (\<lambda>(r, s2).
     case r of
       Some i \<Rightarrow> swap_to x c (task_id prev_task) i s2
     | None \<Rightarrow>
         if task_id prev_task = idle_task_id c s2 \<or> prev_state = ReadyToRun then Inr (None, s2)
         else swap_to x c (task_id prev_task) (idle_task_id c s2) s2))))"

text \<open>The switch on one processor: the task it leaves keeps its stack pointer in its registers.\<close>
definition switch_on :: "nat \<Rightarrow> task_id \<Rightarrow> u64 \<Rightarrow> u64 \<Rightarrow> 'm sched \<Rightarrow> 'm sched" where
  "switch_on c prev_id next_rsp next_page_table s =
     (let (m, saved) = switch_to_task next_rsp next_page_table ((cpu_machine (cpus s c))\<lparr>words := sched_words s\<rparr>);
          s1 = update_cpu c (\<lambda>p. p\<lparr>cpu_machine := m\<rparr>) s
      in s1\<lparr>sched_words := words m,
            sched_tasks := update_task prev_id (\<lambda>t. t\<lparr>registers := (registers t)\<lparr>frame_rsp := saved\<rparr>\<rparr>) (sched_tasks s1)\<rparr>)"

text \<open>Whether the processor has switched to another task, and the state when it has.\<close>
definition run_scheduler :: "x86_64 \<Rightarrow> nat \<Rightarrow> 'm sched \<Rightarrow> (bool \<times> 'm sched) outcome" where
  "run_scheduler x c s =
     (let s0 = update_cpu c (\<lambda>p. p\<lparr>NEEDS_RESCHEDULE := 0\<rparr>) s in
      and_then (check_current_task_needs_preemption c s0) (\<lambda>needs.
      if \<not> needs then Inr (False, s0)
      else
        and_then (task_swap_parameters x c s0) (\<lambda>(r, s1).
        case r of
          None \<Rightarrow> Inr (False, s1)
        | Some (prev_id, next_rsp, next_page_table) \<Rightarrow> Inr (True, switch_on c prev_id next_rsp next_page_table s1))))"

definition run_scheduler_if_needed :: "x86_64 \<Rightarrow> nat \<Rightarrow> 'm sched \<Rightarrow> (bool \<times> 'm sched) outcome" where
  "run_scheduler_if_needed x c s =
     (if 0 < NEEDS_RESCHEDULE (cpus s c) then run_scheduler x c s else Inr (False, s))"

definition start_scheduler :: "nat \<Rightarrow> 'm sched \<Rightarrow> 'm sched outcome" where
  "start_scheduler c s =
     and_then (current_task c s) (\<lambda>t.
     let (m, _) = switch_to_task (frame_rsp (registers t)) (task_page_table t)
                    ((cpu_machine (cpus s c))\<lparr>words := sched_words s\<rparr>)
     in Inr ((update_cpu c (\<lambda>p. p\<lparr>cpu_machine := m\<rparr>) s)\<lparr>sched_words := words m\<rparr>))"

section \<open>Time slices, sleeping and waking\<close>

definition saturating_sub :: "u64 \<Rightarrow> u64 \<Rightarrow> u64" where
  "saturating_sub a b = (if b \<le> a then a - b else 0)"

definition scheduler_tick :: "u64 \<Rightarrow> nat \<Rightarrow> 'm sched \<Rightarrow> 'm sched outcome" where
  "scheduler_tick time_between_ticks c s =
     and_then (current_task c s) (\<lambda>t.
     let slice = saturating_sub (remaining_slice t) time_between_ticks;
         s1 = s\<lparr>sched_tasks := update_task (current_task_id c s) (\<lambda>t. t\<lparr>remaining_slice := slice\<rparr>) (sched_tasks s)\<rparr>
     in Inr (if slice = 0 then update_cpu c (\<lambda>p. p\<lparr>NEEDS_RESCHEDULE := 1\<rparr>) s1 else s1))"

definition prepare_to_sleep :: "nat \<Rightarrow> 'm sched \<Rightarrow> (task_id \<times> 'm sched) outcome" where
  "prepare_to_sleep c s =
     (let s1 = update_cpu c (\<lambda>p. p\<lparr>NEEDS_RESCHEDULE := 1\<rparr>) s in
      and_then (current_task c s1) (\<lambda>t.
      and_then (swap_state Sleeping (current_task_id c s1) (sched_tasks s1)) (\<lambda>(_, ts).
      Inr (task_id t, s1\<lparr>sched_tasks := ts\<rparr>))))"

definition awaken_task :: "nat \<Rightarrow> task_id \<Rightarrow> 'm sched \<Rightarrow> 'm sched outcome" where
  "awaken_task c i s =
     and_then (swap_state ReadyToRun i (sched_tasks s)) (\<lambda>(old_state, ts).
     let s1 = s\<lparr>sched_tasks := ts\<rparr> in
     Inr (if old_state \<noteq> ReadyToRun then update_cpu c (\<lambda>p. p\<lparr>NEEDS_RESCHEDULE := 1\<rparr>) s1 else s1))"

text \<open>`WaitCell::send_all_consumers` on the cell of a task: fill the cell, then empty the list of
  waiting tasks while waking them.\<close>
definition send_all_consumers :: "nat \<Rightarrow> task_id \<Rightarrow> task_exit_code \<Rightarrow> 'm sched \<Rightarrow> 'm sched outcome" where
  "send_all_consumers c target code s =
     and_then (get_task_assert (sched_tasks s) target) (\<lambda>t.
     and_then (cell_set code (wait_cell_cell (exit_wait_cell t))) (\<lambda>cell.
     let waiters = waiting_tasks (exit_wait_cell t);
         s1 = s\<lparr>sched_tasks := update_task target
                  (\<lambda>t. t\<lparr>exit_wait_cell := \<lparr>wait_cell_cell = cell, waiting_tasks = []\<rparr>\<rparr>) (sched_tasks s)\<rparr>
     in for_each (awaken_task c) waiters s1))"

definition kill_current_task :: "x86_64 \<Rightarrow> nat \<Rightarrow> task_exit_code \<Rightarrow> 'm sched \<Rightarrow> 'm sched outcome" where
  "kill_current_task x c code s =
     and_then (swap_state Killed (current_task_id c s) (sched_tasks s)) (\<lambda>(_, ts).
     and_then (send_all_consumers c (current_task_id c s) code (s\<lparr>sched_tasks := ts\<rparr>)) (\<lambda>s1.
     and_then (run_scheduler x c s1) (\<lambda>(switched, s2).
     if switched then Inr s2 else Inl ExplicitPanic)))"

text \<open>One turn of the loop of `wait_on_task`: the exit code when the task has finished, else the
  current task is in the list of waiters and the scheduler has run.\<close>
definition wait_on_task_turn ::
  "x86_64 \<Rightarrow> nat \<Rightarrow> task_id \<Rightarrow> 'm sched \<Rightarrow> (task_exit_code option \<times> 'm sched) outcome" where
  "wait_on_task_turn x c target s =
     and_then (prepare_to_sleep c s) (\<lambda>(i, s1).
     let s2 = s1\<lparr>sched_tasks := update_task target (\<lambda>t. t\<lparr>exit_wait_cell := (exit_wait_cell t)
                \<lparr>waiting_tasks := waiting_tasks (exit_wait_cell t) @ [i]\<rparr>\<rparr>) (sched_tasks s1)\<rparr>
     in
     and_then (expect (task_object (sched_tasks s2) target)) (\<lambda>t.
     case get_clone (wait_cell_cell (exit_wait_cell t)) of
       Some code \<Rightarrow> and_then (awaken_task c i s2) (\<lambda>s3. Inr (Some code, s3))
     | None \<Rightarrow> and_then (run_scheduler x c s2) (\<lambda>(_, s3). Inr (None, s3))))"

section \<open>Timers\<close>

definition TICK_HZ :: nat where "TICK_HZ = 20"

definition TICK_MILLIS :: u64 where "TICK_MILLIS = of_nat (1000 div TICK_HZ)"

definition add_timer :: "u64 \<Rightarrow> timer_callback \<Rightarrow> 'm sched \<Rightarrow> 'm sched" where
  "add_timer at f s = s\<lparr>timers := timers s @ [\<lparr>expiration = at, callback = f\<rparr>]\<rparr>"

text \<open>`Milliseconds` are added with the check of `u64`; the clock is a parameter.\<close>
definition add_relative_timer :: "u64 \<Rightarrow> u64 \<Rightarrow> timer_callback \<Rightarrow> 'm sched \<Rightarrow> 'm sched outcome" where
  "add_relative_timer now timeout f s =
     (if unat now + unat timeout < 2 ^ 64 then Inr (add_timer (now + timeout) f s) else Inl Overflow)"

definition run_callback :: "nat \<Rightarrow> timer_callback \<Rightarrow> 'm sched \<Rightarrow> 'm sched outcome" where
  "run_callback c f s = (case f of AwakenTask i \<Rightarrow> awaken_task c i s | PrintMessage \<Rightarrow> Inr s)"

text \<open>The loop of `retain_mut`; the clock is read again for every timer.\<close>
fun fire_timers :: "nat \<Rightarrow> (nat \<Rightarrow> u64) \<Rightarrow> timer list \<Rightarrow> 'm sched \<Rightarrow> (timer list \<times> 'm sched) outcome" where
  "fire_timers c clock [] s = Inr ([], s)"
| "fire_timers c clock (t # ts) s =
     (if expiration t \<le> clock 0
      then and_then (run_callback c (callback t) s) (fire_timers c (\<lambda>k. clock (Suc k)) ts)
      else and_then (fire_timers c (\<lambda>k. clock (Suc k)) ts s) (\<lambda>(rest, s'). Inr (t # rest, s')))"

definition tick_broadcast_handler :: "nat \<Rightarrow> (nat \<Rightarrow> u64) \<Rightarrow> 'm sched \<Rightarrow> 'm sched outcome" where
  "tick_broadcast_handler c clock s =
     and_then (fire_timers c clock (timers s) s) (\<lambda>(rest, s'). Inr (s'\<lparr>timers := rest\<rparr>))"

definition cpu_tick_handler :: "nat \<Rightarrow> 'm sched \<Rightarrow> 'm sched outcome" where
  "cpu_tick_handler c s = scheduler_tick TICK_MILLIS c s"

definition sleep_timeout :: "x86_64 \<Rightarrow> u64 \<Rightarrow> nat \<Rightarrow> u64 \<Rightarrow> 'm sched \<Rightarrow> (bool \<times> 'm sched) outcome" where
  "sleep_timeout x now c timeout s =
     and_then (prepare_to_sleep c s) (\<lambda>(i, s1).
     and_then (add_relative_timer now timeout (AwakenTask i) s1) (\<lambda>s2.
     run_scheduler x c s2))"

text \<open>The exit of every external interrupt: the handler has run, then the scheduler may.\<close>
definition interrupt_exit :: "x86_64 \<Rightarrow> nat \<Rightarrow> 'm sched \<Rightarrow> (bool \<times> 'm sched) outcome" where
  "interrupt_exit x c s = run_scheduler_if_needed x c s"

end
