(* ===== verification/Scheduler_Proofs.thy ===== *)
theory Scheduler_Proofs
  imports Scheduler
begin

text \<open>
  Correctness of the scheduler: the invariant of its state (no task is lost, none is in
  two places), that every operation keeps it and does not panic, and that the run queue
  is a first-in first-out queue of the tasks that are ready.
\<close>

section \<open>The run queue\<close>

definition is_killed :: "tasks \<Rightarrow> task_id \<Rightarrow> bool" where "is_killed ts i \<longleftrightarrow> state_of ts i = Some Killed"
definition is_ready :: "tasks \<Rightarrow> task_id \<Rightarrow> bool" where "is_ready ts i \<longleftrightarrow> state_of ts i = Some ReadyToRun"

lemma state_of_cong: "get_task ts' j = get_task ts j \<Longrightarrow> state_of ts' j = state_of ts j"
  by (simp add: state_of_def)

lemma remove_killed_spec:
  assumes "tasks_inv ts" "distinct is" "\<forall>i\<in>set is. get_task ts i \<noteq> None"
  shows "\<exists>ts'. remove_killed is ts = Inr (filter (\<lambda>i. \<not> is_killed ts i) is, ts') \<and> tasks_inv ts' \<and>
    (\<forall>j. get_task ts' j = (if j \<in> set is \<and> is_killed ts j then None else get_task ts j))"
  using assms
proof (induction "is" arbitrary: ts)
  case (Cons i js)
  obtain t where t: "get_task ts i = Some t" using Cons.prems(3) by auto
  obtain st where st: "state_of ts i = Some st" "load_state t = Inr st" using state_of_Some[OF Cons.prems(1) t] by blast
  show ?case
  proof (cases "st = Killed")
    case True
    from delete_task_spec[OF Cons.prems(1) t] obtain ts1 where d: "delete_task i ts = Inr ts1" "tasks_inv ts1"
      "\<And>j. get_task ts1 j = (if j = i then None else get_task ts j)" by blast
    have same: "is_killed ts1 j = is_killed ts j" if "j \<in> set js" for j
      using that Cons.prems(2) d(3) by (auto simp: is_killed_def state_of_def)
    have all: "\<forall>i\<in>set js. get_task ts1 i \<noteq> None" using Cons.prems(2,3) d(3) by auto
    obtain ts' where ts': "remove_killed js ts1 = Inr (filter (\<lambda>i. \<not> is_killed ts1 i) js, ts')" "tasks_inv ts'"
      "\<And>j. get_task ts' j = (if j \<in> set js \<and> is_killed ts1 j then None else get_task ts1 j)"
      using Cons.IH[OF d(2) _ all] Cons.prems(2) by auto
    have "filter (\<lambda>i. \<not> is_killed ts1 i) js = filter (\<lambda>i. \<not> is_killed ts i) js" using same by (intro filter_cong) auto
    then show ?thesis using ts' d st t True same by (auto simp: is_killed_def)
  next
    case False
    obtain ts' where "remove_killed js ts = Inr (filter (\<lambda>i. \<not> is_killed ts i) js, ts')" "tasks_inv ts'"
      "\<And>j. get_task ts' j = (if j \<in> set js \<and> is_killed ts j then None else get_task ts j)"
      using Cons.IH[OF Cons.prems(1)] Cons.prems(2,3) by auto
    then show ?thesis using st t False by (auto simp: is_killed_def)
  qed
qed auto

lemma pop_ready_spec:
  assumes "tasks_inv ts" "\<forall>i\<in>set is. get_task ts i \<noteq> None"
  shows "pop_ready ts is non =
    Inr (case dropWhile (\<lambda>i. \<not> is_ready ts i) is of
           [] \<Rightarrow> (None, non @ is)
         | i # rest \<Rightarrow> (Some i, rest @ non @ takeWhile (\<lambda>i. \<not> is_ready ts i) is))"
  using assms(2)
proof (induction "is" arbitrary: non)
  case (Cons i js)
  obtain t where t: "get_task ts i = Some t" using Cons.prems by auto
  obtain st where st: "state_of ts i = Some st" "load_state t = Inr st" using state_of_Some[OF assms(1) t] by blast
  have "pop_ready ts js (non @ [i]) =
    Inr (case dropWhile (\<lambda>i. \<not> is_ready ts i) js of
           [] \<Rightarrow> (None, (non @ [i]) @ js)
         | i' # rest \<Rightarrow> (Some i', rest @ (non @ [i]) @ takeWhile (\<lambda>i. \<not> is_ready ts i) js))"
    using Cons.prems by (intro Cons.IH) simp
  moreover have "is_ready ts i \<longleftrightarrow> st = ReadyToRun" using st by (simp add: is_ready_def)
  ultimately show ?case using st t
    by (cases "dropWhile (\<lambda>i. \<not> is_ready ts i) js") (simp_all del: dropWhile_eq_Nil_conv)
qed simp

text \<open>What is popped is the first ready task; the others keep their places among the ready ones.\<close>
lemma pop_ready_queue:
  assumes "tasks_inv ts" "\<forall>i\<in>set is. get_task ts i \<noteq> None" "distinct is"
  shows "\<exists>r pend. pop_ready ts is [] = Inr (r, pend) \<and> distinct pend \<and>
    (case r of
       None \<Rightarrow> filter (is_ready ts) is = [] \<and> pend = is
     | Some i \<Rightarrow> filter (is_ready ts) is = i # filter (is_ready ts) pend \<and> i \<in> set is \<and> set pend = set is - {i} \<and>
         is_ready ts i)"
proof (cases "dropWhile (\<lambda>i. \<not> is_ready ts i) is")
  case Nil
  then have "filter (is_ready ts) is = []" by (simp add: dropWhile_eq_Nil_conv)
  moreover have "pop_ready ts is [] = Inr (None, is)"
    using pop_ready_spec[where non = "[]", OF assms(1,2)] unfolding Nil by simp
  ultimately show ?thesis using assms(3) by simp
next
  case (Cons i rest)
  let ?pre = "takeWhile (\<lambda>i. \<not> is_ready ts i) is"
  have "is": "is = ?pre @ i # rest" using takeWhile_dropWhile_id[of "\<lambda>i. \<not> is_ready ts i" "is"] Cons by simp
  have ready: "is_ready ts i" using Cons by (metis dropWhile_eq_Cons_conv)
  have none: "filter (is_ready ts) ?pre = []" by (auto simp: filter_empty_conv dest: set_takeWhileD)
  have "filter (is_ready ts) is = i # filter (is_ready ts) rest"
    by (subst "is") (simp add: none ready)
  moreover have "distinct (?pre @ i # rest)" using assms(3) "is" by simp
  moreover have "set is = set ?pre \<union> insert i (set rest)" by (subst "is") simp
  ultimately show ?thesis using pop_ready_spec[where non = "[]", OF assms(1,2)] Cons ready none
    by (auto intro!: exI[of _ "rest @ ?pre"])
qed

section \<open>The invariant\<close>

text \<open>With \<open>n\<close> processors started: the table is well-formed and every stack in it has a top; the run
  queue has no task twice and none that is running or an idle task; every processor has a current
  and an idle task, and no two processors share one; every task of the table is pending, running or
  an idle task, so no task is ever lost.\<close>
definition stacks_ok :: "x86_64 \<Rightarrow> tasks \<Rightarrow> bool" where
  "stacks_ok x ts \<longleftrightarrow> (\<forall>i t. get_task ts i = Some t \<longrightarrow> (\<exists>a. top_addr x (task_kernel_stack t) = Inr a))"

definition queue_inv :: "nat \<Rightarrow> 'm sched \<Rightarrow> bool" where
  "queue_inv n s \<longleftrightarrow>
     distinct (pending_tasks s) \<and>
     (\<forall>i\<in>set (pending_tasks s). get_task (sched_tasks s) i \<noteq> None \<and>
        (\<forall>c<n. i \<noteq> current_task_id c s \<and> i \<noteq> idle_task_id c s)) \<and>
     (\<forall>c<n. get_task (sched_tasks s) (current_task_id c s) \<noteq> None \<and>
        get_task (sched_tasks s) (idle_task_id c s) \<noteq> None \<and> 0 \<le> PREEMPT_COUNT (cpus s c)) \<and>
     (\<forall>c<n. \<forall>d<n. c \<noteq> d \<longrightarrow> current_task_id c s \<noteq> current_task_id d s \<and>
        idle_task_id c s \<noteq> idle_task_id d s \<and> current_task_id c s \<noteq> idle_task_id d s) \<and>
     (\<forall>i. get_task (sched_tasks s) i \<noteq> None \<longrightarrow>
        i \<in> set (pending_tasks s) \<or> (\<exists>c<n. i = current_task_id c s \<or> i = idle_task_id c s))"

definition sched_inv :: "x86_64 \<Rightarrow> nat \<Rightarrow> 'm sched \<Rightarrow> bool" where
  "sched_inv x n s \<longleftrightarrow> tasks_inv (sched_tasks s) \<and> stacks_ok x (sched_tasks s) \<and> queue_inv n s"

lemma update_cpu_sel [simp]:
  "sched_tasks (update_cpu c f s) = sched_tasks s" "pending_tasks (update_cpu c f s) = pending_tasks s"
  "timers (update_cpu c f s) = timers s" "sched_words (update_cpu c f s) = sched_words s"
  "sched_memory (update_cpu c f s) = sched_memory s"
  "cpus (update_cpu c f s) d = (if d = c then f (cpus s c) else cpus s d)"
  by (simp_all add: update_cpu_def)

lemma task_ids_sel [simp]:
  "current_task_id d (update_cpu c f s) = (if d = c then TaskId (CURRENT_TASK_ID (f (cpus s c))) else current_task_id d s)"
  "idle_task_id d (update_cpu c f s) = (if d = c then TaskId (IDLE_TASK_ID (f (cpus s c))) else idle_task_id d s)"
  "current_task_id d (s\<lparr>sched_tasks := ts\<rparr>) = current_task_id d s" "idle_task_id d (s\<lparr>sched_tasks := ts\<rparr>) = idle_task_id d s"
  "current_task_id d (s\<lparr>pending_tasks := pend\<rparr>) = current_task_id d s" "idle_task_id d (s\<lparr>pending_tasks := pend\<rparr>) = idle_task_id d s"
  "current_task_id d (s\<lparr>sched_words := ws\<rparr>) = current_task_id d s" "idle_task_id d (s\<lparr>sched_words := ws\<rparr>) = idle_task_id d s"
  "current_task_id d (s\<lparr>sched_memory := mm\<rparr>) = current_task_id d s" "idle_task_id d (s\<lparr>sched_memory := mm\<rparr>) = idle_task_id d s"
  "current_task_id d (s\<lparr>timers := tms\<rparr>) = current_task_id d s" "idle_task_id d (s\<lparr>timers := tms\<rparr>) = idle_task_id d s"
  by (simp_all add: current_task_id_def idle_task_id_def)

lemma task_id_fold [simp]: "TaskId (CURRENT_TASK_ID (cpus s c)) = current_task_id c s"
  "TaskId (IDLE_TASK_ID (cpus s c)) = idle_task_id c s"
  by (simp_all add: current_task_id_def idle_task_id_def)

text \<open>The invariant only looks at the processors' task numbers and preemption counts, the queue, and
  which tasks are in the table.\<close>
lemma queue_inv_cong:
  assumes "queue_inv n s" "pending_tasks s' = pending_tasks s"
    and "\<And>i. get_task (sched_tasks s') i = None \<longleftrightarrow> get_task (sched_tasks s) i = None"
    and "\<And>c. current_task_id c s' = current_task_id c s" "\<And>c. idle_task_id c s' = idle_task_id c s"
    and "\<And>c. 0 \<le> PREEMPT_COUNT (cpus s c) \<Longrightarrow> 0 \<le> PREEMPT_COUNT (cpus s' c)"
  shows "queue_inv n s'"
  using assms(1,6) unfolding queue_inv_def assms(2-5) by blast

text \<open>Changing fields of one task, and per-CPU variables that are not task numbers.\<close>
lemma sched_inv_update_task:
  assumes "sched_inv x n s"
    and "\<And>t. get_task (sched_tasks s) i = Some t \<Longrightarrow> task_id (f t) = task_id t \<and> state.stored (desired_state (f t)) \<and>
      task_kernel_stack (f t) = task_kernel_stack t"
  shows "sched_inv x n (s\<lparr>sched_tasks := update_task i f (sched_tasks s)\<rparr>)"
proof -
  have "tasks_inv (update_task i f (sched_tasks s))"
    using assms by (intro update_task_inv) (simp_all add: sched_inv_def)
  moreover have "stacks_ok x (update_task i f (sched_tasks s))"
    using assms by (auto simp: sched_inv_def stacks_ok_def)
  moreover have "queue_inv n (s\<lparr>sched_tasks := update_task i f (sched_tasks s)\<rparr>)"
    using assms(1) unfolding sched_inv_def by (elim conjE queue_inv_cong) simp_all
  ultimately show ?thesis by (simp add: sched_inv_def)
qed

lemma sched_inv_update_cpu:
  assumes "sched_inv x n s" "\<And>p. CURRENT_TASK_ID (f p) = CURRENT_TASK_ID p" "\<And>p. IDLE_TASK_ID (f p) = IDLE_TASK_ID p"
    and "0 \<le> PREEMPT_COUNT (cpus s c) \<Longrightarrow> 0 \<le> PREEMPT_COUNT (f (cpus s c))"
  shows "sched_inv x n (update_cpu c f s)"
proof -
  have "queue_inv n (update_cpu c f s)"
    using assms(1) unfolding sched_inv_def by (elim conjE queue_inv_cong) (use assms(2-4) in auto)
  then show ?thesis using assms(1) by (simp add: sched_inv_def)
qed

section \<open>Switching keeps the invariant\<close>

lemma queue_inv_facts:
  assumes "queue_inv n s"
  shows "distinct (pending_tasks s)"
    "\<And>j d. j \<in> set (pending_tasks s) \<Longrightarrow> get_task (sched_tasks s) j \<noteq> None"
    "\<And>j d. j \<in> set (pending_tasks s) \<Longrightarrow> d < n \<Longrightarrow> j \<noteq> current_task_id d s \<and> j \<noteq> idle_task_id d s"
    "\<And>d. d < n \<Longrightarrow> get_task (sched_tasks s) (current_task_id d s) \<noteq> None \<and>
        get_task (sched_tasks s) (idle_task_id d s) \<noteq> None \<and> 0 \<le> PREEMPT_COUNT (cpus s d)"
    "\<And>d e. d < n \<Longrightarrow> e < n \<Longrightarrow> d \<noteq> e \<Longrightarrow> current_task_id d s \<noteq> current_task_id e s \<and>
        idle_task_id d s \<noteq> idle_task_id e s \<and> current_task_id d s \<noteq> idle_task_id e s"
    "\<And>j. get_task (sched_tasks s) j \<noteq> None \<Longrightarrow>
        j \<in> set (pending_tasks s) \<or> (\<exists>c<n. j = current_task_id c s \<or> j = idle_task_id c s)"
  using assms unfolding queue_inv_def by blast+

lemma queue_invI:
  assumes "distinct (pending_tasks s)"
    "\<And>j. j \<in> set (pending_tasks s) \<Longrightarrow> get_task (sched_tasks s) j \<noteq> None"
    "\<And>j d. j \<in> set (pending_tasks s) \<Longrightarrow> d < n \<Longrightarrow> j \<noteq> current_task_id d s \<and> j \<noteq> idle_task_id d s"
    "\<And>d. d < n \<Longrightarrow> get_task (sched_tasks s) (current_task_id d s) \<noteq> None \<and>
        get_task (sched_tasks s) (idle_task_id d s) \<noteq> None \<and> 0 \<le> PREEMPT_COUNT (cpus s d)"
    "\<And>d e. d < n \<Longrightarrow> e < n \<Longrightarrow> d \<noteq> e \<Longrightarrow> current_task_id d s \<noteq> current_task_id e s \<and>
        idle_task_id d s \<noteq> idle_task_id e s \<and> current_task_id d s \<noteq> idle_task_id e s"
    "\<And>j. get_task (sched_tasks s) j \<noteq> None \<Longrightarrow>
        j \<in> set (pending_tasks s) \<or> (\<exists>c<n. j = current_task_id c s \<or> j = idle_task_id c s)"
  shows "queue_inv n s"
  using assms unfolding queue_inv_def by blast

lemma queue_invD:
  assumes "queue_inv n s" "c < n"
  shows "get_task (sched_tasks s) (current_task_id c s) \<noteq> None" "get_task (sched_tasks s) (idle_task_id c s) \<noteq> None"
    "0 \<le> PREEMPT_COUNT (cpus s c)" "current_task_id c s \<notin> set (pending_tasks s)" "idle_task_id c s \<notin> set (pending_tasks s)"
  using assms unfolding queue_inv_def by blast+

text \<open>The processor takes the task from the queue or its idle task, and puts back the one it ran.\<close>
lemma queue_inv_swap:
  assumes "queue_inv n s" "c < n" "i = idle_task_id c s \<or> i \<in> set (pending_tasks s)" "i \<noteq> current_task_id c s"
    and "distinct (pending_tasks s')"
    and "set (pending_tasks s') = set (pending_tasks s) - {i} \<union>
      (if current_task_id c s = idle_task_id c s then {} else {current_task_id c s})"
    and "\<And>j. get_task (sched_tasks s') j = None \<longleftrightarrow> get_task (sched_tasks s) j = None"
    and "\<And>d. current_task_id d s' = (if d = c then i else current_task_id d s)" "\<And>d. idle_task_id d s' = idle_task_id d s"
    and "\<And>d. 0 \<le> PREEMPT_COUNT (cpus s d) \<Longrightarrow> 0 \<le> PREEMPT_COUNT (cpus s' d)"
  shows "queue_inv n s'"
proof -
  note q = queue_inv_facts[OF assms(1)]
  have i: "get_task (sched_tasks s) i \<noteq> None" using assms(3) q(2,4) assms(2) by blast
  have i_other: "i \<noteq> current_task_id d s \<and> i \<noteq> idle_task_id d s" if "d < n" "d \<noteq> c" for d
    using assms(2,3) q(3,5) that by metis
  have pend: "j \<in> set (pending_tasks s') \<longleftrightarrow>
      j \<in> set (pending_tasks s) \<and> j \<noteq> i \<or> j = current_task_id c s \<and> j \<noteq> idle_task_id c s" for j
    unfolding assms(6) by auto
  have A: "get_task (sched_tasks s') j \<noteq> None \<and> (\<forall>d<n. j \<noteq> current_task_id d s' \<and> j \<noteq> idle_task_id d s')"
    if "j \<in> set (pending_tasks s')" for j
    using that q(2-5) assms(2,4) unfolding pend assms(7-9) by metis
  have B: "get_task (sched_tasks s') (current_task_id d s') \<noteq> None \<and>
      get_task (sched_tasks s') (idle_task_id d s') \<noteq> None \<and> 0 \<le> PREEMPT_COUNT (cpus s' d)" if "d < n" for d
    using that q(4) assms(10) i unfolding assms(7-9) by simp
  have C: "current_task_id d s' \<noteq> current_task_id e s' \<and> idle_task_id d s' \<noteq> idle_task_id e s' \<and>
      current_task_id d s' \<noteq> idle_task_id e s'" if "d < n" "e < n" "d \<noteq> e" for d e
    using that q(5) i_other unfolding assms(8,9) by metis
  have D: "j \<in> set (pending_tasks s') \<or> (\<exists>d<n. j = current_task_id d s' \<or> j = idle_task_id d s')"
    if "get_task (sched_tasks s') j \<noteq> None" for j
    using that q(6)[of j] assms(2) unfolding pend assms(7-9) by metis
  show ?thesis by (rule queue_invI) (use assms(5) A B C D in blast)+
qed

lemma swap_to_spec:
  assumes "stacks_ok x (sched_tasks s)" "get_task (sched_tasks s) p \<noteq> None" "get_task (sched_tasks s) i = Some t"
    and "p \<noteq> i"
  shows "\<exists>s'. swap_to x c p i s = Inr (Some (p, frame_rsp (registers t), task_page_table t), s') \<and>
    sched_tasks s' = update_task i (\<lambda>t. t\<lparr>remaining_slice := DEFAULT_TIME_SLICE\<rparr>) (sched_tasks s) \<and>
    pending_tasks s' = pending_tasks s @ (if p = idle_task_id c s then [] else [p]) \<and>
    (\<forall>d. current_task_id d s' = (if d = c then i else current_task_id d s) \<and> idle_task_id d s' = idle_task_id d s \<and>
       PREEMPT_COUNT (cpus s' d) = PREEMPT_COUNT (cpus s d))"
proof -
  obtain a where "top_addr x (task_kernel_stack t) = Inr a" using assms(1,3) by (auto simp: stacks_ok_def)
  moreover obtain q where "get_task (sched_tasks s) p = Some q" using assms(2) by auto
  ultimately show ?thesis using assms(3,4)
    by (cases "p = idle_task_id c s") (auto simp: swap_to_def Let_def get_task_assert_def)
qed

text \<open>The tasks that are ready, in the order of the run queue.\<close>
definition ready_queue :: "'m sched \<Rightarrow> task_id list" where
  "ready_queue s = filter (is_ready (sched_tasks s)) (pending_tasks s)"

text \<open>The current task goes on: preemption is disabled, or it is ready and has time left.\<close>
definition keeps_running :: "nat \<Rightarrow> 'm sched \<Rightarrow> bool" where
  "keeps_running c s \<longleftrightarrow> 0 < PREEMPT_COUNT (cpus s c) \<or>
     (current_task_id c s \<noteq> idle_task_id c s \<and> is_ready (sched_tasks s) (current_task_id c s) \<and>
      remaining_slice (the (get_task (sched_tasks s) (current_task_id c s))) \<noteq> 0)"

lemma check_spec:
  assumes "sched_inv x n s" "c < n"
  shows "check_current_task_needs_preemption c s = Inr (\<not> keeps_running c s)"
proof -
  have q: "queue_inv n s" "tasks_inv (sched_tasks s)" using assms(1) by (simp_all add: sched_inv_def)
  obtain t where t: "get_task (sched_tasks s) (current_task_id c s) = Some t" using queue_invD(1)[OF q(1) assms(2)] by auto
  obtain st where "state_of (sched_tasks s) (current_task_id c s) = Some st" "load_state t = Inr st"
    using state_of_Some[OF q(2) t] by blast
  moreover have "task_id t = current_task_id c s" using q(2) t by (simp add: tasks_inv_def)
  ultimately show ?thesis using t queue_invD(3)[OF q(1) assms(2)]
    by (auto simp: check_current_task_needs_preemption_def keeps_running_def current_task_def Let_def is_ready_def)
qed

lemma state_of_field [simp]:
  "state_of (update_task i (\<lambda>t. t\<lparr>remaining_slice := v\<rparr>) ts) j = state_of ts j"
  "state_of (update_task i (\<lambda>t. t\<lparr>registers := r t\<rparr>) ts) j = state_of ts j"
  by (auto simp: state_of_def split: option.splits)

lemma is_ready_slice [simp]:
  "is_ready (update_task i (\<lambda>t. t\<lparr>remaining_slice := v\<rparr>) ts) = is_ready ts"
  "is_ready (update_task i (\<lambda>t. t\<lparr>registers := r t\<rparr>) ts) = is_ready ts"
  by (auto simp: fun_eq_iff is_ready_def state_of_def split: option.splits)

text \<open>After the killed tasks are gone.\<close>
lemma remove_killed_pending_spec:
  assumes "sched_inv x n s"
  shows "\<exists>s1. remove_killed_pending_tasks s = Inr s1 \<and> tasks_inv (sched_tasks s1) \<and> stacks_ok x (sched_tasks s1) \<and>
    queue_inv n s1 \<and> ready_queue s1 = ready_queue s \<and> cpus s1 = cpus s \<and>
    (\<forall>j. get_task (sched_tasks s1) j =
       (if j \<in> set (pending_tasks s) \<and> is_killed (sched_tasks s) j then None else get_task (sched_tasks s) j))"
proof -
  let ?ts = "sched_tasks s" and ?p = "pending_tasks s"
  have q: "queue_inv n s" "tasks_inv ?ts" "stacks_ok x ?ts" using assms by (simp_all add: sched_inv_def)
  have p: "distinct ?p" "\<forall>i\<in>set ?p. get_task ?ts i \<noteq> None" using q(1) by (simp_all add: queue_inv_def)
  from remove_killed_spec[OF q(2) p] obtain ts' where r: "remove_killed ?p ?ts = Inr (filter (\<lambda>i. \<not> is_killed ?ts i) ?p, ts')"
    "tasks_inv ts'" "\<forall>j. get_task ts' j = (if j \<in> set ?p \<and> is_killed ?ts j then None else get_task ?ts j)" by blast
  let ?s1 = "s\<lparr>pending_tasks := filter (\<lambda>i. \<not> is_killed ?ts i) ?p, sched_tasks := ts'\<rparr>"
  have ids: "current_task_id c ?s1 = current_task_id c s" "idle_task_id c ?s1 = idle_task_id c s" for c by simp_all
  note f = queue_inv_facts[OF q(1)]
  have get: "get_task ts' j = (if j \<in> set ?p \<and> is_killed ?ts j then None else get_task ?ts j)" for j using r(3) by blast
  have keep: "get_task ts' (current_task_id d s) = get_task ?ts (current_task_id d s)"
      "get_task ts' (idle_task_id d s) = get_task ?ts (idle_task_id d s)" if "d < n" for d
    using f(3)[OF _ that] unfolding get by auto
  have pend: "\<And>j. j \<in> set (filter (\<lambda>i. \<not> is_killed ?ts i) ?p) \<longleftrightarrow> j \<in> set ?p \<and> \<not> is_killed ?ts j" by auto
  have sel: "pending_tasks ?s1 = filter (\<lambda>i. \<not> is_killed ?ts i) ?p" "sched_tasks ?s1 = ts'" "cpus ?s1 = cpus s" by simp_all
  have "queue_inv n ?s1"
  proof (rule queue_invI, unfold ids sel pend)
    show "distinct (filter (\<lambda>i. \<not> is_killed ?ts i) ?p)" using p(1) by simp
    show "get_task ts' j \<noteq> None" if "j \<in> set ?p \<and> \<not> is_killed ?ts j" for j using that f(2) by (simp add: get)
    show "j \<noteq> current_task_id d s \<and> j \<noteq> idle_task_id d s" if "j \<in> set ?p \<and> \<not> is_killed ?ts j" "d < n" for j d
      using f(3) that by blast
    show "get_task ts' (current_task_id d s) \<noteq> None \<and> get_task ts' (idle_task_id d s) \<noteq> None \<and> 0 \<le> PREEMPT_COUNT (cpus s d)"
      if "d < n" for d using f(4)[OF that] keep[OF that] by simp
    show "current_task_id d s \<noteq> current_task_id e s \<and> idle_task_id d s \<noteq> idle_task_id e s \<and> current_task_id d s \<noteq> idle_task_id e s"
      if "d < n" "e < n" "d \<noteq> e" for d e by (rule f(5)[OF that])
    show "(j \<in> set ?p \<and> \<not> is_killed ?ts j) \<or> (\<exists>c<n. j = current_task_id c s \<or> j = idle_task_id c s)"
      if "get_task ts' j \<noteq> None" for j using that f(6)[of j] unfolding get by (auto split: if_splits)
  qed
  moreover have "is_ready ts' j = is_ready ?ts j" if "\<not> is_killed ?ts j" for j
    using r(3) that by (simp add: is_ready_def is_killed_def state_of_def)
  then have "is_ready ts' j \<and> \<not> is_killed ?ts j \<longleftrightarrow> is_ready ?ts j" for j by (auto simp: is_killed_def is_ready_def)
  then have "ready_queue ?s1 = ready_queue s" unfolding ready_queue_def sel by (simp add: conj_commute)
  moreover have "stacks_ok x ts'" using q(3) r(3) by (auto simp: stacks_ok_def split: if_splits)
  ultimately show ?thesis using r sel by (intro exI[of _ ?s1]) (simp add: remove_killed_pending_tasks_def)
qed

section \<open>What the scheduler does\<close>

text \<open>The task the processor turns to when it does not keep its current one.\<close>
definition next_choice :: "nat \<Rightarrow> 'm sched \<Rightarrow> task_id option" where
  "next_choice c s =
     (case ready_queue s of
        i # _ \<Rightarrow> Some i
      | [] \<Rightarrow> if current_task_id c s = idle_task_id c s \<or> is_ready (sched_tasks s) (current_task_id c s) then None
              else Some (idle_task_id c s))"

text \<open>The ready queue after the processor has turned to another task.\<close>
definition requeued :: "nat \<Rightarrow> 'm sched \<Rightarrow> task_id list" where
  "requeued c s =
     (if current_task_id c s \<noteq> idle_task_id c s \<and> is_ready (sched_tasks s) (current_task_id c s)
      then [current_task_id c s] else [])"

definition swapped :: "x86_64 \<Rightarrow> nat \<Rightarrow> nat \<Rightarrow> 'm sched \<Rightarrow> task_id option \<Rightarrow> 'm sched \<Rightarrow> bool" where
  "swapped x n c s choice s' \<longleftrightarrow>
     sched_inv x n s' \<and>
     (\<forall>d. current_task_id d s' = (if d = c \<and> choice \<noteq> None then the choice else current_task_id d s) \<and>
        idle_task_id d s' = idle_task_id d s \<and> PREEMPT_COUNT (cpus s' d) = PREEMPT_COUNT (cpus s d)) \<and>
     ready_queue s' = (if choice = None then ready_queue s else tl (ready_queue s) @ requeued c s) \<and>
     (\<forall>i. get_task (sched_tasks s') i = None \<longleftrightarrow>
        get_task (sched_tasks s) i = None \<or> (i \<in> set (pending_tasks s) \<and> is_killed (sched_tasks s) i)) \<and>
     (\<forall>i. get_task (sched_tasks s') i \<noteq> None \<longrightarrow> state_of (sched_tasks s') i = state_of (sched_tasks s) i) \<and>
     (choice \<noteq> None \<longrightarrow> remaining_slice (the (get_task (sched_tasks s') (the choice))) = DEFAULT_TIME_SLICE)"

lemma pop_next_spec:
  assumes "tasks_inv (sched_tasks s)" "queue_inv n s"
  shows "\<exists>r pend. pop_next_ready_pending_task s = Inr (r, s\<lparr>pending_tasks := pend\<rparr>) \<and> distinct pend \<and>
    (case r of
       None \<Rightarrow> ready_queue s = [] \<and> pend = pending_tasks s
     | Some i \<Rightarrow> ready_queue s = i # filter (is_ready (sched_tasks s)) pend \<and> i \<in> set (pending_tasks s) \<and>
         set pend = set (pending_tasks s) - {i})"
proof -
  have "\<forall>i\<in>set (pending_tasks s). get_task (sched_tasks s) i \<noteq> None" "distinct (pending_tasks s)"
    using queue_inv_facts(1,2)[OF assms(2)] by blast+
  from pop_ready_queue[OF assms(1) this] obtain r pend where
    "pop_ready (sched_tasks s) (pending_tasks s) [] = Inr (r, pend)" "distinct pend"
    "case r of None \<Rightarrow> filter (is_ready (sched_tasks s)) (pending_tasks s) = [] \<and> pend = pending_tasks s
     | Some i \<Rightarrow> filter (is_ready (sched_tasks s)) (pending_tasks s) = i # filter (is_ready (sched_tasks s)) pend \<and>
         i \<in> set (pending_tasks s) \<and> set pend = set (pending_tasks s) - {i} \<and> is_ready (sched_tasks s) i" by blast
  then show ?thesis unfolding ready_queue_def pop_next_ready_pending_task_def
    by (intro exI[of _ r] exI[of _ pend]) (cases r; simp)
qed

text \<open>Turning to a chosen task, from the state after the queue was popped.\<close>
lemma swap_to_swapped:
  assumes inv: "sched_inv x n s" and c: "c < n"
    and i: "i = idle_task_id c s \<or> i \<in> set (pending_tasks s)" "i \<noteq> current_task_id c s"
    and pend: "distinct pend" "set pend = set (pending_tasks s) - {i}"
      "filter (is_ready (sched_tasks s)) pend = tl (ready_queue s)"
  shows "\<exists>sp pt s'. swap_to x c (current_task_id c s) i (s\<lparr>pending_tasks := pend\<rparr>) =
      Inr (Some (current_task_id c s, sp, pt), s') \<and> sched_inv x n s' \<and>
    (\<forall>d. current_task_id d s' = (if d = c then i else current_task_id d s) \<and>
        idle_task_id d s' = idle_task_id d s \<and> PREEMPT_COUNT (cpus s' d) = PREEMPT_COUNT (cpus s d)) \<and>
    ready_queue s' = tl (ready_queue s) @ requeued c s \<and>
    (\<forall>j. get_task (sched_tasks s') j = None \<longleftrightarrow> get_task (sched_tasks s) j = None) \<and>
    (\<forall>j. state_of (sched_tasks s') j = state_of (sched_tasks s) j) \<and>
    remaining_slice (the (get_task (sched_tasks s') i)) = DEFAULT_TIME_SLICE"
proof -
  let ?p = "current_task_id c s" and ?ts = "sched_tasks s"
  have q: "queue_inv n s" "stacks_ok x ?ts" using inv by (simp_all add: sched_inv_def)
  note f = queue_inv_facts[OF q(1)]
  have pt: "get_task ?ts ?p \<noteq> None" using f(4)[OF c] by simp
  have "get_task ?ts i \<noteq> None" using i(1) f(2) f(4)[OF c] by blast
  then obtain t where t: "get_task ?ts i = Some t" by blast
  from swap_to_spec[of x "s\<lparr>pending_tasks := pend\<rparr>" ?p i t c] q(2) pt t i(2) obtain s' where
    run: "swap_to x c ?p i (s\<lparr>pending_tasks := pend\<rparr>) = Inr (Some (?p, frame_rsp (registers t), task_page_table t), s')"
    and ts: "sched_tasks s' = update_task i (\<lambda>t. t\<lparr>remaining_slice := DEFAULT_TIME_SLICE\<rparr>) ?ts"
    and pd: "pending_tasks s' = pend @ (if ?p = idle_task_id c s then [] else [?p])"
    and ids: "\<And>d. current_task_id d s' = (if d = c then i else current_task_id d s)"
      "\<And>d. idle_task_id d s' = idle_task_id d s" "\<And>d. PREEMPT_COUNT (cpus s' d) = PREEMPT_COUNT (cpus s d)" by auto
  have dom: "get_task (sched_tasks s') j = None \<longleftrightarrow> get_task ?ts j = None" for j unfolding ts by simp
  have pn: "?p \<notin> set pend" using queue_invD(4)[OF q(1) c] pend(2) by blast
  have "queue_inv n s'"
    by (rule queue_inv_swap[OF q(1) c i _ _ dom ids(1,2)]) (use pd pend pn ids(3) in auto)
  moreover have "sched_inv x n (s\<lparr>sched_tasks := sched_tasks s'\<rparr>)"
    unfolding ts by (rule sched_inv_update_task[OF inv]) (use inv in \<open>auto simp: sched_inv_def tasks_inv_def\<close>)
  ultimately have "sched_inv x n s'" by (simp add: sched_inv_def)
  moreover have "ready_queue s' = tl (ready_queue s) @ requeued c s"
    unfolding ready_queue_def[of s'] ts pd is_ready_slice filter_append pend(3) by (simp add: requeued_def)
  moreover have "remaining_slice (the (get_task (sched_tasks s') i)) = DEFAULT_TIME_SLICE" unfolding ts using t by simp
  moreover have "state_of (sched_tasks s') j = state_of ?ts j" for j unfolding ts by simp
  ultimately show ?thesis using run ids dom by blast
qed

lemma task_swap_spec:
  assumes inv: "sched_inv x n s" and c: "c < n"
  shows "\<exists>r s'. task_swap_parameters x c s = Inr (r, s') \<and> swapped x n c s (next_choice c s) s' \<and>
    (case r of None \<Rightarrow> next_choice c s = None
     | Some (p, sp, pt) \<Rightarrow> next_choice c s \<noteq> None \<and> p = current_task_id c s)"
proof -
  let ?p = "current_task_id c s"
  from remove_killed_pending_spec[OF inv] obtain s1 where rm: "remove_killed_pending_tasks s = Inr s1"
    and q1: "tasks_inv (sched_tasks s1)" "stacks_ok x (sched_tasks s1)" "queue_inv n s1"
    and rq: "ready_queue s1 = ready_queue s" and cp: "cpus s1 = cpus s"
    and get: "\<And>j. get_task (sched_tasks s1) j =
       (if j \<in> set (pending_tasks s) \<and> is_killed (sched_tasks s) j then None else get_task (sched_tasks s) j)" by blast
  have inv1: "sched_inv x n s1" using q1 by (simp add: sched_inv_def)
  have ids: "current_task_id d s1 = current_task_id d s" "idle_task_id d s1 = idle_task_id d s" for d
    unfolding current_task_id_def idle_task_id_def cp by (rule refl)+
  have q: "queue_inv n s" using inv by (simp add: sched_inv_def)
  have pst: "state_of (sched_tasks s1) ?p = state_of (sched_tasks s) ?p"
    using queue_invD(4)[OF q c] by (intro state_of_cong) (simp add: get)
  then have ready_p: "is_ready (sched_tasks s1) ?p = is_ready (sched_tasks s) ?p" by (simp add: is_ready_def)
  obtain t where t: "get_task (sched_tasks s1) ?p = Some t" using queue_invD(1)[OF q1(3) c] ids by auto
  obtain st where st: "state_of (sched_tasks s1) ?p = Some st" "load_state t = Inr st" using state_of_Some[OF q1(1) t] by blast
  have tid: "task_id t = ?p" using q1(1) t by (simp add: tasks_inv_def)
  have st_ready: "st = ReadyToRun \<longleftrightarrow> is_ready (sched_tasks s) ?p" using st(1) ready_p by (simp add: is_ready_def)
  obtain r pend where pop: "pop_next_ready_pending_task s1 = Inr (r, s1\<lparr>pending_tasks := pend\<rparr>)" "distinct pend"
    and pr: "case r of None \<Rightarrow> ready_queue s1 = [] \<and> pend = pending_tasks s1
      | Some i \<Rightarrow> ready_queue s1 = i # filter (is_ready (sched_tasks s1)) pend \<and> i \<in> set (pending_tasks s1) \<and>
          set pend = set (pending_tasks s1) - {i}" using pop_next_spec[OF q1(1,3)] by blast
  have run: "task_swap_parameters x c s =
      (case r of Some i \<Rightarrow> swap_to x c ?p i (s1\<lparr>pending_tasks := pend\<rparr>)
       | None \<Rightarrow> if ?p = idle_task_id c s \<or> is_ready (sched_tasks s) ?p then Inr (None, s1\<lparr>pending_tasks := pend\<rparr>)
           else swap_to x c ?p (idle_task_id c s) (s1\<lparr>pending_tasks := pend\<rparr>))"
    using rm t st(2) pop(1) tid st_ready ids by (simp add: task_swap_parameters_def current_task_def split: option.splits)
  have rqd: "requeued c s1 = requeued c s" by (simp add: requeued_def ids ready_p)
  have dom: "get_task (sched_tasks s1) i = None \<longleftrightarrow>
      get_task (sched_tasks s) i = None \<or> (i \<in> set (pending_tasks s) \<and> is_killed (sched_tasks s) i)" for i
    by (auto simp: get)
  have st1: "state_of (sched_tasks s1) i = state_of (sched_tasks s) i" if "get_task (sched_tasks s1) i \<noteq> None" for i
    using that by (intro state_of_cong) (auto simp: get)
  have go: "\<exists>sp pt s'. swap_to x c ?p i (s1\<lparr>pending_tasks := pend\<rparr>) = Inr (Some (?p, sp, pt), s') \<and> swapped x n c s (Some i) s'"
    if "i = idle_task_id c s \<or> i \<in> set (pending_tasks s1)" "i \<noteq> ?p" "set pend = set (pending_tasks s1) - {i}"
      "filter (is_ready (sched_tasks s1)) pend = tl (ready_queue s)" for i
  proof -
    from swap_to_swapped[OF inv1 c, of i pend] that pop(2) obtain sp pt s' where
      "swap_to x c ?p i (s1\<lparr>pending_tasks := pend\<rparr>) = Inr (Some (?p, sp, pt), s')" "sched_inv x n s'"
      "\<forall>d. current_task_id d s' = (if d = c then i else current_task_id d s) \<and>
        idle_task_id d s' = idle_task_id d s \<and> PREEMPT_COUNT (cpus s' d) = PREEMPT_COUNT (cpus s d)"
      "ready_queue s' = tl (ready_queue s) @ requeued c s"
      "\<forall>j. get_task (sched_tasks s') j = None \<longleftrightarrow> get_task (sched_tasks s1) j = None"
      "\<forall>j. state_of (sched_tasks s') j = state_of (sched_tasks s1) j"
      "remaining_slice (the (get_task (sched_tasks s') i)) = DEFAULT_TIME_SLICE"
      unfolding ids rq rqd cp by blast
    then show ?thesis using dom st1 by (intro exI[of _ sp] exI[of _ pt] exI[of _ s']) (simp add: swapped_def)
  qed
  show ?thesis
  proof (cases r)
    case (Some i)
    with pr have i: "ready_queue s = i # filter (is_ready (sched_tasks s1)) pend" "i \<in> set (pending_tasks s1)"
      "set pend = set (pending_tasks s1) - {i}" by (simp_all add: rq)
    have "i \<noteq> ?p" using i(2) queue_invD(4)[OF q1(3) c] ids by metis
    moreover have "next_choice c s = Some i" by (simp add: next_choice_def i(1))
    ultimately show ?thesis using go[of i] i run Some by force
  next
    case None
    with pr have n: "ready_queue s = []" "pend = pending_tasks s1" by (simp_all add: rq)
    show ?thesis
    proof (cases "?p = idle_task_id c s \<or> is_ready (sched_tasks s) ?p")
      case True
      then have ch: "next_choice c s = None" by (simp add: next_choice_def n(1))
      have "swapped x n c s None (s1\<lparr>pending_tasks := pend\<rparr>)" using inv1 ids rq cp dom n(2) st1 by (simp add: swapped_def)
      then show ?thesis using run None True ch by auto
    next
      case False
      then have ch: "next_choice c s = Some (idle_task_id c s)" by (simp add: next_choice_def n(1))
      have "filter (is_ready (sched_tasks s1)) pend = tl (ready_queue s)" using n rq by (simp add: ready_queue_def)
      moreover have "set pend = set (pending_tasks s1) - {idle_task_id c s}"
        using n(2) queue_invD(5)[OF q1(3) c] ids by auto
      ultimately show ?thesis using go[of "idle_task_id c s"] False run None ch by force
    qed
  qed
qed

lemma switch_on_sel:
  "sched_tasks (switch_on c p sp pt s) =
     update_task p (\<lambda>t. t\<lparr>registers := (registers t)\<lparr>frame_rsp :=
       snd (switch_to_task sp pt ((cpu_machine (cpus s c))\<lparr>words := sched_words s\<rparr>))\<rparr>\<rparr>) (sched_tasks s)"
  "pending_tasks (switch_on c p sp pt s) = pending_tasks s" "timers (switch_on c p sp pt s) = timers s"
  "current_task_id d (switch_on c p sp pt s) = current_task_id d s" "idle_task_id d (switch_on c p sp pt s) = idle_task_id d s"
  "PREEMPT_COUNT (cpus (switch_on c p sp pt s) d) = PREEMPT_COUNT (cpus s d)"
  by (simp_all add: switch_on_def Let_def split: prod.splits)

lemma swapped_switch_on:
  assumes "swapped x n c s ch s1" "c < n"
  shows "swapped x n c s ch (switch_on c p sp pt s1)"
proof -
  have inv1: "sched_inv x n s1" using assms by (simp add: swapped_def)
  have stored: "state.stored (desired_state t)" if "get_task (sched_tasks s1) i = Some t" for i t
    using inv1 that by (simp add: sched_inv_def tasks_inv_def)
  have "sched_inv x n (s1\<lparr>sched_tasks := sched_tasks (switch_on c p sp pt s1)\<rparr>)"
    unfolding switch_on_sel by (rule sched_inv_update_task[OF inv1]) (use stored in auto)
  moreover have "queue_inv n (switch_on c p sp pt s1)"
    using inv1 unfolding sched_inv_def by (elim conjE queue_inv_cong) (simp_all add: switch_on_sel)
  ultimately have "sched_inv x n (switch_on c p sp pt s1)" by (simp add: sched_inv_def)
  moreover have "ready_queue (switch_on c p sp pt s1) = ready_queue s1" by (simp add: ready_queue_def switch_on_sel)
  moreover have "remaining_slice (the (get_task (sched_tasks (switch_on c p sp pt s1)) (the ch))) = DEFAULT_TIME_SLICE"
    if "ch \<noteq> None"
  proof -
    have "get_task (sched_tasks s1) (the ch) \<noteq> None"
      using that assms queue_invD(1)[of n s1 c] by (auto simp: swapped_def sched_inv_def)
    moreover have "remaining_slice (the (get_task (sched_tasks s1) (the ch))) = DEFAULT_TIME_SLICE"
      using that assms(1) by (simp add: swapped_def)
    ultimately show ?thesis by (auto simp: switch_on_sel)
  qed
  moreover have "get_task (sched_tasks (switch_on c p sp pt s1)) i = None \<longleftrightarrow> get_task (sched_tasks s1) i = None"
      "state_of (sched_tasks (switch_on c p sp pt s1)) i = state_of (sched_tasks s1) i" for i
    by (simp_all add: switch_on_sel)
  ultimately show ?thesis using assms(1) unfolding swapped_def switch_on_sel(4-6) by (simp del: not_None_eq)
qed

lemma run_scheduler_spec:
  assumes inv: "sched_inv x n s" and c: "c < n"
  shows "\<exists>b s'. run_scheduler x c s = Inr (b, s') \<and>
    (if keeps_running c s then \<not> b \<and> s' = update_cpu c (\<lambda>p. p\<lparr>NEEDS_RESCHEDULE := 0\<rparr>) s
     else swapped x n c s (next_choice c s) s' \<and> b = (next_choice c s \<noteq> None))"
proof -
  let ?s0 = "update_cpu c (\<lambda>p. p\<lparr>NEEDS_RESCHEDULE := 0\<rparr>) s"
  have inv0: "sched_inv x n ?s0" by (rule sched_inv_update_cpu[OF inv]) simp_all
  have ids: "current_task_id d ?s0 = current_task_id d s" "idle_task_id d ?s0 = idle_task_id d s"
      "PREEMPT_COUNT (cpus ?s0 d) = PREEMPT_COUNT (cpus s d)" for d by simp_all
  have same: "keeps_running c ?s0 = keeps_running c s" "next_choice c ?s0 = next_choice c s" "requeued c ?s0 = requeued c s"
      "ready_queue ?s0 = ready_queue s"
    unfolding keeps_running_def next_choice_def requeued_def ready_queue_def ids update_cpu_sel(1,2) by (rule refl)+
  have sw: "swapped x n c ?s0 ch s' \<longleftrightarrow> swapped x n c s ch s'" for ch s'
    unfolding swapped_def ids same by simp
  from task_swap_spec[OF inv0 c] obtain r s1 where run: "task_swap_parameters x c ?s0 = Inr (r, s1)"
      "swapped x n c s (next_choice c s) s1"
      "case r of None \<Rightarrow> next_choice c s = None | Some (p, sp, pt) \<Rightarrow> next_choice c s \<noteq> None \<and> p = current_task_id c ?s0"
    unfolding sw same by blast
  have chk: "check_current_task_needs_preemption c ?s0 = Inr (\<not> keeps_running c s)"
    using check_spec[OF inv0 c] unfolding same .
  show ?thesis
    using run swapped_switch_on[OF run(2) c] by (auto simp: run_scheduler_def Let_def chk split: option.splits)
qed

section \<open>The other operations keep the invariant\<close>

named_theorems sched_ops

lemma swap_state_Inr:
  "swap_state st i ts = Inr (old, ts') \<Longrightarrow>
     get_task ts i \<noteq> None \<and> ts' = update_task i (\<lambda>t. t\<lparr>desired_state := state_code st\<rparr>) ts"
  by (auto simp: swap_state_def atomic_swap_def run_facts get_task_assert_Inr)

lemma sched_inv_state:
  "sched_inv x n s \<Longrightarrow> sched_inv x n (s\<lparr>sched_tasks := update_task i (\<lambda>t. t\<lparr>desired_state := state_code st\<rparr>) (sched_tasks s)\<rparr>)"
  by (rule sched_inv_update_task) (auto simp: state.stored_def)

text \<open>Fields of a task other than its number, state and stack.\<close>
lemma sched_inv_field:
  assumes "sched_inv x n s" "\<And>t. task_id (f t) = task_id t" "\<And>t. desired_state (f t) = desired_state t"
    and "\<And>t. task_kernel_stack (f t) = task_kernel_stack t"
  shows "sched_inv x n (s\<lparr>sched_tasks := update_task i f (sched_tasks s)\<rparr>)"
  by (rule sched_inv_update_task[OF assms(1)]) (use assms in \<open>auto simp: sched_inv_def tasks_inv_def\<close>)

lemma needs_reschedule_inv: "sched_inv x n s \<Longrightarrow> sched_inv x n (update_cpu c (\<lambda>p. p\<lparr>NEEDS_RESCHEDULE := v\<rparr>) s)"
  by (rule sched_inv_update_cpu) simp_all

lemma timers_inv: "sched_inv x n (s\<lparr>timers := ts\<rparr>) \<longleftrightarrow> sched_inv x n s"
  by (simp add: sched_inv_def queue_inv_def)

lemma run_scheduler_inv [sched_ops]:
  assumes "sched_inv x n s" "c < n" "run_scheduler x c s = Inr (b, s')"
  shows "sched_inv x n s'"
  using run_scheduler_spec[OF assms(1,2)] assms(3) needs_reschedule_inv[OF assms(1)]
  by (auto simp: swapped_def split: if_splits)

lemma scheduler_tick_inv [sched_ops]:
  assumes "sched_inv x n s" "scheduler_tick dt c s = Inr s'"
  shows "sched_inv x n s'"
proof -
  obtain v where "s' = s\<lparr>sched_tasks := update_task (current_task_id c s) (\<lambda>t. t\<lparr>remaining_slice := v\<rparr>) (sched_tasks s)\<rparr> \<or>
      s' = update_cpu c (\<lambda>p. p\<lparr>NEEDS_RESCHEDULE := 1\<rparr>)
        (s\<lparr>sched_tasks := update_task (current_task_id c s) (\<lambda>t. t\<lparr>remaining_slice := v\<rparr>) (sched_tasks s)\<rparr>)"
    using assms(2) by (auto simp: scheduler_tick_def run_facts Let_def split: if_splits)
  moreover have "sched_inv x n (s\<lparr>sched_tasks := update_task (current_task_id c s) (\<lambda>t. t\<lparr>remaining_slice := v\<rparr>) (sched_tasks s)\<rparr>)"
    by (rule sched_inv_field[OF assms(1)]) simp_all
  ultimately show ?thesis using needs_reschedule_inv by blast
qed

lemma prepare_to_sleep_inv [sched_ops]:
  assumes "sched_inv x n s" "prepare_to_sleep c s = Inr (i, s')"
  shows "sched_inv x n s'"
proof -
  let ?s1 = "update_cpu c (\<lambda>p. p\<lparr>NEEDS_RESCHEDULE := 1\<rparr>) s"
  from assms(2) obtain t old ts where r: "swap_state Sleeping (current_task_id c ?s1) (sched_tasks ?s1) = Inr (old, ts)"
    "s' = ?s1\<lparr>sched_tasks := ts\<rparr>" by (auto simp: prepare_to_sleep_def run_facts Let_def)
  show ?thesis unfolding r(2) conjunct2[OF swap_state_Inr[OF r(1)]]
    by (rule sched_inv_state[OF needs_reschedule_inv[OF assms(1)]])
qed

lemma awaken_task_inv [sched_ops]:
  assumes "sched_inv x n s" "awaken_task c i s = Inr s'"
  shows "sched_inv x n s'"
proof -
  from assms(2) obtain old ts where r: "swap_state ReadyToRun i (sched_tasks s) = Inr (old, ts)"
    "s' = (if old \<noteq> ReadyToRun then update_cpu c (\<lambda>p. p\<lparr>NEEDS_RESCHEDULE := 1\<rparr>) (s\<lparr>sched_tasks := ts\<rparr>) else s\<lparr>sched_tasks := ts\<rparr>)"
    by (auto simp: awaken_task_def run_facts Let_def)
  have "sched_inv x n (s\<lparr>sched_tasks := ts\<rparr>)"
    unfolding conjunct2[OF swap_state_Inr[OF r(1)]] by (rule sched_inv_state[OF assms(1)])
  then show ?thesis using r(2) needs_reschedule_inv by metis
qed

lemma awaken_all_inv [sched_ops]:
  "sched_inv x n s \<Longrightarrow> for_each (awaken_task c) is s = Inr s' \<Longrightarrow> sched_inv x n s'"
  by (induction "is" arbitrary: s) (auto simp: run_facts dest: awaken_task_inv)

lemma send_all_consumers_inv [sched_ops]:
  assumes "sched_inv x n s" "send_all_consumers c i code s = Inr s'"
  shows "sched_inv x n s'"
proof -
  from assms(2) obtain ws cell where r: "for_each (awaken_task c) ws (s\<lparr>sched_tasks := update_task i
      (\<lambda>t. t\<lparr>exit_wait_cell := \<lparr>wait_cell_cell = cell, waiting_tasks = []\<rparr>\<rparr>) (sched_tasks s)\<rparr>) = Inr s'"
    by (auto simp: send_all_consumers_def run_facts Let_def)
  show ?thesis by (rule awaken_all_inv[OF _ r], rule sched_inv_field[OF assms(1)]) simp_all
qed

lemma kill_current_task_inv [sched_ops]:
  assumes "sched_inv x n s" "c < n" "kill_current_task x c code s = Inr s'"
  shows "sched_inv x n s'"
proof -
  from assms(3) obtain old ts s1 b where r: "swap_state Killed (current_task_id c s) (sched_tasks s) = Inr (old, ts)"
    "send_all_consumers c (current_task_id c s) code (s\<lparr>sched_tasks := ts\<rparr>) = Inr s1" "run_scheduler x c s1 = Inr (b, s')"
    by (auto simp: kill_current_task_def run_facts split: if_splits)
  have "sched_inv x n (s\<lparr>sched_tasks := ts\<rparr>)"
    unfolding conjunct2[OF swap_state_Inr[OF r(1)]] by (rule sched_inv_state[OF assms(1)])
  from send_all_consumers_inv[OF this r(2)] show ?thesis by (rule run_scheduler_inv[OF _ assms(2) r(3)])
qed

lemma wait_on_task_turn_inv [sched_ops]:
  assumes "sched_inv x n s" "c < n" "wait_on_task_turn x c target s = Inr (r, s')"
  shows "sched_inv x n s'"
proof -
  from assms(3) obtain i s1 where p: "prepare_to_sleep c s = Inr (i, s1)" by (auto simp: wait_on_task_turn_def run_facts)
  let ?s2 = "s1\<lparr>sched_tasks := update_task target (\<lambda>t. t\<lparr>exit_wait_cell := (exit_wait_cell t)
                \<lparr>waiting_tasks := waiting_tasks (exit_wait_cell t) @ [i]\<rparr>\<rparr>) (sched_tasks s1)\<rparr>"
  have "sched_inv x n ?s2" by (rule sched_inv_field[OF prepare_to_sleep_inv[OF assms(1) p]]) simp_all
  moreover have "awaken_task c i ?s2 = Inr s' \<or> (\<exists>b. run_scheduler x c ?s2 = Inr (b, s'))"
    using assms(3) p by (auto simp: wait_on_task_turn_def run_facts Let_def split: option.splits)
  ultimately show ?thesis using awaken_task_inv run_scheduler_inv[OF _ assms(2)] by blast
qed

lemma fire_timers_inv [sched_ops]:
  "sched_inv x n s \<Longrightarrow> fire_timers c clock ts s = Inr (rest, s') \<Longrightarrow> sched_inv x n s'"
proof (induction ts arbitrary: clock s rest)
  case (Cons t ts)
  show ?case
  proof (cases "expiration t \<le> clock 0")
    case True
    with Cons.prems(2) obtain s1 where "run_callback c (callback t) s = Inr s1"
      "fire_timers c (\<lambda>k. clock (Suc k)) ts s1 = Inr (rest, s')" by (auto simp: run_facts)
    moreover from this(1) have "sched_inv x n s1"
      using Cons.prems(1) by (auto simp: run_callback_def split: timer_callback.splits dest: awaken_task_inv)
    ultimately show ?thesis using Cons.IH by blast
  next
    case False
    with Cons.prems(2) obtain rest' where "fire_timers c (\<lambda>k. clock (Suc k)) ts s = Inr (rest', s')" by (auto simp: run_facts)
    then show ?thesis using Cons.IH Cons.prems(1) by blast
  qed
qed simp

lemma tick_broadcast_handler_inv [sched_ops]:
  "sched_inv x n s \<Longrightarrow> tick_broadcast_handler c clock s = Inr s' \<Longrightarrow> sched_inv x n s'"
  by (auto simp: tick_broadcast_handler_def run_facts timers_inv dest: fire_timers_inv)

lemma add_relative_timer_inv [sched_ops]:
  "sched_inv x n s \<Longrightarrow> add_relative_timer now timeout f s = Inr s' \<Longrightarrow> sched_inv x n s'"
  by (auto simp: add_relative_timer_def add_timer_def timers_inv split: if_splits)

lemma preempt_guard_inv [sched_ops]:
  "sched_inv x n s \<Longrightarrow> sched_inv x n (preempt_guard_new c s)"
  "sched_inv x n s \<Longrightarrow> 0 < PREEMPT_COUNT (cpus s c) \<Longrightarrow> sched_inv x n (preempt_guard_drop c s)"
  "sched_inv x n s \<Longrightarrow> sched_inv x n (set_preempt_count c 0 s)"
  unfolding preempt_guard_new_def preempt_guard_drop_def set_preempt_count_def
  by (rule sched_inv_update_cpu; simp)+

text \<open>A new task is in the table under a number that was free; nothing else of the table changes.\<close>
lemma sched_new_task_spec:
  assumes "tasks_inv (sched_tasks s)" "stacks_ok x (sched_tasks s)"
    and "sched_new_task x mem setup name f arg s = Inr (i, s')"
  shows "get_task (sched_tasks s) i = None" "tasks_inv (sched_tasks s')" "stacks_ok x (sched_tasks s')"
    "get_task (sched_tasks s') j = None \<longleftrightarrow> j \<noteq> i \<and> get_task (sched_tasks s) j = None"
    "pending_tasks s' = pending_tasks s" "cpus s' = cpus s" "timers s' = timers s" "is_ready (sched_tasks s') i"
proof -
  from assms(3) obtain ts ws m where r: "tasks_new_task x mem setup name f arg (sched_tasks s, sched_words s, sched_memory s) = Inr (i, ts, ws, m)"
    "s' = s\<lparr>sched_tasks := ts, sched_words := ws, sched_memory := m\<rparr>"
    by (auto simp: sched_new_task_def run_facts)
  from tasks_new_task_spec[OF assms(1) r(1)] obtain t where t: "get_task (sched_tasks s) i = None" "tasks_inv ts"
    "\<And>j. get_task ts j = (if j = i then Some t else get_task (sched_tasks s) j)"
    "desired_state t = state_code ReadyToRun" "\<exists>a. top_addr x (task_kernel_stack t) = Inr a" by blast
  show "get_task (sched_tasks s) i = None" "tasks_inv (sched_tasks s')" "stacks_ok x (sched_tasks s')"
    "get_task (sched_tasks s') j = None \<longleftrightarrow> j \<noteq> i \<and> get_task (sched_tasks s) j = None"
    "pending_tasks s' = pending_tasks s" "cpus s' = cpus s" "timers s' = timers s" "is_ready (sched_tasks s') i"
    using r(2) t assms(2) by (auto simp: stacks_ok_def is_ready_def state_of_def state.round_trip)
qed

lemma new_task_inv [sched_ops]:
  assumes "sched_inv x n s" "new_task x mem setup name f arg s = Inr (i, s')"
  shows "sched_inv x n s'"
proof -
  have inv: "tasks_inv (sched_tasks s)" "stacks_ok x (sched_tasks s)" "queue_inv n s" using assms(1) by (simp_all add: sched_inv_def)
  from assms(2) obtain s1 where r: "sched_new_task x mem setup name f arg s = Inr (i, s1)"
    "s' = s1\<lparr>pending_tasks := pending_tasks s1 @ [i]\<rparr>" by (auto simp: new_task_def run_facts)
  note t = sched_new_task_spec[OF inv(1,2) r(1)] and f = queue_inv_facts[OF inv(3)]
  have ids: "current_task_id d s' = current_task_id d s" "idle_task_id d s' = idle_task_id d s" for d
    unfolding r(2) current_task_id_def idle_task_id_def by (simp_all add: t(6) del: task_id_fold)
  have fresh: "i \<notin> set (pending_tasks s)" "\<And>d. d < n \<Longrightarrow> i \<noteq> current_task_id d s \<and> i \<noteq> idle_task_id d s"
    using t(1) f(2) f(4) by (metis, metis)
  have sel: "pending_tasks s' = pending_tasks s @ [i]" "sched_tasks s' = sched_tasks s1" "cpus s' = cpus s"
    using r(2) t(5,6) by simp_all
  have "queue_inv n s'"
  proof (rule queue_invI, unfold ids sel t(4))
    show "distinct (pending_tasks s @ [i])" using f(1) fresh(1) by simp
    show "\<not> (j \<noteq> i \<and> get_task (sched_tasks s) j = None)" if "j \<in> set (pending_tasks s @ [i])" for j
      using that f(2)[of j] by auto
    show "j \<noteq> current_task_id d s \<and> j \<noteq> idle_task_id d s" if "j \<in> set (pending_tasks s @ [i])" "d < n" for j d
      using that f(3)[of j d] fresh(2)[of d] by (cases "j = i") auto
    show "\<not> (current_task_id d s \<noteq> i \<and> get_task (sched_tasks s) (current_task_id d s) = None) \<and>
        \<not> (idle_task_id d s \<noteq> i \<and> get_task (sched_tasks s) (idle_task_id d s) = None) \<and> 0 \<le> PREEMPT_COUNT (cpus s d)"
      if "d < n" for d using f(4)[OF that] by blast
    show "current_task_id d s \<noteq> current_task_id e s \<and> idle_task_id d s \<noteq> idle_task_id e s \<and> current_task_id d s \<noteq> idle_task_id e s"
      if "d < n" "e < n" "d \<noteq> e" for d e by (rule f(5)[OF that])
    show "j \<in> set (pending_tasks s @ [i]) \<or> (\<exists>c<n. j = current_task_id c s \<or> j = idle_task_id c s)"
      if "\<not> (j \<noteq> i \<and> get_task (sched_tasks s) j = None)" for j using that f(6)[of j] by (cases "j = i") simp_all
  qed
  then show ?thesis using t(2,3) sel(2) by (simp add: sched_inv_def)
qed

lemma per_cpu_init_inv [sched_ops]:
  assumes "sched_inv x n s" "per_cpu_init x mem setup name f n s = Inr s'" "PREEMPT_COUNT (cpus s n) = 0"
  shows "sched_inv x (Suc n) s'"
proof -
  have inv: "tasks_inv (sched_tasks s)" "stacks_ok x (sched_tasks s)" "queue_inv n s" using assms(1) by (simp_all add: sched_inv_def)
  from assms(2) obtain i s1 where r: "sched_new_task x mem setup name f 0 s = Inr (i, s1)"
    "s' = update_cpu n (\<lambda>p. p\<lparr>IDLE_TASK_ID := task_number i, CURRENT_TASK_ID := task_number i\<rparr>) s1"
    by (auto simp: per_cpu_init_def run_facts)
  note t = sched_new_task_spec[OF inv(1,2) r(1)] and f = queue_inv_facts[OF inv(3)]
  have ids1: "current_task_id d s1 = current_task_id d s" "idle_task_id d s1 = idle_task_id d s" for d
    unfolding current_task_id_def idle_task_id_def t(6) by (rule refl)+
  have ids: "current_task_id d s' = (if d = n then i else current_task_id d s)"
      "idle_task_id d s' = (if d = n then i else idle_task_id d s)" for d
    unfolding r(2) by (simp_all add: ids1)
  have fresh: "i \<notin> set (pending_tasks s)" "\<And>d. d < n \<Longrightarrow> i \<noteq> current_task_id d s \<and> i \<noteq> idle_task_id d s"
    using t(1) f(2) f(4) by (metis, metis)
  have sel: "pending_tasks s' = pending_tasks s" "sched_tasks s' = sched_tasks s1"
      "\<And>d. PREEMPT_COUNT (cpus s' d) = PREEMPT_COUNT (cpus s d)"
    using r(2) t(5,6) by simp_all
  have "queue_inv (Suc n) s'"
  proof (rule queue_invI, unfold ids sel t(4))
    show "distinct (pending_tasks s)" by (rule f(1))
    show "\<not> (j \<noteq> i \<and> get_task (sched_tasks s) j = None)" if "j \<in> set (pending_tasks s)" for j
      using f(2)[OF that] by blast
    show "j \<noteq> (if d = n then i else current_task_id d s) \<and> j \<noteq> (if d = n then i else idle_task_id d s)"
      if "j \<in> set (pending_tasks s)" "d < Suc n" for j d
      using that f(3)[OF that(1), of d] fresh(1) by (auto simp: less_Suc_eq)
    show "\<not> ((if d = n then i else current_task_id d s) \<noteq> i \<and> get_task (sched_tasks s) (if d = n then i else current_task_id d s) = None) \<and>
        \<not> ((if d = n then i else idle_task_id d s) \<noteq> i \<and> get_task (sched_tasks s) (if d = n then i else idle_task_id d s) = None) \<and>
        0 \<le> PREEMPT_COUNT (cpus s d)" if "d < Suc n" for d
      using that f(4)[of d] assms(3) by (cases "d = n") auto
    show "(if d = n then i else current_task_id d s) \<noteq> (if e = n then i else current_task_id e s) \<and>
        (if d = n then i else idle_task_id d s) \<noteq> (if e = n then i else idle_task_id e s) \<and>
        (if d = n then i else current_task_id d s) \<noteq> (if e = n then i else idle_task_id e s)"
      if "d < Suc n" "e < Suc n" "d \<noteq> e" for d e
      using that f(5)[of d e] fresh(2)[of d] fresh(2)[of e] by (cases "d = n"; cases "e = n") auto
    show "j \<in> set (pending_tasks s) \<or> (\<exists>c<Suc n. j = (if c = n then i else current_task_id c s) \<or>
        j = (if c = n then i else idle_task_id c s))" if "\<not> (j \<noteq> i \<and> get_task (sched_tasks s) j = None)" for j
    proof (cases "j = i")
      case False
      then show ?thesis using that f(6)[of j] by (metis less_SucI less_irrefl_nat)
    qed auto
  qed
  then show ?thesis using t(2,3) sel(2) by (simp add: sched_inv_def)
qed

section \<open>Every reachable state\<close>

text \<open>The state before any processor has been set up.\<close>
definition sched_start :: "'m sched \<Rightarrow> bool" where
  "sched_start s \<longleftrightarrow> sched_tasks s = tasks_new \<and> pending_tasks s = [] \<and> timers s = [] \<and> (\<forall>c. PREEMPT_COUNT (cpus s c) = 0)"

text \<open>One operation of some processor, with the number of processors that have been set up. Which
  processor acts next, and how, is open. A processor that has decided to switch may do so after
  others have acted (\<open>switch\<close>), and a task can be woken at any time.\<close>
inductive sched_step :: "x86_64 \<Rightarrow> 'm task_memory \<Rightarrow> nat \<times> 'm sched \<Rightarrow> nat \<times> 'm sched \<Rightarrow> bool" for x mem where
  start_cpu: "per_cpu_init x mem setup name f n s = Inr s' \<Longrightarrow> PREEMPT_COUNT (cpus s n) = 0 \<Longrightarrow>
     sched_step x mem (n, s) (Suc n, s')"
| create: "new_task x mem setup name f arg s = Inr (i, s') \<Longrightarrow> sched_step x mem (n, s) (n, s')"
| schedule: "c < n \<Longrightarrow> run_scheduler x c s = Inr (b, s') \<Longrightarrow> sched_step x mem (n, s) (n, s')"
| switch: "c < n \<Longrightarrow> task_swap_parameters x c s = Inr (Some (p, sp, pt), s') \<Longrightarrow>
     sched_step x mem (n, s) (n, switch_on c p sp pt s')"
| tick: "scheduler_tick dt c s = Inr s' \<Longrightarrow> sched_step x mem (n, s) (n, s')"
| timer: "tick_broadcast_handler c clock s = Inr s' \<Longrightarrow> sched_step x mem (n, s) (n, s')"
| add_timer: "add_relative_timer now timeout f s = Inr s' \<Longrightarrow> sched_step x mem (n, s) (n, s')"
| sleep: "prepare_to_sleep c s = Inr (i, s') \<Longrightarrow> sched_step x mem (n, s) (n, s')"
| wake: "awaken_task c i s = Inr s' \<Longrightarrow> sched_step x mem (n, s) (n, s')"
| kill: "c < n \<Longrightarrow> kill_current_task x c code s = Inr s' \<Longrightarrow> sched_step x mem (n, s) (n, s')"
| wait: "c < n \<Longrightarrow> wait_on_task_turn x c target s = Inr (r, s') \<Longrightarrow> sched_step x mem (n, s) (n, s')"
| disable: "sched_step x mem (n, s) (n, preempt_guard_new c s)"
| enable: "0 < PREEMPT_COUNT (cpus s c) \<Longrightarrow> sched_step x mem (n, s) (n, preempt_guard_drop c s)"
| first_run: "sched_step x mem (n, s) (n, set_preempt_count c 0 s)"

inductive sched_reachable :: "x86_64 \<Rightarrow> 'm task_memory \<Rightarrow> nat \<times> 'm sched \<Rightarrow> bool" for x mem where
  start: "sched_start s \<Longrightarrow> sched_reachable x mem (0, s)"
| step: "sched_reachable x mem p \<Longrightarrow> sched_step x mem p q \<Longrightarrow> sched_reachable x mem q"

inductive_cases sched_stepE: "sched_step x mem (n, s) q"

lemma sched_start_inv: "sched_start s \<Longrightarrow> sched_inv x 0 s"
  by (simp add: sched_start_def sched_inv_def queue_inv_def tasks_inv_def stacks_ok_def tasks_new_def get_task_def)

lemma switch_inv [sched_ops]:
  assumes "sched_inv x n s" "c < n" "task_swap_parameters x c s = Inr (Some (p, sp, pt), s')"
  shows "sched_inv x n (switch_on c p sp pt s')"
proof -
  have "swapped x n c s (next_choice c s) s'" using task_swap_spec[OF assms(1,2)] assms(3) by auto
  from swapped_switch_on[OF this assms(2)] show ?thesis by (simp add: swapped_def)
qed

lemma sched_step_inv: "sched_step x mem (n, s) (n', s') \<Longrightarrow> sched_inv x n s \<Longrightarrow> sched_inv x n' s'"
  by (erule sched_stepE) (blast dest: sched_ops)+

lemma sched_reachable_inv: "sched_reachable x mem p \<Longrightarrow> sched_inv x (fst p) (snd p)"
proof (induction rule: sched_reachable.induct)
  case (step p q)
  then show ?case by (cases p; cases q) (auto dest: sched_step_inv)
qed (simp add: sched_start_inv)


text \<open>C6: The run queue is a first-in first-out queue of the ready tasks: when the current task is not
  to go on, the scheduler takes the first ready task, gives it a full time slice, and puts the
  previous task, if it is ready and not the idle task, behind all others; with no ready task it turns
  to the idle task, or stays if the current task is ready or idle. Other processors keep their tasks.\<close>
theorem run_scheduler_fifo:
  assumes "sched_inv x n s" "c < n" "\<not> keeps_running c s" "run_scheduler x c s = Inr (b, s')"
  shows "(case ready_queue s of
      i # rest \<Rightarrow> b \<and> current_task_id c s' = i \<and> ready_queue s' = rest @ requeued c s \<and>
        remaining_slice (the (get_task (sched_tasks s') i)) = DEFAULT_TIME_SLICE
    | [] \<Rightarrow> ready_queue s' = [] \<and>
        (if current_task_id c s = idle_task_id c s \<or> is_ready (sched_tasks s) (current_task_id c s)
         then \<not> b \<and> current_task_id c s' = current_task_id c s
         else b \<and> current_task_id c s' = idle_task_id c s)) \<and>
    (\<forall>d. d \<noteq> c \<longrightarrow> current_task_id d s' = current_task_id d s)"
proof -
  have sw: "swapped x n c s (next_choice c s) s'" "b = (next_choice c s \<noteq> None)"
    using run_scheduler_spec[OF assms(1,2)] assms(3,4) by auto
  show ?thesis
  proof (cases "ready_queue s")
    case (Cons i rest)
    then show ?thesis using sw by (simp add: swapped_def next_choice_def)
  next
    case Nil
    then show ?thesis using sw by (auto simp: swapped_def next_choice_def requeued_def split: if_splits)
  qed
qed

section \<open>Round robin\<close>

text \<open>One time slice on a processor: the scheduler runs, then two ticks of 50 ms use the slice up.\<close>
definition time_slice :: "x86_64 \<Rightarrow> nat \<Rightarrow> 'm sched \<Rightarrow> 'm sched outcome" where
  "time_slice x c s =
     and_then (run_scheduler x c s) (\<lambda>(_, s1). and_then (cpu_tick_handler c s1) (cpu_tick_handler c))"

fun time_slices :: "x86_64 \<Rightarrow> nat \<Rightarrow> nat \<Rightarrow> 'm sched \<Rightarrow> 'm sched outcome" where
  "time_slices x c 0 s = Inr s"
| "time_slices x c (Suc k) s = and_then (time_slices x c k s) (time_slice x c)"

lemma cpu_tick_spec:
  assumes "sched_inv x n s" "c < n"
  shows "\<exists>s'. cpu_tick_handler c s = Inr s' \<and> sched_inv x n s' \<and> ready_queue s' = ready_queue s \<and>
    (\<forall>d. current_task_id d s' = current_task_id d s \<and> idle_task_id d s' = idle_task_id d s \<and>
       PREEMPT_COUNT (cpus s' d) = PREEMPT_COUNT (cpus s d)) \<and>
    remaining_slice (the (get_task (sched_tasks s') (current_task_id c s))) =
      saturating_sub (remaining_slice (the (get_task (sched_tasks s) (current_task_id c s)))) TICK_MILLIS"
proof -
  obtain t where t: "get_task (sched_tasks s) (current_task_id c s) = Some t"
    using queue_invD(1)[of n s c] assms by (auto simp: sched_inv_def)
  then obtain s' where s': "cpu_tick_handler c s = Inr s'"
    by (simp add: cpu_tick_handler_def scheduler_tick_def current_task_def Let_def)
  have "sched_inv x n s'" using scheduler_tick_inv[OF assms(1)] s' by (simp add: cpu_tick_handler_def)
  with s' t show ?thesis
    by (auto simp: cpu_tick_handler_def scheduler_tick_def current_task_def Let_def ready_queue_def)
qed

lemma time_slice_spec:
  assumes "sched_inv x n s" "c < n" "\<not> keeps_running c s" "ready_queue s = i # rest"
  shows "\<exists>s'. time_slice x c s = Inr s' \<and> sched_inv x n s' \<and> \<not> keeps_running c s' \<and> current_task_id c s' = i \<and>
    ready_queue s' = rest @ requeued c s"
proof -
  obtain b s1 where r: "run_scheduler x c s = Inr (b, s1)" "swapped x n c s (Some i) s1"
    using run_scheduler_spec[OF assms(1,2)] assms(3,4) by (auto simp: next_choice_def)
  then have s1: "sched_inv x n s1" "current_task_id c s1 = i" "ready_queue s1 = rest @ requeued c s"
      "remaining_slice (the (get_task (sched_tasks s1) i)) = DEFAULT_TIME_SLICE" "PREEMPT_COUNT (cpus s1 c) = PREEMPT_COUNT (cpus s c)"
    using assms(4) by (simp_all add: swapped_def)
  from cpu_tick_spec[OF s1(1) assms(2)] obtain s2 where s2: "cpu_tick_handler c s1 = Inr s2" "sched_inv x n s2"
      "ready_queue s2 = ready_queue s1" "current_task_id c s2 = current_task_id c s1" "PREEMPT_COUNT (cpus s2 c) = PREEMPT_COUNT (cpus s1 c)"
      "remaining_slice (the (get_task (sched_tasks s2) (current_task_id c s1))) =
        saturating_sub (remaining_slice (the (get_task (sched_tasks s1) (current_task_id c s1)))) TICK_MILLIS" by blast
  from cpu_tick_spec[OF s2(2) assms(2)] obtain s3 where s3: "cpu_tick_handler c s2 = Inr s3" "sched_inv x n s3"
      "ready_queue s3 = ready_queue s2" "current_task_id c s3 = current_task_id c s2" "PREEMPT_COUNT (cpus s3 c) = PREEMPT_COUNT (cpus s2 c)"
      "remaining_slice (the (get_task (sched_tasks s3) (current_task_id c s2))) =
        saturating_sub (remaining_slice (the (get_task (sched_tasks s2) (current_task_id c s2)))) TICK_MILLIS" by blast
  have "remaining_slice (the (get_task (sched_tasks s3) i)) = 0"
    using s3(6) s2(4,6) s1(2,4) by (simp add: saturating_sub_def TICK_MILLIS_def TICK_HZ_def DEFAULT_TIME_SLICE_def)
  moreover have "\<not> 0 < PREEMPT_COUNT (cpus s c)" using assms(3) by (simp add: keeps_running_def)
  ultimately have "\<not> keeps_running c s3" using s3(4,5) s2(4,5) s1(2,5) by (simp add: keeps_running_def)
  then show ?thesis using r(1) s1 s2 s3 by (simp add: time_slice_def)
qed


section \<open>An example\<close>

text \<open>One processor with its idle task and one more task.\<close>
definition example_memory :: "nat task_memory" where
  "example_memory k = Inr ((\<lparr>stack_start_addr = of_nat (k * 0x10000)\<rparr>, 0), Suc k)"

definition example_cpu :: cpu where
  "example_cpu = \<lparr>CURRENT_TASK_ID = 0, IDLE_TASK_ID = 0, NEEDS_RESCHEDULE = 0, PREEMPT_COUNT = 0, interrupts_enabled = True, TOP_OF_KERNEL_STACK = 0,
     tss_rsp0 = 0, cpu_machine = \<lparr>gpr = (\<lambda>_. 0), rsp = 0, rip = 0, cr3 = 0, words = (\<lambda>_. 0)\<rparr>\<rparr>"

definition example_start :: "nat sched" where
  "example_start = \<lparr>sched_tasks = tasks_new, pending_tasks = [], timers = [], cpus = (\<lambda>_. example_cpu),
     sched_words = (\<lambda>_. 0), sched_memory = 0\<rparr>"

lemma example_sched_new_task:
  assumes "tasks_inv (sched_tasks s)" "sched_memory s < 4" "unat (task_number (next_task_id (sched_tasks s))) < 10"
  shows "\<exists>s'. sched_new_task x86_64_example example_memory setup name f arg s = Inr (next_task_id (sched_tasks s), s') \<and>
    sched_memory s' = Suc (sched_memory s) \<and> unat (task_number (next_task_id (sched_tasks s'))) < 11"
proof -
  let ?i = "next_task_id (sched_tasks s)"
  have "get_task (sched_tasks s) ?i = None"
    using assms(1) unfolding tasks_inv_def by (metis less_irrefl option.exhaust)
  then have free: "Mapping.lookup (task_map (sched_tasks s)) ?i = None" by (simp add: get_task_def)
  have inc: "u32_inc (task_number ?i) = Inr (task_number ?i + 1)" "unat (task_number ?i + 1) < 11"
    using assms(3) by (simp_all add: u32_inc_def unat_plus_if_size word_size)
  have "sched_memory s = 0 \<or> sched_memory s = 1 \<or> sched_memory s = 2 \<or> sched_memory s = 3" using assms(2) by linarith
  then obtain a where "top_addr x86_64_example \<lparr>stack_start_addr = of_nat (sched_memory s * 0x10000)\<rparr> = Inr a" "a mod 8 = 0"
    by (auto simp: top_addr_def x86_64_example_def KERNEL_STACK_SIZE_BYTES_def KERNEL_STACK_SIZE_PAGES_def PAGE_SIZE_def
        canonical_def)
  then show ?thesis using free inc
    by (simp add: sched_new_task_def tasks_new_task_def task_new_def example_memory_def Let_def first_frame_def)
qed

lemma example_sched:
  obtains s where "sched_reachable x86_64_example example_memory (1, s)" "\<not> keeps_running 0 s" "ready_queue s \<noteq> []"
proof -
  let ?x = x86_64_example and ?m = example_memory
  have st: "sched_start example_start" by (simp add: sched_start_def example_start_def example_cpu_def)
  note r0 = sched_reachable.start[OF st, of ?x ?m]
  note i0 = sched_start_inv[OF st, of ?x]
  obtain s1 where s1: "sched_new_task ?x ?m 0 [] 0 0 example_start = Inr (TaskId 1, s1)" "sched_memory s1 = 1"
      "unat (task_number (next_task_id (sched_tasks s1))) < 11"
    using example_sched_new_task[of example_start 0 "[]" 0 0] i0
    by (auto simp: sched_inv_def example_start_def tasks_new_def)
  let ?s2 = "update_cpu 0 (\<lambda>p. p\<lparr>IDLE_TASK_ID := 1, CURRENT_TASK_ID := 1\<rparr>) s1"
  have init: "per_cpu_init ?x ?m 0 [] 0 0 example_start = Inr ?s2" by (simp add: per_cpu_init_def s1)
  have "PREEMPT_COUNT (cpus example_start 0) = 0" by (simp add: example_start_def example_cpu_def)
  from sched_reachable.step[OF r0 sched_step.start_cpu[OF init this]]
  have r2: "sched_reachable ?x ?m (1, ?s2)" by simp
  have i2: "sched_inv ?x 1 ?s2" using sched_reachable_inv[OF r2] by simp
  have next2: "unat (task_number (next_task_id (sched_tasks s1))) < 10"
    using s1(1) by (auto simp: sched_new_task_def tasks_new_task_def example_start_def tasks_new_def run_facts Let_def u32_inc_def)
  obtain i s3 where s3: "sched_new_task ?x ?m 0 [] 0 0 ?s2 = Inr (i, s3)"
    using example_sched_new_task[of ?s2 0 "[]" 0 0] i2 s1(2) next2 by (auto simp: sched_inv_def)
  let ?s4 = "s3\<lparr>pending_tasks := pending_tasks s3 @ [i]\<rparr>"
  have nt: "new_task ?x ?m 0 [] 0 0 ?s2 = Inr (i, ?s4)" by (simp add: new_task_def s3)
  note t = sched_new_task_spec[OF _ _ s3] and inv2 = i2[unfolded sched_inv_def]
  have c3: "cpus s3 = cpus ?s2" and rd: "is_ready (sched_tasks s3) i" using t(6,8) inv2 by simp_all
  have "current_task_id 0 ?s4 = idle_task_id 0 ?s4" "PREEMPT_COUNT (cpus ?s4 0) = 0"
    using c3 sched_new_task_spec(6)[OF _ _ s1(1)] i0
    by (simp_all add: current_task_id_def idle_task_id_def sched_inv_def example_start_def example_cpu_def del: task_id_fold)
  then have "\<not> keeps_running 0 ?s4" by (simp add: keeps_running_def)
  moreover have "ready_queue ?s4 \<noteq> []" using rd by (simp add: ready_queue_def)
  ultimately show ?thesis using that sched_reachable.step[OF r2 sched_step.create[OF nt]] by blast
qed


theorem run_scheduler_fifo_witness:
  "\<exists>(s :: nat sched) s'. run_scheduler x86_64_example 0 s = Inr (True, s') \<and> current_task_id 0 s' = hd (ready_queue s)"
proof -
  obtain s where s: "sched_reachable x86_64_example example_memory (1, s)" "\<not> keeps_running 0 s" "ready_queue s \<noteq> []"
    by (rule example_sched)
  have inv: "sched_inv x86_64_example 1 s" using sched_reachable_inv[OF s(1)] by simp
  obtain b s' where r: "run_scheduler x86_64_example 0 s = Inr (b, s')" using run_scheduler_spec[OF inv, of 0] by auto
  from run_scheduler_fifo[OF inv _ s(2) r] s(3) have "b \<and> current_task_id 0 s' = hd (ready_queue s)"
    by (cases "ready_queue s") simp_all
  with r show ?thesis by auto
qed


end
