(* ===== verification/Sync.thy ===== *)
theory Sync
  imports Scheduler_Proofs
begin

text \<open>
  Locks and channels: kernel/src/sync/spin\_lock.rs, mutex.rs and once\_channel.rs, and
  `force_unlock_scheduler` of kernel/src/sched/schedcore.rs. The spin mutex itself is
  the one of the `spin` crate: a record of its operations, with its documented
  behaviour as a hypothesis. Operations that other processors or interrupts can
  come between are separate definitions.
\<close>

section \<open>Spin locks\<close>

text \<open>`try_lock` gives the locked mutex, or nothing when it is held; `force_unlock` and dropping a
  guard free it.\<close>
record 'l spin_mutex =
  spin_try_lock :: "'l \<Rightarrow> 'l option"
  spin_unlock :: "'l \<Rightarrow> 'l"

definition spin_mutex_spec :: "'l spin_mutex \<Rightarrow> ('l \<Rightarrow> bool) \<Rightarrow> bool" where
  "spin_mutex_spec sm held \<longleftrightarrow>
     (\<forall>l. if held l then spin_try_lock sm l = None else (\<exists>l'. spin_try_lock sm l = Some l' \<and> held l')) \<and>
     (\<forall>l. \<not> held (spin_unlock sm l))"

record spin_lock_guard =
  needs_enabling :: bool
  has_preempt_guard :: bool

definition set_interrupts :: "nat \<Rightarrow> bool \<Rightarrow> 'm sched \<Rightarrow> 'm sched" where
  "set_interrupts c on = update_cpu c (\<lambda>p. p\<lparr>interrupts_enabled := on\<rparr>)"

text \<open>Waiting for a lock that is held never ends when nobody else runs.\<close>
definition spin_acquire :: "'l spin_mutex \<Rightarrow> 'l \<Rightarrow> 'l outcome" where
  "spin_acquire sm l = (case spin_try_lock sm l of None \<Rightarrow> Inl Diverges | Some l' \<Rightarrow> Inr l')"

definition spin_lock :: "'l spin_mutex \<Rightarrow> nat \<Rightarrow> 'l \<times> 'm sched \<Rightarrow> (spin_lock_guard \<times> 'l \<times> 'm sched) outcome" where
  "spin_lock sm c ls =
     (let (l, s) = ls; s1 = preempt_guard_new c s in
      and_then (spin_acquire sm l) (\<lambda>l'.
      Inr (\<lparr>needs_enabling = False, has_preempt_guard = True\<rparr>, l', s1)))"

definition try_lock_allow_preempt :: "'l spin_mutex \<Rightarrow> 'l \<Rightarrow> (spin_lock_guard \<times> 'l) option" where
  "try_lock_allow_preempt sm l =
     map_option (\<lambda>l'. (\<lparr>needs_enabling = False, has_preempt_guard = False\<rparr>, l')) (spin_try_lock sm l)"

definition lock_disable_interrupts ::
  "'l spin_mutex \<Rightarrow> nat \<Rightarrow> 'l \<times> 'm sched \<Rightarrow> (spin_lock_guard \<times> 'l \<times> 'm sched) outcome" where
  "lock_disable_interrupts sm c ls =
     (let (l, s) = ls; s1 = preempt_guard_new c s;
          saved_intpt_flag = interrupts_enabled (cpus s1 c);
          s2 = (if saved_intpt_flag then set_interrupts c False s1 else s1)
      in
      and_then (spin_acquire sm l) (\<lambda>l'.
      Inr (\<lparr>needs_enabling = saved_intpt_flag, has_preempt_guard = True\<rparr>, l', s2)))"

text \<open>The fields of a guard are dropped in their order: the lock, the interrupts, the preemption.\<close>
definition drop_guard :: "'l spin_mutex \<Rightarrow> nat \<Rightarrow> spin_lock_guard \<Rightarrow> 'l \<times> 'm sched \<Rightarrow> 'l \<times> 'm sched" where
  "drop_guard sm c g ls =
     (let (l, s) = ls; l' = spin_unlock sm l;
          s1 = (if needs_enabling g then set_interrupts c True s else s);
          s2 = (if has_preempt_guard g then preempt_guard_drop c s1 else s1)
      in (l', s2))"

definition force_unlock_scheduler :: "'l spin_mutex \<Rightarrow> nat \<Rightarrow> 'l \<times> 'm sched \<Rightarrow> 'l \<times> 'm sched" where
  "force_unlock_scheduler sm c ls =
     (let (l, s) = ls in (spin_unlock sm l, set_preempt_count c 0 (set_interrupts c True s)))"

section \<open>Mutexes that put tasks to sleep\<close>

record ('l, 'a) mutex =
  mutex_inner :: 'l
  mutex_data :: 'a
  mutex_waiting :: "task_id list"

definition wake_tasks :: "nat \<Rightarrow> ('l, 'a) mutex \<times> 'm sched \<Rightarrow> (('l, 'a) mutex \<times> 'm sched) outcome" where
  "wake_tasks c ms =
     (let (m, s) = ms in
      and_then (for_each (awaken_task c) (mutex_waiting m) s) (\<lambda>s'. Inr (m\<lparr>mutex_waiting := []\<rparr>, s')))"

text \<open>One turn of the loop of `Mutex::lock`; whether the lock was taken.\<close>
definition mutex_lock_turn ::
  "x86_64 \<Rightarrow> 'l spin_mutex \<Rightarrow> nat \<Rightarrow> ('l, 'a) mutex \<times> 'm sched \<Rightarrow> (bool \<times> ('l, 'a) mutex \<times> 'm sched) outcome" where
  "mutex_lock_turn x sm c ms =
     (let (m, s) = ms in
      and_then (prepare_to_sleep c s) (\<lambda>(i, s1).
      let m1 = m\<lparr>mutex_waiting := mutex_waiting m @ [i]\<rparr> in
      case try_lock_allow_preempt sm (mutex_inner m1) of
        Some (_, l) \<Rightarrow> and_then (awaken_task c i s1) (\<lambda>s2. Inr (True, m1\<lparr>mutex_inner := l\<rparr>, s2))
      | None \<Rightarrow> and_then (run_scheduler x c s1) (\<lambda>(_, s2). Inr (False, m1, s2))))"

text \<open>Dropping the guard of a mutex runs `wake_tasks` first; the inner guard is dropped after it.\<close>
definition drop_inner_guard :: "'l spin_mutex \<Rightarrow> ('l, 'a) mutex \<Rightarrow> ('l, 'a) mutex" where
  "drop_inner_guard sm m = m\<lparr>mutex_inner := spin_unlock sm (mutex_inner m)\<rparr>"

section \<open>One-shot channels\<close>

record 'a channel =
  channel_cell :: "'a once_cell"
  receiver_task_id :: task_id

definition once_channel :: "nat \<Rightarrow> 'm sched \<Rightarrow> 'a channel" where
  "once_channel c s = \<lparr>channel_cell = cell_new, receiver_task_id = current_task_id c s\<rparr>"

definition channel_send :: "nat \<Rightarrow> 'a \<Rightarrow> 'a channel \<times> 'm sched \<Rightarrow> ('a channel \<times> 'm sched) outcome" where
  "channel_send c v cs =
     (let (ch, s) = cs in
      and_then (cell_set v (channel_cell ch)) (\<lambda>cell.
      and_then (awaken_task c (receiver_task_id ch) s) (\<lambda>s'. Inr (ch\<lparr>channel_cell := cell\<rparr>, s'))))"

text \<open>One turn of the loop of `OnceReceiver::wait_sleep`, after its call of `prepare_to_sleep`.\<close>
definition receive_turn ::
  "x86_64 \<Rightarrow> nat \<Rightarrow> task_id \<Rightarrow> 'a channel \<times> 'm sched \<Rightarrow> ('a option \<times> 'a channel \<times> 'm sched) outcome" where
  "receive_turn x c i cs =
     (let (ch, s) = cs in
      and_then (get_once (channel_cell ch)) (\<lambda>(msg, cell).
      let ch' = ch\<lparr>channel_cell := cell\<rparr> in
      case msg of
        Some v \<Rightarrow> and_then (awaken_task c i s) (\<lambda>s'. Inr (Some v, ch', s'))
      | None \<Rightarrow> and_then (run_scheduler x c s) (\<lambda>(_, s'). Inr (None, ch', s'))))"

section \<open>Guards restore what they changed\<close>

lemma spin_acquire_free:
  assumes "spin_mutex_spec sm held" "\<not> held l"
  shows "\<exists>l'. spin_acquire sm l = Inr l' \<and> held l'"
proof -
  have "if held l then spin_try_lock sm l = None else (\<exists>l'. spin_try_lock sm l = Some l' \<and> held l')"
    using assms(1) unfolding spin_mutex_spec_def by blast
  with assms(2) show ?thesis by (auto simp: spin_acquire_def)
qed

lemma update_cpu_twice: "update_cpu c f (update_cpu c g s) = update_cpu c (\<lambda>p. f (g p)) s"
  by (simp add: update_cpu_def)

lemma update_cpu_same: "f (cpus s c) = cpus s c \<Longrightarrow> update_cpu c f s = s"
  by (simp add: update_cpu_def)

text \<open>Taking a free spin lock with interrupts disabled, and dropping its guard, leaves the processor
  as it was, whether interrupts were enabled before or not; in between the lock is held, interrupts
  are off and preemption is disabled.\<close>
theorem lock_guard_round_trip:
  assumes "spin_mutex_spec sm held" "\<not> held l"
  shows "\<exists>g l1 s1. lock_disable_interrupts sm c (l, s) = Inr (g, l1, s1) \<and> held l1 \<and>
    \<not> interrupts_enabled (cpus s1 c) \<and> PREEMPT_COUNT (cpus s1 c) = PREEMPT_COUNT (cpus s c) + 1 \<and>
    (let (l2, s2) = drop_guard sm c g (l1, s1) in \<not> held l2 \<and> s2 = s)"
proof -
  obtain l' where l': "spin_acquire sm l = Inr l'" "held l'" using spin_acquire_free[OF assms] by blast
  have free: "\<not> held (spin_unlock sm k)" for k using assms(1) by (simp add: spin_mutex_spec_def)
  show ?thesis
  proof (cases "interrupts_enabled (cpus s c)")
    case True
    let ?s1 = "set_interrupts c False (preempt_guard_new c s)"
    have "preempt_guard_drop c (set_interrupts c True ?s1) = s"
      unfolding set_interrupts_def preempt_guard_new_def preempt_guard_drop_def update_cpu_twice
      by (rule update_cpu_same, cases "cpus s c") (use True in simp)
    then show ?thesis using l' True free
      by (intro exI[of _ "\<lparr>needs_enabling = True, has_preempt_guard = True\<rparr>"] exI[of _ l'] exI[of _ ?s1])
        (simp add: lock_disable_interrupts_def drop_guard_def set_interrupts_def preempt_guard_new_def)
  next
    case False
    let ?s1 = "preempt_guard_new c s"
    have "preempt_guard_drop c ?s1 = s"
      unfolding preempt_guard_new_def preempt_guard_drop_def update_cpu_twice
      by (rule update_cpu_same, cases "cpus s c") simp
    then show ?thesis using l' False free
      by (intro exI[of _ "\<lparr>needs_enabling = False, has_preempt_guard = True\<rparr>"] exI[of _ l'] exI[of _ ?s1])
        (simp add: lock_disable_interrupts_def drop_guard_def preempt_guard_new_def)
  qed
qed

section \<open>Sleeping and waking\<close>

text \<open>Two states with the same processors, apart from their requests to reschedule.\<close>
definition same_cpus :: "'m sched \<Rightarrow> 'm sched \<Rightarrow> bool" where
  "same_cpus s s' \<longleftrightarrow> (\<forall>d. current_task_id d s' = current_task_id d s \<and> idle_task_id d s' = idle_task_id d s \<and>
     PREEMPT_COUNT (cpus s' d) = PREEMPT_COUNT (cpus s d))"

lemma same_cpus_trans: "same_cpus s s' \<Longrightarrow> same_cpus s' s'' \<Longrightarrow> same_cpus s s''"
  by (simp add: same_cpus_def)

lemma awaken_task_ok:
  assumes "sched_inv x n s" "get_task (sched_tasks s) i \<noteq> None"
  shows "\<exists>s'. awaken_task c i s = Inr s' \<and> sched_inv x n s' \<and> same_cpus s s' \<and> pending_tasks s' = pending_tasks s \<and>
    (\<forall>j. get_task (sched_tasks s') j = None \<longleftrightarrow> get_task (sched_tasks s) j = None) \<and>
    (\<forall>j. state_of (sched_tasks s') j = (if j = i then Some ReadyToRun else state_of (sched_tasks s) j))"
proof -
  have inv: "tasks_inv (sched_tasks s)" using assms(1) by (simp add: sched_inv_def)
  obtain t where t: "get_task (sched_tasks s) i = Some t" using assms(2) by blast
  let ?ts = "update_task i (\<lambda>t. t\<lparr>desired_state := state_code ReadyToRun\<rparr>) (sched_tasks s)"
  have sw: "swap_state ReadyToRun i (sched_tasks s) = Inr (the (state_of (sched_tasks s) i), ?ts)"
    using swap_state_spec[OF inv t, of ReadyToRun] by blast
  define s' where "s' = (if the (state_of (sched_tasks s) i) \<noteq> ReadyToRun
      then update_cpu c (\<lambda>p. p\<lparr>NEEDS_RESCHEDULE := 1\<rparr>) (s\<lparr>sched_tasks := ?ts\<rparr>) else s\<lparr>sched_tasks := ?ts\<rparr>)"
  have r: "awaken_task c i s = Inr s'" by (simp add: awaken_task_def sw s'_def Let_def)
  have sel: "sched_tasks s' = ?ts" "pending_tasks s' = pending_tasks s" by (simp_all add: s'_def)
  have "same_cpus s s'" by (simp add: same_cpus_def s'_def)
  then show ?thesis using r awaken_task_inv[OF assms(1) r] sel state_of_update[OF t, of ReadyToRun] by simp
qed

lemma awaken_all_ok:
  assumes "sched_inv x n s" "\<forall>i\<in>set is. get_task (sched_tasks s) i \<noteq> None"
  shows "\<exists>s'. for_each (awaken_task c) is s = Inr s' \<and> sched_inv x n s' \<and> same_cpus s s' \<and>
    (\<forall>j. get_task (sched_tasks s') j = None \<longleftrightarrow> get_task (sched_tasks s) j = None) \<and>
    (\<forall>j. state_of (sched_tasks s') j = (if j \<in> set is then Some ReadyToRun else state_of (sched_tasks s) j))"
  using assms
proof (induction "is" arbitrary: s)
  case (Cons i js)
  from awaken_task_ok[OF Cons.prems(1), of i c] Cons.prems(2) obtain s1 where s1: "awaken_task c i s = Inr s1" "sched_inv x n s1"
    "same_cpus s s1" "\<forall>j. get_task (sched_tasks s1) j = None \<longleftrightarrow> get_task (sched_tasks s) j = None"
    "\<forall>j. state_of (sched_tasks s1) j = (if j = i then Some ReadyToRun else state_of (sched_tasks s) j)" by auto
  have "\<forall>j\<in>set js. get_task (sched_tasks s1) j \<noteq> None" using Cons.prems(2) s1(4) by simp
  from Cons.IH[OF s1(2) this] obtain s2 where "for_each (awaken_task c) js s1 = Inr s2" "sched_inv x n s2" "same_cpus s1 s2"
    "\<forall>j. get_task (sched_tasks s2) j = None \<longleftrightarrow> get_task (sched_tasks s1) j = None"
    "\<forall>j. state_of (sched_tasks s2) j = (if j \<in> set js then Some ReadyToRun else state_of (sched_tasks s1) j)" by blast
  then show ?case using s1 same_cpus_trans[OF s1(3)] by (intro exI[of _ s2]) simp
qed (simp add: same_cpus_def)

lemma prepare_to_sleep_ok:
  assumes "sched_inv x n s" "c < n"
  shows "\<exists>s'. prepare_to_sleep c s = Inr (current_task_id c s, s') \<and> sched_inv x n s' \<and> same_cpus s s' \<and>
    pending_tasks s' = pending_tasks s \<and> NEEDS_RESCHEDULE (cpus s' c) = 1 \<and>
    (\<forall>j. get_task (sched_tasks s') j = None \<longleftrightarrow> get_task (sched_tasks s) j = None) \<and>
    (\<forall>j. state_of (sched_tasks s') j = (if j = current_task_id c s then Some Sleeping else state_of (sched_tasks s) j))"
proof -
  have inv: "tasks_inv (sched_tasks s)" "queue_inv n s" using assms(1) by (simp_all add: sched_inv_def)
  obtain t where t: "get_task (sched_tasks s) (current_task_id c s) = Some t" using queue_invD(1)[OF inv(2) assms(2)] by blast
  let ?ts = "update_task (current_task_id c s) (\<lambda>t. t\<lparr>desired_state := state_code Sleeping\<rparr>) (sched_tasks s)"
  have sw: "swap_state Sleeping (current_task_id c s) (sched_tasks s) = Inr (the (state_of (sched_tasks s) (current_task_id c s)), ?ts)"
    using swap_state_spec[OF inv(1) t, of Sleeping] by blast
  let ?s' = "(update_cpu c (\<lambda>p. p\<lparr>NEEDS_RESCHEDULE := 1\<rparr>) s)\<lparr>sched_tasks := ?ts\<rparr>"
  have "task_id t = current_task_id c s" using inv(1) t by (simp add: tasks_inv_def)
  then have r: "prepare_to_sleep c s = Inr (current_task_id c s, ?s')"
    using t sw by (simp add: prepare_to_sleep_def current_task_def Let_def)
  show ?thesis using r prepare_to_sleep_inv[OF assms(1) r] state_of_update[OF t, of Sleeping]
    by (intro exI[of _ ?s']) (simp add: same_cpus_def)
qed

text \<open>A task that has prepared to sleep is switched out the next time the scheduler runs on its
  processor, unless it is an idle task or preemption is disabled.\<close>
lemma sleeping_task_switched_out:
  assumes "sched_inv x n s" "c < n" "current_task_id c s \<noteq> idle_task_id c s" "PREEMPT_COUNT (cpus s c) = 0"
    and "state_of (sched_tasks s) (current_task_id c s) = Some Sleeping"
  shows "\<exists>s'. run_scheduler x c s = Inr (True, s') \<and> sched_inv x n s' \<and> current_task_id c s' \<noteq> current_task_id c s \<and>
    state_of (sched_tasks s') (current_task_id c s) = Some Sleeping"
proof -
  let ?i = "current_task_id c s"
  have q: "queue_inv n s" using assms(1) by (simp add: sched_inv_def)
  have nr: "\<not> is_ready (sched_tasks s) ?i" using assms(5) by (simp add: is_ready_def)
  then have "\<not> keeps_running c s" using assms(4) by (simp add: keeps_running_def)
  moreover obtain j where j: "next_choice c s = Some j" "j = idle_task_id c s \<or> j \<in> set (pending_tasks s)"
  proof (cases "ready_queue s")
    case Nil
    then show ?thesis using that nr assms(3) by (simp add: next_choice_def)
  next
    case (Cons i rest)
    then have "i \<in> set (ready_queue s)" by simp
    then show ?thesis using that Cons by (simp add: next_choice_def ready_queue_def)
  qed
  ultimately obtain s' where s': "run_scheduler x c s = Inr (True, s')" "swapped x n c s (Some j) s'"
    using run_scheduler_spec[OF assms(1,2)] by auto
  have ne: "j \<noteq> ?i" using j(2) queue_invD(4)[OF q assms(2)] assms(3) by metis
  have "get_task (sched_tasks s') ?i \<noteq> None"
    using s'(2) queue_invD(1,4)[OF q assms(2)] by (simp add: swapped_def)
  then show ?thesis using s' assms(5) ne by (auto simp: swapped_def)
qed

text \<open>Time slices do not wake a sleeping task.\<close>
lemma sleeping_stays:
  assumes "sched_inv x n s" "d < n" "state_of (sched_tasks s) i = Some Sleeping" "time_slices x d k s = Inr s'"
  shows "sched_inv x n s' \<and> state_of (sched_tasks s') i = Some Sleeping"
  using assms(4)
proof (induction k arbitrary: s')
  case (Suc k)
  then obtain s1 b s2 s3 where r: "time_slices x d k s = Inr s1" "run_scheduler x d s1 = Inr (b, s2)"
    "cpu_tick_handler d s2 = Inr s3" "cpu_tick_handler d s3 = Inr s'" by (auto simp: time_slice_def run_facts)
  have s1: "sched_inv x n s1" "state_of (sched_tasks s1) i = Some Sleeping" using Suc.IH[OF r(1)] by blast+
  have i2: "sched_inv x n s2" by (rule run_scheduler_inv[OF s1(1) assms(2) r(2)])
  have g1: "get_task (sched_tasks s1) i \<noteq> None" using s1(2) by (auto simp: state_of_def split: option.splits)
  have nk: "\<not> is_killed (sched_tasks s1) i" using s1(2) by (simp add: is_killed_def)
  have "swapped x n d s1 (next_choice d s1) s2 \<or> sched_tasks s2 = sched_tasks s1"
    using run_scheduler_spec[OF s1(1) assms(2)] r(2) by (auto split: if_splits)
  then have st2: "state_of (sched_tasks s2) i = Some Sleeping"
  proof
    assume sw: "swapped x n d s1 (next_choice d s1) s2"
    then have "get_task (sched_tasks s2) i \<noteq> None" using g1 nk by (simp add: swapped_def del: not_None_eq)
    with sw s1(2) show ?thesis by (simp add: swapped_def del: not_None_eq)
  qed (simp add: s1(2))
  have tick: "state_of (sched_tasks u') j = state_of (sched_tasks u) j" if "cpu_tick_handler d u = Inr u'" for u u' :: "'a sched" and j
    using that by (auto simp: cpu_tick_handler_def scheduler_tick_def run_facts Let_def split: if_splits)
  have "sched_inv x n s'"
    using scheduler_tick_inv i2 r(3,4) unfolding cpu_tick_handler_def by blast
  then show ?case using st2 tick[OF r(3)] tick[OF r(4)] by simp
qed (use assms in simp)

section \<open>Wake-ups that are lost\<close>

text \<open>C33: `MutexGuard` wakes the waiting tasks before the inner lock is released. If another processor's
  task tries the lock in between, it fails, goes to sleep and stays asleep: the lock is free, the task
  is in the list of waiting tasks, and nobody is left to wake it.\<close>
theorem mutex_lost_wakeup:
  assumes "spin_mutex_spec sm held" "sched_inv x n s" "c < n" "current_task_id c s \<noteq> idle_task_id c s"
    and "PREEMPT_COUNT (cpus s c) = 0" "held (mutex_inner m)"
    and "\<forall>i\<in>set (mutex_waiting m). get_task (sched_tasks s) i \<noteq> None"
  shows "\<exists>m1 s1 m2 s2. wake_tasks a (m, s) = Inr (m1, s1) \<and> mutex_lock_turn x sm c (m1, s1) = Inr (False, m2, s2) \<and>
    \<not> held (mutex_inner (drop_inner_guard sm m2)) \<and>
    mutex_waiting (drop_inner_guard sm m2) = [current_task_id c s] \<and>
    state_of (sched_tasks s2) (current_task_id c s) = Some Sleeping \<and> current_task_id c s2 \<noteq> current_task_id c s"
proof -
  from awaken_all_ok[OF assms(2,7), of a] obtain s1 where s1: "for_each (awaken_task a) (mutex_waiting m) s = Inr s1"
    "sched_inv x n s1" "same_cpus s s1" by blast
  from prepare_to_sleep_ok[OF s1(2) assms(3)] obtain s' where s': "prepare_to_sleep c s1 = Inr (current_task_id c s1, s')"
    "sched_inv x n s'" "same_cpus s1 s'" "state_of (sched_tasks s') (current_task_id c s1) = Some Sleeping" by auto
  have ids: "current_task_id c s1 = current_task_id c s" "current_task_id c s' = current_task_id c s"
    "idle_task_id c s' = idle_task_id c s" "PREEMPT_COUNT (cpus s' c) = 0"
    using s1(3) s'(3) assms(5) by (simp_all add: same_cpus_def)
  from sleeping_task_switched_out[OF s'(2) assms(3)] assms(4) s'(4) obtain s2 where s2: "run_scheduler x c s' = Inr (True, s2)"
    "current_task_id c s2 \<noteq> current_task_id c s" "state_of (sched_tasks s2) (current_task_id c s) = Some Sleeping"
    unfolding ids by auto
  have "if held (mutex_inner m) then spin_try_lock sm (mutex_inner m) = None
      else (\<exists>l'. spin_try_lock sm (mutex_inner m) = Some l' \<and> held l')"
    using assms(1) unfolding spin_mutex_spec_def by blast
  then have "spin_try_lock sm (mutex_inner m) = None" using assms(6) by simp
  moreover have "\<not> held (spin_unlock sm l)" for l using assms(1) by (simp add: spin_mutex_spec_def)
  ultimately show ?thesis using s1(1) s'(1) s2 ids
    by (simp add: wake_tasks_def mutex_lock_turn_def try_lock_allow_preempt_def drop_inner_guard_def)
qed

text \<open>C34: A receiver that is interrupted between `prepare_to_sleep` and its look at the cell is switched
  out as a sleeping task. When the message had been sent before, it waits in the cell, but the
  receiver sleeps for ever: no number of time slices on any processor wakes it.\<close>
theorem once_channel_lost_wakeup:
  assumes "sched_inv x n s" "c < n" "current_task_id c s \<noteq> idle_task_id c s" "PREEMPT_COUNT (cpus s c) = 0"
    and "ch = once_channel c s"
  shows "\<exists>ch' s1 s2 s3. channel_send a v (ch, s) = Inr (ch', s1) \<and> get_clone (channel_cell ch') = Some v \<and>
    prepare_to_sleep c s1 = Inr (receiver_task_id ch, s2) \<and> interrupt_exit x c s2 = Inr (True, s3) \<and>
    (\<forall>d<n. \<forall>k s4. time_slices x d k s3 = Inr s4 \<longrightarrow> state_of (sched_tasks s4) (receiver_task_id ch) = Some Sleeping)"
proof -
  obtain cell where cell: "cell_set v cell_new = Inr cell" "get_clone cell = Some v"
    by (rule cell_first_set[OF cell_new_inv(1,3)])
  have rcv: "receiver_task_id ch = current_task_id c s" "channel_cell ch = cell_new" using assms(5) by (simp_all add: once_channel_def)
  have "get_task (sched_tasks s) (current_task_id c s) \<noteq> None"
    using queue_invD(1)[of n s c] assms(1,2) by (simp add: sched_inv_def)
  from awaken_task_ok[OF assms(1) this, of a] obtain s1 where s1: "awaken_task a (current_task_id c s) s = Inr s1"
    "sched_inv x n s1" "same_cpus s s1" by blast
  from prepare_to_sleep_ok[OF s1(2) assms(2)] obtain s2 where s2: "prepare_to_sleep c s1 = Inr (current_task_id c s1, s2)"
    "sched_inv x n s2" "same_cpus s1 s2" "NEEDS_RESCHEDULE (cpus s2 c) = 1"
    "state_of (sched_tasks s2) (current_task_id c s1) = Some Sleeping" by auto
  have ids: "current_task_id c s1 = current_task_id c s" "current_task_id c s2 = current_task_id c s"
    "idle_task_id c s2 = idle_task_id c s" "PREEMPT_COUNT (cpus s2 c) = 0"
    using s1(3) s2(3) assms(4) by (simp_all add: same_cpus_def)
  from sleeping_task_switched_out[OF s2(2) assms(2)] assms(3) s2(5) obtain s3 where s3: "run_scheduler x c s2 = Inr (True, s3)"
    "sched_inv x n s3" "state_of (sched_tasks s3) (current_task_id c s) = Some Sleeping"
    unfolding ids by auto
  have "interrupt_exit x c s2 = Inr (True, s3)" using s3(1) s2(4) by (simp add: interrupt_exit_def run_scheduler_if_needed_def)
  then show ?thesis using s1(1) s2(1) cell rcv ids(1) sleeping_stays[OF s3(2) _ s3(3)]
    by (auto simp: channel_send_def)
qed

section \<open>An example\<close>

definition flag_mutex :: "bool spin_mutex" where
  "flag_mutex = \<lparr>spin_try_lock = (\<lambda>l. if l then None else Some True), spin_unlock = (\<lambda>_. False)\<rparr>"

lemma flag_mutex_spec: "spin_mutex_spec flag_mutex (\<lambda>l. l)"
  by (auto simp: spin_mutex_spec_def flag_mutex_def)

theorem lock_guard_round_trip_witness:
  "\<exists>g l1 s1. lock_disable_interrupts flag_mutex 0 (False, example_start) = Inr (g, l1, s1) \<and> l1 \<and>
    snd (drop_guard flag_mutex 0 g (l1, s1)) = example_start"
  using lock_guard_round_trip[OF flag_mutex_spec, of False 0 example_start] by fastforce

text \<open>A processor that runs a task other than its idle task.\<close>
lemma example_running:
  obtains s where "sched_inv x86_64_example 1 s" "current_task_id 0 (s :: nat sched) \<noteq> idle_task_id 0 s" "PREEMPT_COUNT (cpus s 0) = 0"
proof -
  obtain s where s: "sched_reachable x86_64_example example_memory (1, s)" "\<not> keeps_running 0 s" "ready_queue s \<noteq> []"
    by (rule example_sched)
  have inv: "sched_inv x86_64_example 1 s" using sched_reachable_inv[OF s(1)] by simp
  have q: "queue_inv 1 s" using inv by (simp add: sched_inv_def)
  obtain i rest where i: "ready_queue s = i # rest" using s(3) by (cases "ready_queue s") auto
  obtain b s' where r: "swapped x86_64_example 1 0 s (Some i) s'"
    using run_scheduler_spec[OF inv, of 0] s(2) i by (auto simp: next_choice_def)
  have "i \<in> set (ready_queue s)" using i by simp
  then have "i \<noteq> idle_task_id 0 s" using queue_invD(5)[OF q, of 0] by (auto simp: ready_queue_def)
  moreover have "PREEMPT_COUNT (cpus s 0) = 0" using s(2) queue_invD(3)[OF q, of 0] by (simp add: keeps_running_def)
  ultimately show ?thesis using that[of s'] r by (simp add: swapped_def)
qed

theorem mutex_lost_wakeup_witness:
  "\<exists>s m2 (s2 :: nat sched) m1 s1. wake_tasks 1 (\<lparr>mutex_inner = True, mutex_data = (), mutex_waiting = []\<rparr>, s) = Inr (m1, s1) \<and>
     mutex_lock_turn x86_64_example flag_mutex 0 (m1, s1) = Inr (False, m2, s2) \<and>
     \<not> mutex_inner (drop_inner_guard flag_mutex m2) \<and> mutex_waiting (drop_inner_guard flag_mutex m2) \<noteq> []"
proof -
  obtain s :: "nat sched" where s: "sched_inv x86_64_example 1 s" "current_task_id 0 s \<noteq> idle_task_id 0 s" "PREEMPT_COUNT (cpus s 0) = 0"
    by (rule example_running)
  from mutex_lost_wakeup[OF flag_mutex_spec s(1) _ s(2,3), of "\<lparr>mutex_inner = True, mutex_data = (), mutex_waiting = []\<rparr>" 1]
  show ?thesis by fastforce
qed

theorem once_channel_lost_wakeup_witness:
  "\<exists>s ch' s1 s2 (s3 :: nat sched). channel_send 1 (5 :: nat) (once_channel 0 s, s) = Inr (ch', s1) \<and>
     prepare_to_sleep 0 s1 = Inr (current_task_id 0 s, s2) \<and> interrupt_exit x86_64_example 0 s2 = Inr (True, s3)"
proof -
  obtain s :: "nat sched" where s: "sched_inv x86_64_example 1 s" "current_task_id 0 s \<noteq> idle_task_id 0 s" "PREEMPT_COUNT (cpus s 0) = 0"
    by (rule example_running)
  from once_channel_lost_wakeup[OF s(1) _ s(2,3) refl, of 1 "5 :: nat"]
  show ?thesis by (simp add: once_channel_def) blast
qed

end
