(* ===== verification/Virtio_Block.thy ===== *)
theory Virtio_Block
  imports Virtqueue Rust_Strings Sync
begin

text \<open>
  The virtio block driver: kernel/src/virtio/block.rs. Requests are laid out in a
  physical buffer as the source does it, offered to the device through a virtqueue,
  and answered by the interrupt handler. Memory that the device and the driver share is
  the byte at every kernel physical address; the device is the environment.
\<close>

section \<open>Requests\<close>

definition VIRTIO_BLOCK_SECTOR_SIZE_BYTES :: nat where
  "VIRTIO_BLOCK_SECTOR_SIZE_BYTES = 512"

datatype block_request_type =
    TypeIn | TypeOut | TypeFlush | TypeGetID | TypeGetLifetime | TypeDiscard | TypeWriteZeroes | TypeSecureErase

fun type_number :: "block_request_type \<Rightarrow> u32" where
  "type_number TypeIn = 0"
| "type_number TypeOut = 1"
| "type_number TypeFlush = 4"
| "type_number TypeGetID = 8"
| "type_number TypeGetLifetime = 10"
| "type_number TypeDiscard = 11"
| "type_number TypeWriteZeroes = 13"
| "type_number TypeSecureErase = 14"

definition type_from_u32 :: "u32 \<Rightarrow> block_request_type option" where
  "type_from_u32 v =
     (if v = type_number TypeIn then Some TypeIn
      else if v = type_number TypeOut then Some TypeOut
      else if v = type_number TypeFlush then Some TypeFlush
      else if v = type_number TypeGetID then Some TypeGetID
      else if v = type_number TypeGetLifetime then Some TypeGetLifetime
      else if v = type_number TypeDiscard then Some TypeDiscard
      else if v = type_number TypeWriteZeroes then Some TypeWriteZeroes
      else if v = type_number TypeSecureErase then Some TypeSecureErase
      else None)"

datatype block_request_status = StatusOk | StatusIoErr | StatusUnsupported | StatusUnset

fun status_number :: "block_request_status \<Rightarrow> u8" where
  "status_number StatusOk = 0"
| "status_number StatusIoErr = 1"
| "status_number StatusUnsupported = 2"
| "status_number StatusUnset = 0b111"

definition status_from_u8 :: "u8 \<Rightarrow> block_request_status option" where
  "status_from_u8 v =
     (if v = 0 then Some StatusOk else if v = 1 then Some StatusIoErr
      else if v = 2 then Some StatusUnsupported else if v = 0b111 then Some StatusUnset else None)"

record raw_block_request =
  request_type :: block_request_type
  raw_sector :: u64
  raw_data_len :: u32
  raw_status :: block_request_status

definition raw_request_new :: "block_request_type \<Rightarrow> u64 \<Rightarrow> u32 \<Rightarrow> raw_block_request" where
  "raw_request_new ty sec len =
     \<lparr>request_type = ty, raw_sector = sec, raw_data_len = len, raw_status = StatusUnset\<rparr>"

datatype block_request =
    ReadRequest u64 u32
  | WriteRequest u64 u32
  | GetIDRequest

definition GET_ID_DATA_LEN :: u32 where
  "GET_ID_DATA_LEN = 20"

fun to_raw :: "block_request \<Rightarrow> raw_block_request outcome" where
  "to_raw (ReadRequest sec num_sectors) =
     and_then (u32_mul (unat num_sectors) VIRTIO_BLOCK_SECTOR_SIZE_BYTES) (\<lambda>len.
     Inr (raw_request_new TypeIn sec (of_nat len)))"
| "to_raw (WriteRequest sec data_len) = Inr (raw_request_new TypeOut sec data_len)"
| "to_raw GetIDRequest = Inr (raw_request_new TypeGetID 0 GET_ID_DATA_LEN)"

definition from_raw :: "raw_block_request \<Rightarrow> block_request outcome" where
  "from_raw raw = (case request_type raw of
     TypeIn \<Rightarrow>
       and_then (assert_that (unat (raw_data_len raw) mod VIRTIO_BLOCK_SECTOR_SIZE_BYTES = 0)) (\<lambda>_.
       Inr (ReadRequest (raw_sector raw) (of_nat (unat (raw_data_len raw) div VIRTIO_BLOCK_SECTOR_SIZE_BYTES))))
   | TypeOut \<Rightarrow>
       and_then (assert_that (unat (raw_data_len raw) mod VIRTIO_BLOCK_SECTOR_SIZE_BYTES = 0)) (\<lambda>_.
       Inr (WriteRequest (raw_sector raw) (raw_data_len raw)))
   | TypeGetID \<Rightarrow> Inr GetIDRequest
   | _ \<Rightarrow> Inl ExplicitPanic)"

section \<open>Requests in memory\<close>

record raw_request_header =
  header_request_type :: u32
  header_reserved :: u32
  header_sector :: u64

definition request_header_layout :: "raw_request_header layout" where
  "request_header_layout =
     \<lparr>layout_size = 16,
      decode = (\<lambda>bs. \<lparr>header_request_type = u32_at bs 0, header_reserved = u32_at bs 4, header_sector = u64_at bs 8\<rparr>),
      encode = (\<lambda>h. put_u32 (header_request_type h) @ put_u32 (header_reserved h) @ put_u64 (header_sector h))\<rparr>"

definition byte_layout_u8 :: "u8 layout" where
  "byte_layout_u8 = \<lparr>layout_size = 1, decode = (\<lambda>bs. u8_at bs 0), encode = put_u8\<rparr>"

definition HEADER_ALIGN :: nat where "HEADER_ALIGN = 8"
definition STATUS_ALIGN :: nat where "STATUS_ALIGN = 1"
definition STATUS_SIZE :: nat where "STATUS_SIZE = 1"

text \<open>Where the header and the status go, and how much memory it all takes, in `u32` arithmetic.\<close>
definition request_offsets :: "raw_block_request \<Rightarrow> (nat \<times> nat \<times> nat) outcome" where
  "request_offsets raw =
     (let data_len = unat (raw_data_len raw) in
      and_then (u32_add data_len (data_len mod HEADER_ALIGN)) (\<lambda>header_offset.
      and_then (u32_add header_offset (layout_size request_header_layout)) (\<lambda>status_raw_offset.
      and_then (u32_add status_raw_offset (status_raw_offset mod STATUS_ALIGN)) (\<lambda>status_offset.
      and_then (u32_add status_offset STATUS_SIZE) (\<lambda>total_size.
      Inr (header_offset, status_offset, total_size))))))"

text \<open>The bytes of the zeroed buffer after the data has been copied in.\<close>
definition copy_request_data :: "raw_block_request \<Rightarrow> u8 list option \<Rightarrow> u8 list \<Rightarrow> u8 list outcome" where
  "copy_request_data raw data bytes = (case data of
     None \<Rightarrow> Inr bytes
   | Some d \<Rightarrow>
       and_then (assert_that (length d \<le> unat (raw_data_len raw))) (\<lambda>_.
       for_each (\<lambda>(i, b) bs. if i < length bs then Inr (bs[i := b]) else Inl IndexOutOfBounds)
         (enumerate 0 d) bytes))"

definition request_header :: "raw_block_request \<Rightarrow> raw_request_header" where
  "request_header raw =
     \<lparr>header_request_type = type_number (request_type raw), header_reserved = 0, header_sector = raw_sector raw\<rparr>"

definition to_descriptor_chain ::
  "x86_64 \<Rightarrow> raw_block_request \<Rightarrow> u8 list option \<Rightarrow> (phys_allocator \<times> memory) \<times> byte_memory \<Rightarrow>
   (chained_descriptor list \<times> physical_buffer \<times> (phys_allocator \<times> memory) \<times> byte_memory) outcome" where
  "to_descriptor_chain x raw data st =
     (let (s, bm) = st in
      and_then (request_offsets raw) (\<lambda>(header_offset, status_offset, total_size).
      and_then (allocate_zeroed x total_size s) (\<lambda>(r, s').
      case r of Err _ \<Rightarrow> Inl ExpectFailed | Ok buffer \<Rightarrow>
      let addr = buffer_address buffer in
      and_then (buffer_len_bytes buffer) (\<lambda>n.
      and_then (copy_request_data raw data (replicate n 0)) (\<lambda>bytes1.
      and_then (expect (try_write_bytes_offset request_header_layout bytes1 header_offset (request_header raw))) (\<lambda>bytes2.
      and_then (kern_phys_addr_add addr header_offset) (\<lambda>header_addr.
      and_then (to_phys_addr x header_addr) (\<lambda>header_phys.
      and_then (to_phys_addr x addr) (\<lambda>buffer_phys.
      and_then (expect (try_write_bytes_offset byte_layout_u8 bytes2 status_offset (status_number (raw_status raw)))) (\<lambda>bytes3.
      and_then (kern_phys_addr_add addr status_offset) (\<lambda>status_addr.
      and_then (to_phys_addr x status_addr) (\<lambda>status_phys.
      Inr ([\<lparr>elem_addr = header_phys, elem_len = of_nat (layout_size request_header_layout),
             elem_flags = with_device_write False 0\<rparr>,
            \<lparr>elem_addr = buffer_phys, elem_len = raw_data_len raw,
             elem_flags = with_device_write (request_type raw \<noteq> TypeOut) 0\<rparr>,
            \<lparr>elem_addr = status_phys, elem_len = of_nat STATUS_SIZE, elem_flags = with_device_write True 0\<rparr>],
           buffer, s', put_bytes addr bytes3 bm)))))))))))))"

text \<open>The next descriptor of a chain, which has to be there.\<close>
definition chain_expect :: "chain_iterator \<Rightarrow> (chained_descriptor \<times> chain_iterator) outcome" where
  "chain_expect it = and_then (chain_next it) (\<lambda>(d, it'). and_then (expect d) (\<lambda>d. Inr (d, it')))"

definition from_descriptor_chain :: "byte_memory \<Rightarrow> chain_iterator \<Rightarrow> raw_block_request outcome" where
  "from_descriptor_chain bm chain =
     and_then (chain_expect chain) (\<lambda>(header_desc, it1).
     and_then (chain_expect it1) (\<lambda>(buffer_desc, it2).
     and_then (chain_expect it2) (\<lambda>(status_desc, it3).
     and_then (chain_next it3) (\<lambda>(rest, _).
     and_then (assert_that (rest = None)) (\<lambda>_.
     and_then (assert_that (elem_len header_desc = of_nat (layout_size request_header_layout))) (\<lambda>_.
     and_then (from_phys_addr (elem_addr header_desc)) (\<lambda>header_addr.
     let header = decode request_header_layout (get_bytes header_addr (layout_size request_header_layout) bm) in
     and_then (expect (type_from_u32 (header_request_type header))) (\<lambda>ty.
     and_then (assert_that (elem_len status_desc = 1)) (\<lambda>_.
     and_then (from_phys_addr (elem_addr status_desc)) (\<lambda>status_addr.
     and_then (expect (status_from_u8 (bm status_addr))) (\<lambda>st.
     Inr \<lparr>request_type = ty, raw_sector = header_sector header, raw_data_len = elem_len buffer_desc,
          raw_status = st\<rparr>)))))))))))"

section \<open>The driver\<close>

datatype block_response =
    ReadResponse physical_buffer nat
  | WriteResponse
  | GetIDResponse "u8 list"

text \<open>A sender is the number of its channel.\<close>
record block_desc_data =
  desc_buffer :: physical_buffer
  desc_sender :: nat

type_synonym block_device = "block_desc_data queue_data"

text \<open>What the driver works on besides its queue: the page allocator, memory, the channels made so
  far, the scheduler, and the notifications written to the device.\<close>
record 'm block_env =
  env_alloc :: "phys_allocator \<times> memory"
  env_bytes :: byte_memory
  env_channels :: "block_response channel list"
  env_sched :: "'m sched"
  env_notified :: "(u64 \<times> u16) list"

definition add_request ::
  "x86_64 \<Rightarrow> nat \<Rightarrow> block_request \<Rightarrow> u8 list option \<Rightarrow> block_device \<times> 'm block_env \<Rightarrow>
   (nat \<times> block_device \<times> 'm block_env) outcome" where
  "add_request x c request data st =
     (let (dev, env) = st in
      and_then (to_raw request) (\<lambda>raw.
      and_then (to_descriptor_chain x raw data (env_alloc env, env_bytes env)) (\<lambda>(descs, buffer, s', bm').
      let receiver = length (env_channels env) in
      and_then (add_buffer descs \<lparr>desc_buffer = buffer, desc_sender = receiver\<rparr> dev) (\<lambda>dev'.
      and_then (data_notify_device dev') (\<lambda>note.
      Inr (receiver, dev', env\<lparr>env_alloc := s', env_bytes := bm',
             env_channels := env_channels env @ [once_channel c (env_sched env)],
             env_notified := env_notified env @ [note]\<rparr>))))))"

text \<open>The operations on a device by its number; the devices are the list behind `VIRTIO_BLOCK`.\<close>
definition with_device ::
  "nat \<Rightarrow> (block_device \<times> 'm block_env \<Rightarrow> ('r \<times> block_device \<times> 'm block_env) outcome) \<Rightarrow>
   block_device list \<times> 'm block_env \<Rightarrow> ('r \<times> block_device list \<times> 'm block_env) outcome" where
  "with_device i f st =
     (let (devs, env) = st in
      if i < length devs
      then and_then (f (devs ! i, env)) (\<lambda>(r, dev', env'). Inr (r, devs[i := dev'], env'))
      else Inl ExpectFailed)"

definition virtio_block_get_id where
  "virtio_block_get_id x c i = with_device i (add_request x c GetIDRequest None)"

definition virtio_block_read where
  "virtio_block_read x c i sec num_sectors = with_device i (add_request x c (ReadRequest sec num_sectors) None)"

text \<open>`next_multiple_of`, which panics when the multiple is not a `u32`.\<close>
definition next_multiple_of :: "nat \<Rightarrow> nat \<Rightarrow> nat outcome" where
  "next_multiple_of n m = (if n mod m = 0 then Inr n else u32_add n (m - n mod m))"

definition virtio_block_write where
  "virtio_block_write x c i sec data =
     with_device i (\<lambda>st.
       and_then (next_multiple_of (length data mod 2 ^ 32) VIRTIO_BLOCK_SECTOR_SIZE_BYTES) (\<lambda>len.
       add_request x c (WriteRequest sec (of_nat len)) (Some data) st))"

definition send_response ::
  "nat \<Rightarrow> nat \<Rightarrow> block_response \<Rightarrow> 'm block_env \<Rightarrow> 'm block_env outcome" where
  "send_response c sender v env =
     and_then (index_at (env_channels env) sender) (\<lambda>ch.
     and_then (channel_send c v (ch, env_sched env)) (\<lambda>(ch', s').
     Inr (env\<lparr>env_channels := (env_channels env)[sender := ch'], env_sched := s'\<rparr>)))"

definition drop_request_buffer :: "x86_64 \<Rightarrow> physical_buffer \<Rightarrow> 'm block_env \<Rightarrow> 'm block_env outcome" where
  "drop_request_buffer x b env =
     and_then (drop_buffer x b (fst (env_alloc env))) (\<lambda>a. Inr (env\<lparr>env_alloc := (a, snd (env_alloc env))\<rparr>))"

text \<open>What the interrupt handler does for one used entry.\<close>
definition block_used_entry ::
  "x86_64 \<Rightarrow> nat \<Rightarrow> used_elem \<Rightarrow> chain_iterator \<Rightarrow> block_desc_data option \<Rightarrow> 'm block_env \<Rightarrow> 'm block_env outcome" where
  "block_used_entry x c e chain data env = (case data of
     None \<Rightarrow> Inr env
   | Some d \<Rightarrow>
       and_then (from_descriptor_chain (env_bytes env) chain) (\<lambda>raw.
       and_then (assert_that (raw_status raw = StatusOk)) (\<lambda>_.
       and_then (from_raw raw) (\<lambda>request. case request of
         ReadRequest _ _ \<Rightarrow>
           send_response c (desc_sender d) (ReadResponse (desc_buffer d) (unat (raw_data_len raw))) env
       | WriteRequest _ _ \<Rightarrow>
           and_then (send_response c (desc_sender d) WriteResponse env) (drop_request_buffer x (desc_buffer d))
       | GetIDRequest \<Rightarrow>
           and_then (c_str_from_pointer
                       (get_bytes (buffer_address (desc_buffer d)) (unat (raw_data_len raw)) (env_bytes env))
                       (unat (raw_data_len raw))) (\<lambda>str.
           and_then (send_response c (desc_sender d) (GetIDResponse str) env)
             (drop_request_buffer x (desc_buffer d)))))))"

definition virtio_block_interrupt ::
  "x86_64 \<Rightarrow> nat \<Rightarrow> nat \<Rightarrow> block_device list \<times> 'm block_env \<Rightarrow> (unit \<times> block_device list \<times> 'm block_env) outcome" where
  "virtio_block_interrupt x c handler_id =
     with_device handler_id (\<lambda>(dev, env).
       and_then (process_data_entries (block_used_entry x c) dev env) (\<lambda>(dev', env'). Inr ((), dev', env')))"

text \<open>The bytes of a read response.\<close>
definition response_data :: "physical_buffer \<Rightarrow> nat \<Rightarrow> byte_memory \<Rightarrow> u8 list outcome" where
  "response_data b data_len bm =
     and_then (buffer_len_bytes b) (\<lambda>n. slice_range (get_bytes (buffer_address b) n bm) 0 data_len)"

section \<open>Codes and layouts\<close>

interpretation req_type: enum_code type_number type_from_u32
proof
  show "type_from_u32 (type_number v) = Some v" for v by (cases v) (simp_all add: type_from_u32_def)
qed

interpretation req_status: enum_code status_number status_from_u8
proof
  show "status_from_u8 (status_number v) = Some v" for v by (cases v) (simp_all add: status_from_u8_def)
qed

interpretation req_header: byte_layout request_header_layout "\<lambda>_. True"
proof
  show "length (encode request_header_layout v) = layout_size request_header_layout"
    "decode request_header_layout (encode request_header_layout v) = v" for v
    by (simp_all add: request_header_layout_def layout_facts)
next
  show "encode request_header_layout (decode request_header_layout bs) = bs"
    if "length bs = layout_size request_header_layout" for bs
    using that by (simp add: request_header_layout_def layout_facts)
qed simp

interpretation one_byte: byte_layout byte_layout_u8 "\<lambda>_. True"
proof
  show "length (encode byte_layout_u8 v) = layout_size byte_layout_u8"
    "decode byte_layout_u8 (encode byte_layout_u8 v) = v" for v
    by (simp_all add: byte_layout_u8_def layout_facts)
next
  show "encode byte_layout_u8 (decode byte_layout_u8 bs) = bs"
    if "length bs = layout_size byte_layout_u8" for bs
    using that by (simp add: byte_layout_u8_def layout_facts)
qed simp

lemma layout_sizes [simp]: "layout_size request_header_layout = 16" "layout_size byte_layout_u8 = 1"
  by (simp_all add: request_header_layout_def byte_layout_u8_def)

definition whole_sectors :: "block_request \<Rightarrow> bool" where
  "whole_sectors request = (case request of
     WriteRequest _ len \<Rightarrow> unat len mod VIRTIO_BLOCK_SECTOR_SIZE_BYTES = 0 | _ \<Rightarrow> True)"

text \<open>A request that was turned into its raw form is the request that is read back from it.\<close>
lemma from_raw_round_trip:
  assumes "to_raw request = Inr raw" "whole_sectors request"
  shows "from_raw (raw\<lparr>raw_status := st\<rparr>) = Inr request"
proof (cases request)
  case (ReadRequest sec n)
  then have fits: "unat n * 512 < 2 ^ 32" and raw: "raw = raw_request_new TypeIn sec (of_nat (unat n * 512))"
    using assms(1) by (auto simp: run_facts u32_mul_def fits_u32_iff VIRTIO_BLOCK_SECTOR_SIZE_BYTES_def
        split: if_splits)
  have "unat (of_nat (unat n * 512) :: u32) = unat n * 512"
    using fits by (simp add: unat_of_nat del: of_nat_mult)
  then show ?thesis
    using ReadRequest by (simp add: raw from_raw_def raw_request_new_def VIRTIO_BLOCK_SECTOR_SIZE_BYTES_def
        del: of_nat_mult)
next
  case (WriteRequest sec len)
  then show ?thesis using assms by (auto simp: from_raw_def raw_request_new_def whole_sectors_def)
next
  case GetIDRequest
  then show ?thesis using assms by (auto simp: from_raw_def raw_request_new_def)
qed

section \<open>Bytes in memory\<close>

lemma copy_bytes:
  assumes "k + length d \<le> length bs"
  shows "for_each (\<lambda>(i, b) bs. if i < length bs then Inr (bs[i := b]) else Inl IndexOutOfBounds)
      (enumerate k d) bs = Inr (overwrite k d bs)"
  using assms
proof (induction d arbitrary: k bs)
  case Nil
  then show ?case by (simp add: overwrite_def)
next
  case (Cons b d)
  then have "overwrite (Suc k) d (bs[k := b]) = overwrite k (b # d) bs"
    by (simp add: overwrite_def take_Suc_conv_app_nth)
  with Cons show ?case by simp
qed

lemma copy_request_data_ok:
  assumes "case data of None \<Rightarrow> True | Some d \<Rightarrow> length d \<le> unat (raw_data_len raw)"
    and "unat (raw_data_len raw) \<le> n"
  shows "copy_request_data raw data (replicate n 0) =
    Inr (overwrite 0 (case data of None \<Rightarrow> [] | Some d \<Rightarrow> d) (replicate n 0))"
proof (cases data)
  case (Some d)
  then show ?thesis using assms copy_bytes[of 0 d "replicate n 0"] by (simp add: copy_request_data_def)
qed (simp add: copy_request_data_def overwrite_def)

section \<open>Buffers for requests\<close>

lemma frame_offset:
  assumes "x86_64_spec x" "p * PAGE_SIZE + off \<le> 0x377777777777"
  shows "kern_phys_addr_add (frame_addr p) off = Inr (frame_addr p + of_nat off)"
    and "to_phys_addr x (frame_addr p + of_nat off) = Inr (of_nat (p * PAGE_SIZE + off))"
    and "from_phys_addr (of_nat (p * PAGE_SIZE + off)) = Inr (frame_addr p + of_nat off)"
proof -
  have eq: "frame_addr p + of_nat off = of_nat (p * PAGE_SIZE + off) + kernel_physical_mapping_start"
    by (simp add: frame_addr_def)
  have "unat (of_nat (p * PAGE_SIZE + off) :: u64) = p * PAGE_SIZE + off"
    using assms(2) by (intro unat_of_nat_u64) simp
  then have m: "mapped_phys (of_nat (p * PAGE_SIZE + off))"
    using assms(2) by (simp add: mapped_phys_def word_le_nat_alt)
  show "to_phys_addr x (frame_addr p + of_nat off) = Inr (of_nat (p * PAGE_SIZE + off))"
    "from_phys_addr (of_nat (p * PAGE_SIZE + off)) = Inr (frame_addr p + of_nat off)"
    unfolding eq using to_phys_addr_mapped[OF assms(1) m] from_phys_addr_mapped(1)[OF m] by simp_all
  have "uint (frame_addr p) + uint (of_nat off :: u64) < 2 ^ 64"
  proof -
    have "unat (frame_addr p) = p * PAGE_SIZE + 0xFFFF800000000000"
      using assms(2) by (intro unat_frame_addr) simp
    moreover have "unat (of_nat off :: u64) = off" using assms(2) by (intro unat_of_nat_u64) simp
    ultimately have "unat (frame_addr p) + unat (of_nat off :: u64) < 2 ^ 64" using assms(2) by simp
    then have "int (unat (frame_addr p) + unat (of_nat off :: u64)) < int (2 ^ 64)"
      by (simp only: of_nat_less_iff)
    then show ?thesis by simp
  qed
  moreover have "in_physical_mapping (frame_addr p + of_nat off)"
    unfolding eq by (rule from_phys_addr_mapped(2)[OF m])
  ultimately show "kern_phys_addr_add (frame_addr p) off = Inr (frame_addr p + of_nat off)"
    by (simp add: kern_phys_addr_add_def u64_add_def kern_phys_addr_new_def)
qed

lemma allocate_zeroed_ok:
  assumes "x86_64_spec x" "phys_inv a" "0 < n"
    and "allocate_zeroed x n (a, m) = Inr (Ok buffer, a', m')"
  shows "\<exists>p. buffer_address buffer = frame_addr p \<and> 0 < p \<and> phys_inv a' \<and>
    buffer_len_bytes buffer = Inr (div_ceil n PAGE_SIZE * PAGE_SIZE) \<and> n \<le> div_ceil n PAGE_SIZE * PAGE_SIZE \<and>
    p * PAGE_SIZE + div_ceil n PAGE_SIZE * PAGE_SIZE \<le> 0x377777777777"
proof -
  let ?k = "div_ceil n PAGE_SIZE"
  have k: "n \<le> ?k * PAGE_SIZE" using div_ceil_le_iff[of PAGE_SIZE n ?k] by (simp add: PAGE_SIZE_def)
  with assms(3) have "0 < ?k" by (cases ?k) simp_all
  from allocate_pages_spec[OF assms(1,2) this] obtain r a'' where
    r: "allocate_pages x ?k a = Inr (r, a'')" "phys_inv a''"
      "case r of Err e \<Rightarrow> True | Ok rg \<Rightarrow> \<exists>p. 0 < p \<and> rg = page_range_new (frame_page p) ?k \<and>
         free_run (used_pages a) (total_pages a) ?k p"
    by (elim exE conjE) (simp split: result.splits, blast)
  then obtain p where p: "0 < p" "phys_inv a'" "buffer = \<lparr>buffer_pages = page_range_new (frame_page p) ?k\<rparr>"
      "free_run (used_pages a) (total_pages a) ?k p"
    using assms(4) by (cases r) (auto simp: allocate_zeroed_def allocate_zeroed_pages_def)
  have "p + ?k \<le> total_pages a" using p(4) by (simp add: free_run_def)
  then have "(p + ?k) * PAGE_SIZE \<le> total_pages a * PAGE_SIZE" by simp
  then have bound: "p * PAGE_SIZE + ?k * PAGE_SIZE \<le> 0x377777777777"
    using assms(2) unfolding phys_inv_def by (simp add: distrib_right)
  moreover have "buffer_len_bytes buffer = Inr (?k * PAGE_SIZE)"
    using bound by (simp add: p(3) buffer_len_bytes_def page_range_new_def frame_page_def usize_mul_def
        fits_usize_iff PAGE_SIZE_def)
  ultimately show ?thesis
    using p k by (auto simp: buffer_address_def page_range_new_def frame_page_def)
qed

text \<open>The descriptors of a request, given their physical addresses.\<close>
definition request_descs :: "u64 \<Rightarrow> u64 \<Rightarrow> u64 \<Rightarrow> raw_block_request \<Rightarrow> chained_descriptor list" where
  "request_descs h b st raw =
     [\<lparr>elem_addr = h, elem_len = 16, elem_flags = with_device_write False 0\<rparr>,
      \<lparr>elem_addr = b, elem_len = raw_data_len raw, elem_flags = with_device_write (request_type raw \<noteq> TypeOut) 0\<rparr>,
      \<lparr>elem_addr = st, elem_len = 1, elem_flags = with_device_write True 0\<rparr>]"

definition header_offset :: "raw_block_request \<Rightarrow> nat" where
  "header_offset raw = unat (raw_data_len raw) + unat (raw_data_len raw) mod 8"

text \<open>Requests that a 32-bit buffer size can hold, with their data.\<close>
definition request_fits :: "raw_block_request \<Rightarrow> u8 list option \<Rightarrow> bool" where
  "request_fits raw data \<longleftrightarrow> header_offset raw + 17 < 2 ^ 32 \<and>
     (case data of None \<Rightarrow> True | Some d \<Rightarrow> length d \<le> unat (raw_data_len raw))"

lemma request_offsets_ok:
  "header_offset raw + 17 < 2 ^ 32 \<Longrightarrow>
   request_offsets raw = Inr (header_offset raw, header_offset raw + 16, header_offset raw + 17)"
  by (simp add: request_offsets_def header_offset_def fits_u32_iff Let_def HEADER_ALIGN_def STATUS_ALIGN_def
      STATUS_SIZE_def add.assoc)

text \<open>The bytes of the buffer when the header and the status are in it.\<close>
lemma request_bytes:
  assumes "header_offset raw + 17 \<le> length bs"
  obtains bs2 bs3 where
    "try_write_bytes_offset request_header_layout bs (header_offset raw) (request_header raw) = Some bs2"
    "try_write_bytes_offset byte_layout_u8 bs2 (header_offset raw + 16) (status_number st) = Some bs3"
    "length bs3 = length bs" "decode request_header_layout (take 16 (drop (header_offset raw) bs3)) = request_header raw"
    "bs3 ! (header_offset raw + 16) = status_number st" "take (header_offset raw) bs3 = take (header_offset raw) bs"
proof -
  obtain bs2 where w2: "try_write_bytes_offset request_header_layout bs (header_offset raw) (request_header raw) = Some bs2"
    using assms req_header.write_total[of "header_offset raw" bs "request_header raw"] by auto
  note c2 = req_header.cast_after_write[OF TrueI w2]
  obtain bs3 where w3: "try_write_bytes_offset byte_layout_u8 bs2 (header_offset raw + 16) (status_number st) = Some bs3"
    using assms c2(2) one_byte.write_total[of "header_offset raw + 16" bs2 "status_number st"] by auto
  note c3 = one_byte.cast_after_write[OF TrueI w3]
  have "try_cast_bytes_ref_offset request_header_layout bs3 (header_offset raw) = Some (request_header raw)"
    using one_byte.cast_other[OF TrueI w3, of "header_offset raw" request_header_layout] c2(1) by simp
  then have hdr: "decode request_header_layout (take 16 (drop (header_offset raw) bs3)) = request_header raw"
    by (simp add: try_cast_bytes_ref_offset_def try_cast_bytes_ref_def split: if_splits)
  have "decode byte_layout_u8 (take 1 (drop (header_offset raw + 16) bs3)) = status_number st"
    using c3(1) by (simp add: try_cast_bytes_ref_offset_def try_cast_bytes_ref_def split: if_splits)
  moreover have "take 1 (drop (header_offset raw + 16) bs3) = [bs3 ! (header_offset raw + 16)]"
    using assms c2(2) c3(2) by (simp add: take_Suc_conv_app_nth)
  ultimately have "bs3 ! (header_offset raw + 16) = status_number st"
    by (simp add: byte_layout_u8_def u8_at_def bytes_at_def)
  moreover have "take (header_offset raw) bs3 = take (header_offset raw) bs"
    using c3(3) c2(3) by (metis le_add1 min.absorb1 take_take)
  ultimately show thesis using that[OF w2 w3] c2(2) c3(2) hdr by simp
qed

lemma to_descriptor_chain_ok:
  assumes x: "x86_64_spec x" and a: "phys_inv a" and fits: "request_fits raw data"
    and alloc: "allocate_zeroed x (header_offset raw + 17) (a, m) = Inr (Ok buffer, a', m')"
  obtains h b st haddr saddr bm' where
    "to_descriptor_chain x raw data ((a, m), bm) = Inr (request_descs h b st raw, buffer, (a', m'), bm')"
    "from_phys_addr h = Inr haddr" "from_phys_addr st = Inr saddr"
    "from_phys_addr b = Inr (buffer_address buffer)"
    "decode request_header_layout (get_bytes haddr 16 bm') = request_header raw"
    "bm' saddr = status_number (raw_status raw)" "saddr = haddr + 16"
    "\<forall>d. data = Some d \<longrightarrow> get_bytes (buffer_address buffer) (length d) bm' = d"
proof -
  let ?n = "div_ceil (header_offset raw + 17) PAGE_SIZE * PAGE_SIZE" and ?h = "header_offset raw"
  obtain p where p: "buffer_address buffer = frame_addr p" "buffer_len_bytes buffer = Inr ?n" "?h + 17 \<le> ?n"
    "p * PAGE_SIZE + ?n \<le> 0x377777777777"
    using allocate_zeroed_ok[OF x a _ alloc] by auto
  let ?d = "case data of None \<Rightarrow> [] | Some d \<Rightarrow> d"
  have dlen: "length ?d \<le> ?h" using fits by (auto simp: request_fits_def header_offset_def split: option.splits)
  define bs1 where "bs1 = overwrite 0 ?d (replicate ?n (0 :: u8))"
  have len1: "length bs1 = ?n" using dlen p(3) by (simp add: bs1_def)
  have copy: "copy_request_data raw data (replicate ?n 0) = Inr bs1"
    unfolding bs1_def using fits p(3)
    by (intro copy_request_data_ok) (auto simp: request_fits_def header_offset_def)
  obtain bs2 bs3 where bytes:
    "try_write_bytes_offset request_header_layout bs1 ?h (request_header raw) = Some bs2"
    "try_write_bytes_offset byte_layout_u8 bs2 (?h + 16) (status_number (raw_status raw)) = Some bs3"
    "length bs3 = length bs1" "decode request_header_layout (take 16 (drop ?h bs3)) = request_header raw"
    "bs3 ! (?h + 16) = status_number (raw_status raw)" "take ?h bs3 = take ?h bs1"
    using request_bytes[of raw bs1] len1 p(3) by metis
  have small: "length bs3 < 2 ^ 64" using p(4) bytes(3) len1 by simp
  let ?bm = "put_bytes (frame_addr p) bs3 bm"
  note off = frame_offset[OF x, of p]
  have o: "p * PAGE_SIZE + ?h \<le> 0x377777777777" "p * PAGE_SIZE + (?h + 16) \<le> 0x377777777777"
    "p * PAGE_SIZE + 0 \<le> 0x377777777777" using p(3,4) by simp_all
  have chain: "to_descriptor_chain x raw data ((a, m), bm) =
      Inr (request_descs (of_nat (p * PAGE_SIZE + ?h)) (of_nat (p * PAGE_SIZE + 0))
        (of_nat (p * PAGE_SIZE + (?h + 16))) raw, buffer, (a', m'), ?bm)"
    using fits alloc p copy bytes(1,2) off(1,2)[OF o(1)] off(1,2)[OF o(2)] off(2)[OF o(3)]
    by (simp add: to_descriptor_chain_def request_offsets_ok request_fits_def request_descs_def
        STATUS_SIZE_def del: of_nat_add of_nat_mult)
  have "get_bytes (frame_addr p + of_nat ?h) 16 ?bm = take 16 (drop ?h bs3)"
    using small bytes(3) len1 p(3) by (intro get_put_bytes) simp_all
  moreover have "?bm (frame_addr p + of_nat (?h + 16)) = bs3 ! (?h + 16)"
    using small bytes(3) len1 p(3) by (intro put_byte_at) simp_all
  moreover have "get_bytes (frame_addr p) (length d) ?bm = d" if "data = Some d" for d
  proof -
    have "take (length d) bs3 = take (length d) bs1"
      using bytes(6) dlen that by (metis min.absorb1 option.simps(5) take_take)
    then show ?thesis
      using get_put_bytes[OF small, of 0 "length d" "frame_addr p" bm] that bytes(3) len1 p(3) dlen
      by (simp add: bs1_def overwrite_def)
  qed
  ultimately show thesis
    using that[OF chain off(3)[OF o(1)] off(3)[OF o(2)]] off(3)[OF o(3)] bytes(4,5) p(1) by simp
qed

text \<open>Reading a request back from any chain that holds its descriptors, when the header in memory is
  its own and the status byte is a status.\<close>
lemma from_descriptor_chain_ok:
  assumes "chain_take 3 chain = Inr (link_elems (request_descs h b st raw), it)" "current_index it = None"
    and "from_phys_addr h = Inr haddr" "from_phys_addr st = Inr saddr"
    and "decode request_header_layout (get_bytes haddr 16 bm) = request_header raw"
    and "bm saddr = status_number status"
  shows "from_descriptor_chain bm chain = Inr (raw\<lparr>raw_status := status\<rparr>)"
proof -
  obtain it1 it2 where "chain_expect chain = Inr (link_elems (request_descs h b st raw) ! 0, it1)"
    "chain_expect it1 = Inr (link_elems (request_descs h b st raw) ! 1, it2)"
    "chain_expect it2 = Inr (link_elems (request_descs h b st raw) ! 2, it)"
    using assms(1)
    by (auto simp: eval_nat_numeral chain_expect_def run_facts link_elems_def request_descs_def split: option.splits)
  moreover have "chain_next it = Inr (None, it)" using assms(2) by (simp add: chain_next_def)
  moreover have "request_type raw = ty \<Longrightarrow> type_from_u32 (type_number ty) = Some ty" for ty
    by (rule req_type.round_trip)
  ultimately show ?thesis
    using assms(3-6) req_status.round_trip[of status]
    by (cases raw) (simp add: from_descriptor_chain_def link_elems_def request_descs_def request_header_def
        req_type.round_trip)
qed

section \<open>Requests are answered\<close>

text \<open>The answer to a request: what is sent, and whether the buffer goes back to the allocator.\<close>
definition answer ::
  "x86_64 \<Rightarrow> nat \<Rightarrow> block_request \<Rightarrow> u32 \<Rightarrow> block_desc_data \<Rightarrow> 'm block_env \<Rightarrow> 'm block_env outcome" where
  "answer x c request data_len d env = (case request of
     ReadRequest _ _ \<Rightarrow> send_response c (desc_sender d) (ReadResponse (desc_buffer d) (unat data_len)) env
   | WriteRequest _ _ \<Rightarrow>
       and_then (send_response c (desc_sender d) WriteResponse env) (drop_request_buffer x (desc_buffer d))
   | GetIDRequest \<Rightarrow>
       and_then (c_str_from_pointer (get_bytes (buffer_address (desc_buffer d)) (unat data_len) (env_bytes env))
                   (unat data_len)) (\<lambda>str.
       and_then (send_response c (desc_sender d) (GetIDResponse str) env) (drop_request_buffer x (desc_buffer d))))"

text \<open>The device's part: it leaves the header alone and writes a status.\<close>
definition device_writes_status ::
  "chained_descriptor list \<Rightarrow> block_request_status \<Rightarrow> byte_memory \<Rightarrow> byte_memory \<Rightarrow> bool" where
  "device_writes_status descs status bm bm' \<longleftrightarrow>
     (case descs of [h, b, st] \<Rightarrow>
        (case (from_phys_addr (elem_addr h), from_phys_addr (elem_addr st)) of
           (Inr haddr, Inr saddr) \<Rightarrow> get_bytes haddr 16 bm' = get_bytes haddr 16 bm \<and> bm' saddr = status_number status
         | _ \<Rightarrow> False)
      | _ \<Rightarrow> False)"

lemma request_descs_flags:
  "\<forall>d\<in>set (request_descs h b st raw). \<not> flag_indirect (elem_flags d)"
  "\<not> flag_next (elem_flags (last (request_descs h b st raw)))"
  "length (request_descs h b st raw) = 3" "request_descs h b st raw \<noteq> []"
  by (simp_all add: request_descs_def flag_indirect_def flag_next_def with_device_write_def bit_set_bit_iff
      bit_unset_bit_iff)

lemma desc_index_of_nat:
  "i < 2 ^ 16 \<Longrightarrow> desc_index \<lparr>used_id = of_nat i, used_len = n\<rparr> = Inr (of_nat i)"
proof -
  assume "i < 2 ^ 16"
  then have "unat (of_nat i :: u32) = i" "ucast (of_nat i :: u32) = (of_nat i :: u16)"
    by (simp_all add: unat_of_nat unsigned_of_nat take_bit_nat_eq_self)
  then show ?thesis using \<open>i < 2 ^ 16\<close> by (simp add: desc_index_def)
qed

text \<open>What the handler does with the one entry of a request whose chain reads back.\<close>
lemma block_used_entry_answers:
  assumes "from_descriptor_chain (env_bytes env) chain = Inr (raw\<lparr>raw_status := status\<rparr>)"
    and "to_raw request = Inr raw" "whole_sectors request"
  shows "block_used_entry x c e chain (Some d) env =
    (if status = StatusOk then answer x c request (raw_data_len raw) d env else Inl AssertFailed)"
  using assms from_raw_round_trip[OF assms(2,3), of status]
  by (cases request) (simp_all add: block_used_entry_def answer_def)

lemma notify_after_add:
  assumes "add_buffer ds d vq = Inr vq'"
  shows "data_notify_device vq' = data_notify_device vq"
  using assms by (auto simp: add_buffer_def run_facts data_notify_device_def notify_device_def)

text \<open>The handler on a queue whose only new entry is a request's.\<close>
lemma interrupt_one_entry:
  assumes inv: "virtqueue_inv dev" "last_processed_used_index (data_queue dev) = used_idx (queue_used (data_queue dev))"
    "unat (used_idx (queue_used (data_queue dev))) + 1 < 2 ^ 16"
    and i: "i < length (entry_data dev)" "entry_data dev ! i = Some d"
    and entry: "block_used_entry x c \<lparr>used_id = of_nat i, used_len = len\<rparr>
      (chain_new (queue_table (data_queue dev)) (of_nat i)) (Some d) env = r"
  shows "\<exists>dev'. entry_data dev' = (entry_data dev)[i := None] \<and>
    virtio_block_interrupt x c 0 ([device_completes [\<lparr>used_id = of_nat i, used_len = len\<rparr>] dev], env) =
      and_then r (\<lambda>env'. Inr ((), [dev'], env'))"
proof -
  let ?e = "\<lparr>used_id = of_nat i, used_len = len\<rparr> :: used_elem"
  have n: "ring_size (length (entry_data dev))" using inv(1) by (simp add: virtqueue_inv_def Let_def)
  have small: "i < 2 ^ 16" "unat (of_nat i :: u16) = i"
    using i(1) ring_size_bounds[OF n] by (simp_all add: unat_of_nat)
  have len: "length [?e] \<le> length (entry_data dev)" using i(1) by simp
  have "deliver (block_used_entry x c) (queue_table (data_queue dev)) ?e (entry_data dev, env) =
      and_then r (\<lambda>env'. Inr ((entry_data dev)[i := None], env'))"
    using i small by (simp add: deliver_def take_data_entry_def desc_index_of_nat entry)
  moreover have "\<exists>dev' :: block_device. entry_data dev' = (entry_data dev)[i := None]"
    by (rule exI[of _ "dev\<lparr>entry_data := (entry_data dev)[i := None]\<rparr>"]) simp
  ultimately show ?thesis
    using process_data_completed[OF inv(1) len inv(2), of "block_used_entry x c" env] inv(3)
    by (cases r) (auto simp: virtio_block_interrupt_def with_device_def Let_def)
qed


section \<open>An example\<close>

definition example_env :: "nat block_env" where
  "example_env = \<lparr>env_alloc = (small_allocator, \<lambda>_. None), env_bytes = (\<lambda>_. 0), env_channels = [],
     env_sched = example_start, env_notified = []\<rparr>"

lemma example_allocates:
  "\<exists>buffer a' m'. allocate_zeroed x86_64_example 529 (small_allocator, m) = Inr (Ok buffer, a', m')"
proof -
  have k: "div_ceil 529 PAGE_SIZE = 1" by (simp add: div_ceil_def PAGE_SIZE_def)
  have "\<not> page_used small_allocator 64" by code_simp
  moreover have "total_pages small_allocator = 128"
    by (simp add: small_allocator_def new_allocator_def total_pages_def bits_per_chunk_def)
  ultimately have run: "free_run (used_pages small_allocator) (total_pages small_allocator) 1 64"
    by (simp add: free_run_def used_pages_def atLeastLessThanSuc_atLeastAtMost[of 64 64, simplified])
  obtain r a' where r: "allocate_pages x86_64_example 1 small_allocator = Inr (r, a')"
    "case r of Err e \<Rightarrow> \<forall>s. \<not> free_run (used_pages small_allocator) (total_pages small_allocator) 1 s | Ok _ \<Rightarrow> True"
    using allocate_pages_spec[OF x86_64_example_spec small_allocator_inv zero_less_one]
    by (elim exE conjE) (rule that, assumption, simp split: result.splits)
  with run show ?thesis by (cases r) (auto simp: allocate_zeroed_def allocate_zeroed_pages_def k)
qed

lemma example_idle:
  "last_processed_used_index (data_queue (example_queue u)) = u" "used_idx (queue_used (data_queue (example_queue u))) = u"
  by (simp_all add: example_queue_def queue_data_new_def)

lemma example_request:
  "env_alloc example_env = (small_allocator, \<lambda>_. None)" "env_channels example_env = []"
  "header_offset (raw_request_new TypeIn 5 512) = 512" "raw_data_len (raw_request_new TypeIn 5 512) = 512"
  "whole_sectors (ReadRequest 5 1)" "request_fits (raw_request_new TypeIn 5 512) None"
  by (simp_all add: example_env_def header_offset_def raw_request_new_def whole_sectors_def request_fits_def)


end
