(* ===== verification/Bitfields.thy ===== *)
theory Bitfields
  imports Prelude
begin

text \<open>
  Fields of device registers. The `bitfield_struct` macros lay the fields of a
  struct out from the lowest bit on; reading a field of \<open>n\<close> bits at position
  \<open>off\<close> and setting it are the two functions below. A boolean field is a field of one
  bit.
\<close>

definition field_get :: "nat \<Rightarrow> nat \<Rightarrow> 'a::len word \<Rightarrow> 'a word" where
  "field_get off n w = take_bit n (drop_bit off w)"

definition field_set :: "nat \<Rightarrow> nat \<Rightarrow> 'a::len word \<Rightarrow> 'a word \<Rightarrow> 'a word" where
  "field_set off n v w = (w AND NOT (push_bit off (mask n))) OR push_bit off (take_bit n v)"

definition flag_get :: "nat \<Rightarrow> 'a::len word \<Rightarrow> bool" where
  "flag_get off w = bit w off"

definition flag_set :: "nat \<Rightarrow> bool \<Rightarrow> 'a::len word \<Rightarrow> 'a word" where
  "flag_set off b w = (if b then set_bit off w else unset_bit off w)"

lemma bit_field_set:
  fixes w :: "'a::len word"
  shows "bit (field_set off n v w) k \<longleftrightarrow>
    (if off \<le> k \<and> k < off + n then k < LENGTH('a) \<and> bit v (k - off) else bit w k)"
  by (auto simp: field_set_def bit_simps not_le dest: bit_imp_le_length)

lemma bit_field_get:
  fixes w :: "'a::len word"
  shows "bit (field_get off n w) k \<longleftrightarrow> k < n \<and> bit w (off + k)"
  by (auto simp: field_get_def bit_simps dest: bit_imp_le_length)

lemma bit_flag_set:
  fixes w :: "'a::len word"
  shows "bit (flag_set off b w) k \<longleftrightarrow> (if k = off then k < LENGTH('a) \<and> b else bit w k)"
  by (auto simp: flag_set_def bit_simps dest: bit_imp_le_length)

text \<open>A field that was set is read back, cut to its width; other fields do not see it.\<close>
lemma field_get_set [simp]:
  fixes w :: "'a::len word"
  assumes "off + n \<le> LENGTH('a)"
  shows "field_get off n (field_set off n v w) = take_bit n v"
  by (rule bit_word_eqI) (use assms in \<open>auto simp: bit_field_get bit_field_set bit_simps\<close>)

lemma field_get_set_other:
  assumes "off + n \<le> off' \<or> off' + n' \<le> off"
  shows "field_get off' n' (field_set off n v w) = field_get off' n' w"
  by (rule bit_word_eqI) (use assms in \<open>auto simp: bit_field_get bit_field_set\<close>)

lemma field_get_flag_set:
  assumes "k < off \<or> off + n \<le> k"
  shows "field_get off n (flag_set k b w) = field_get off n w"
  by (rule bit_word_eqI) (use assms in \<open>auto simp: bit_field_get bit_flag_set\<close>)

lemma flag_get_set [simp]:
  fixes w :: "'a::len word"
  assumes "off < LENGTH('a)"
  shows "flag_get off (flag_set off b w) = b"
  using assms by (simp add: flag_get_def bit_flag_set)

lemma flag_get_set_other:
  "k \<noteq> off \<Longrightarrow> flag_get k (flag_set off b w) = flag_get k w"
  "k < off \<or> off + n \<le> k \<Longrightarrow> flag_get k (field_set off n v w) = flag_get k w"
  by (auto simp: flag_get_def bit_flag_set bit_field_set)

end
