(* ===== verification/Interrupts.thy ===== *)
theory Interrupts
  imports Scheduler
begin

text \<open>
  External interrupts: kernel/src/interrupts.rs. The table of handlers and the next
  free vector are one state; a handler is a name whose effect \<open>run\<close> is a parameter.
  The segment base registers that `swapgs` exchanges are explicit.
\<close>

section \<open>Vectors and handlers\<close>

definition FIRST_EXTERNAL_INTERRUPT_VECTOR :: nat where "FIRST_EXTERNAL_INTERRUPT_VECTOR = 32"
definition NUM_INTERRUPT_VECTORS :: nat where "NUM_INTERRUPT_VECTORS = 256"
definition MASTER_PIC_OFFSET :: u8 where "MASTER_PIC_OFFSET = of_nat FIRST_EXTERNAL_INTERRUPT_VECTOR"
definition SLAVE_PIC_OFFSET :: u8 where "SLAVE_PIC_OFFSET = MASTER_PIC_OFFSET + 8"
definition APIC_INTERRUPT_START_OFFSET :: u8 where "APIC_INTERRUPT_START_OFFSET = SLAVE_PIC_OFFSET + 8"
definition SPURIOUS_INTERRUPT_VECTOR_INDEX :: u8 where "SPURIOUS_INTERRUPT_VECTOR_INDEX = 0xFF"

datatype reserved_vector = CPUTick | LastReserved

fun reserved_number :: "reserved_vector \<Rightarrow> u8" where
  "reserved_number CPUTick = APIC_INTERRUPT_START_OFFSET"
| "reserved_number LastReserved = APIC_INTERRUPT_START_OFFSET + 1"

lemmas vector_defs = FIRST_EXTERNAL_INTERRUPT_VECTOR_def NUM_INTERRUPT_VECTORS_def MASTER_PIC_OFFSET_def
  SLAVE_PIC_OFFSET_def APIC_INTERRUPT_START_OFFSET_def SPURIOUS_INTERRUPT_VECTOR_INDEX_def

text \<open>An entry of the table is the default handler, which panics, or an installed one.\<close>
record 'h interrupt_table =
  next_open_index :: u8
  external_handlers :: "(u32 \<times> 'h option) list"

definition interrupt_table_start :: "'h interrupt_table" where
  "interrupt_table_start =
     \<lparr>next_open_index = reserved_number LastReserved, external_handlers = replicate NUM_INTERRUPT_VECTORS (0, None)\<rparr>"

definition install_interrupt ::
  "u8 option \<Rightarrow> u32 \<Rightarrow> 'h \<Rightarrow> 'h interrupt_table \<Rightarrow> (u8 \<times> 'h interrupt_table) outcome" where
  "install_interrupt vector interrupt_id handler t =
     (let (v, t1) = (case vector of
            Some v \<Rightarrow> (v, t)
          | None \<Rightarrow> (next_open_index t, t\<lparr>next_open_index := next_open_index t + 1\<rparr>))
      in
      and_then (assert_that (v < SPURIOUS_INTERRUPT_VECTOR_INDEX)) (\<lambda>_.
      if unat v < length (external_handlers t1)
      then Inr (v, t1\<lparr>external_handlers := (external_handlers t1)[unat v := (interrupt_id, Some handler)]\<rparr>)
      else Inl IndexOutOfBounds))"

definition install_interrupt_next_vector ::
  "u32 \<Rightarrow> 'h \<Rightarrow> 'h interrupt_table \<Rightarrow> (u8 \<times> 'h interrupt_table) outcome" where
  "install_interrupt_next_vector = install_interrupt None"

definition install_interrupt_reserved_vector ::
  "reserved_vector \<Rightarrow> u32 \<Rightarrow> 'h \<Rightarrow> 'h interrupt_table \<Rightarrow> 'h interrupt_table outcome" where
  "install_interrupt_reserved_vector r interrupt_id handler t =
     and_then (install_interrupt (Some (reserved_number r)) interrupt_id handler t) (\<lambda>(_, t'). Inr t')"

section \<open>Segment bases\<close>

record gs_bases =
  gs_base :: u64
  kernel_gs_base :: u64

definition swapgs :: "gs_bases \<Rightarrow> gs_bases" where
  "swapgs g = \<lparr>gs_base = kernel_gs_base g, kernel_gs_base = gs_base g\<rparr>"

definition gsbase_is_kernel :: "gs_bases \<Rightarrow> bool" where
  "gsbase_is_kernel g \<longleftrightarrow> higher_half_start \<le> gs_base g"

definition with_swapgs_accounting ::
  "(gs_bases \<times> 's \<Rightarrow> (gs_bases \<times> 's) outcome) \<Rightarrow> gs_bases \<times> 's \<Rightarrow> (gs_bases \<times> 's) outcome" where
  "with_swapgs_accounting f st =
     (let (g, s) = st; came_from_kernel = gsbase_is_kernel g; g1 = (if came_from_kernel then g else swapgs g) in
      and_then (f (g1, s)) (\<lambda>(g2, s').
      Inr (if came_from_kernel then g2 else swapgs g2, s')))"

section \<open>Dispatch\<close>

text \<open>The effects behind the handlers: the handler functions, the end of interrupt, and the
  scheduler.\<close>
record ('h, 's) interrupt_effects =
  run_handler :: "'h \<Rightarrow> u8 \<Rightarrow> u32 \<Rightarrow> 's \<Rightarrow> 's outcome"
  end_of_interrupt :: "'s \<Rightarrow> 's"
  reschedule :: "'s \<Rightarrow> 's outcome"

definition common_external_interrupt_handler ::
  "('h, 's) interrupt_effects \<Rightarrow> 'h interrupt_table \<Rightarrow> u8 \<Rightarrow> gs_bases \<times> 's \<Rightarrow> (gs_bases \<times> 's) outcome" where
  "common_external_interrupt_handler ef t vector =
     with_swapgs_accounting (\<lambda>(g, s).
       and_then (if unat vector < length (external_handlers t) then Inr (external_handlers t ! unat vector)
                 else Inl ExpectFailed) (\<lambda>(interrupt_id, handler).
       and_then (case handler of
                   None \<Rightarrow> Inl ExplicitPanic
                 | Some h \<Rightarrow> run_handler ef h vector interrupt_id s) (\<lambda>s1.
       and_then (reschedule ef (end_of_interrupt ef s1)) (\<lambda>s2. Inr (g, s2)))))"

text \<open>A series of installations of handlers for the next vectors.\<close>
fun install_all :: "(u32 \<times> 'h) list \<Rightarrow> 'h interrupt_table \<Rightarrow> (u8 list \<times> 'h interrupt_table) outcome" where
  "install_all [] t = Inr ([], t)"
| "install_all ((i, h) # hs) t =
     and_then (install_interrupt_next_vector i h t) (\<lambda>(v, t1).
     and_then (install_all hs t1) (\<lambda>(vs, t2). Inr (v # vs, t2)))"

section \<open>Vectors are handed out once\<close>

definition table_inv :: "'h interrupt_table \<Rightarrow> bool" where
  "table_inv t \<longleftrightarrow> length (external_handlers t) = NUM_INTERRUPT_VECTORS"

lemma install_next:
  assumes "table_inv t"
  shows "install_interrupt_next_vector i h t =
    (if next_open_index t < 0xFF
     then Inr (next_open_index t, \<lparr>next_open_index = next_open_index t + 1,
       external_handlers = (external_handlers t)[unat (next_open_index t) := (i, Some h)]\<rparr>)
     else Inl AssertFailed)"
  using assms unsigned_less[of "next_open_index t", where 'a = nat]
  by (cases t) (simp add: install_interrupt_next_vector_def install_interrupt_def table_inv_def vector_defs
      assert_that_def)

lemma install_all_spec:
  assumes "table_inv t" "unat (next_open_index t) + length hs \<le> 0xFF"
  shows "\<exists>t'. install_all hs t =
      Inr (map of_nat [unat (next_open_index t) ..< unat (next_open_index t) + length hs], t') \<and>
    table_inv t' \<and> unat (next_open_index t') = unat (next_open_index t) + length hs \<and>
    (\<forall>j<length hs. external_handlers t' ! (unat (next_open_index t) + j) = (fst (hs ! j), Some (snd (hs ! j)))) \<and>
    (\<forall>k<unat (next_open_index t). external_handlers t' ! k = external_handlers t ! k)"
  using assms
proof (induction hs arbitrary: t)
  case (Cons ih hs)
  obtain i h where ih: "ih = (i, h)" by (cases ih)
  let ?n = "unat (next_open_index t)"
  let ?t1 = "\<lparr>next_open_index = next_open_index t + 1, external_handlers = (external_handlers t)[?n := (i, Some h)]\<rparr>"
  have lt: "next_open_index t < 0xFF" using Cons.prems(2) by (simp add: word_less_nat_alt)
  have n1: "unat (next_open_index ?t1) = Suc ?n"
    using Cons.prems(2) by (simp add: unat_plus_if_size word_size)
  have inv1: "table_inv ?t1" using Cons.prems(1) by (simp add: table_inv_def)
  from Cons.IH[OF inv1] n1 Cons.prems(2) obtain t' where t': "install_all hs ?t1 =
      Inr (map of_nat [Suc ?n ..< Suc ?n + length hs], t')" "table_inv t'"
      "unat (next_open_index t') = Suc ?n + length hs"
      "\<forall>j<length hs. external_handlers t' ! (Suc ?n + j) = (fst (hs ! j), Some (snd (hs ! j)))"
      "\<forall>k<Suc ?n. external_handlers t' ! k = external_handlers ?t1 ! k" by auto
  have "?n < length (external_handlers t)"
    using Cons.prems by (simp add: table_inv_def NUM_INTERRUPT_VECTORS_def)
  then have "external_handlers t' ! ?n = (i, Some h)" using t'(5) by simp
  then have all: "\<forall>j<length (ih # hs). external_handlers t' ! (?n + j) =
      (fst ((ih # hs) ! j), Some (snd ((ih # hs) ! j)))"
    using t'(4) ih by (auto simp: less_Suc_eq_0_disj nth_Cons')
  have "[?n ..< ?n + length (ih # hs)] = ?n # [Suc ?n ..< Suc ?n + length hs]"
    by (subst upt_conv_Cons) simp_all
  then have "install_all (ih # hs) t = Inr (map of_nat [?n ..< ?n + length (ih # hs)], t')"
    using t'(1) lt by (simp add: ih install_next[OF Cons.prems(1)] del: upt_Suc)
  then show ?case using t' all by (intro exI[of _ t']) (simp add: ih)
qed (simp add: table_inv_def)

lemma install_all_append:
  "install_all (hs @ hs') t =
     and_then (install_all hs t) (\<lambda>(vs, t1).
     and_then (install_all hs' t1) (\<lambda>(vs', t2). Inr (vs @ vs', t2)))"
proof (induction hs arbitrary: t)
  case Nil
  then show ?case by (cases "install_all hs' t") auto
next
  case (Cons ih hs)
  show ?case
  proof (cases "install_interrupt_next_vector (fst ih) (snd ih) t")
    case (Inr r)
    then show ?thesis
      using Cons.IH[of "snd r"] by (cases ih; cases "install_all hs (snd r)"; cases r) (auto simp: and_then_assoc
          split: prod.split intro!: and_then_cong)
  qed (cases ih, simp)
qed

text \<open>C36: Handlers installed one after another from boot on get consecutive vectors from 49 on, all
  above the vectors of processor exceptions, of the legacy interrupt controller and of the tick, and
  below the spurious vector 255; each vector then leads to its own handler with its own number,
  and no two handlers share one. There are 206 vectors: with more handlers the kernel panics
  instead of reusing a vector.\<close>
theorem interrupt_vectors_handed_out_once:
  "if length hs \<le> 206
   then \<exists>t. install_all hs interrupt_table_start = Inr (map of_nat [49 ..< 49 + length hs], t) \<and>
     (\<forall>j<length hs. external_handlers t ! (49 + j) = (fst (hs ! j), Some (snd (hs ! j)))) \<and>
     (\<forall>k<49. external_handlers t ! k = (0, None)) \<and> distinct (map (of_nat :: nat \<Rightarrow> u8) [49 ..< 49 + length hs])
   else install_all hs interrupt_table_start = Inl AssertFailed"
proof -
  let ?t = "interrupt_table_start :: 'a interrupt_table"
  have start: "table_inv ?t" "unat (next_open_index ?t) = 49"
    by (simp_all add: table_inv_def interrupt_table_start_def vector_defs)
  show ?thesis
  proof (cases "length hs \<le> 206")
    case True
    then have "inj_on (of_nat :: nat \<Rightarrow> u8) (set [49 ..< 49 + length hs])"
      by (auto intro!: inj_onI simp: word_unat_eq_iff unat_of_nat)
    moreover have "\<forall>k<49. external_handlers ?t ! k = (0, None)"
      by (simp add: interrupt_table_start_def vector_defs)
    ultimately show ?thesis
      using install_all_spec[OF start(1), of hs] True start(2) by (auto simp: distinct_map)
  next
    case False
    define hs1 hs2 where "hs1 = take 206 hs" and "hs2 = drop 206 hs"
    have hs: "hs = hs1 @ hs2" "length hs1 = 206" "hs2 \<noteq> []" using False by (auto simp: hs1_def hs2_def)
    from install_all_spec[OF start(1), of hs1] start(2) hs(2) obtain vs t where
      t: "install_all hs1 ?t = Inr (vs, t)" "table_inv t" "unat (next_open_index t) = 255" by auto
    have "next_open_index t = 0xFF" using t(3) by (simp add: word_unat_eq_iff)
    moreover obtain i h hs3 where "hs2 = (i, h) # hs3" using hs(3) by (cases hs2) auto
    ultimately have "install_all hs2 t = Inl AssertFailed" by (simp add: install_next[OF t(2)])
    then show ?thesis using False t(1) by (simp add: hs(1) install_all_append)
  qed
qed

theorem interrupt_vectors_handed_out_once_witness:
  "\<exists>t. install_all [(3, True), (4, False)] interrupt_table_start = Inr ([49, 50], t) \<and>
     external_handlers t ! 49 = (3, Some True) \<and> external_handlers t ! 50 = (4, Some False) \<and>
     external_handlers t ! 48 = (0, None)"
proof -
  have "[49 ..< 51] = [49, 50 :: nat]" by (simp add: upt_rec)
  then show ?thesis
    using interrupt_vectors_handed_out_once[of "[(3, True), (4, False)]"] by (auto simp: less_Suc_eq)
qed

text \<open>The body of an interrupt handler runs with the kernel's base.\<close>
lemma with_swapgs_kernel:
  assumes "gsbase_is_kernel g \<or> gsbase_is_kernel (swapgs g)"
  shows "\<exists>g1. gsbase_is_kernel g1 \<and> g1 \<in> {g, swapgs g} \<and> with_swapgs_accounting f (g, s) =
    and_then (f (g1, s)) (\<lambda>(g2, s'). Inr (if g1 = g then g2 else swapgs g2, s'))"
proof (cases "gsbase_is_kernel g")
  case True
  then show ?thesis by (intro exI[of _ g]) (simp add: with_swapgs_accounting_def)
next
  case False
  then have "swapgs g \<noteq> g" using assms by auto
  with False assms show ?thesis by (intro exI[of _ "swapgs g"]) (simp add: with_swapgs_accounting_def)
qed

lemma swapgs_swapgs [simp]: "swapgs (swapgs g) = g"
  by (simp add: swapgs_def)


text \<open>A system in which handler 7, installed for vector 49, counts.\<close>
definition counting_effects :: "(nat, nat) interrupt_effects" where
  "counting_effects = \<lparr>run_handler = (\<lambda>h v i s. Inr (s + h + unat i)), end_of_interrupt = id, reschedule = Inr\<rparr>"


end
