(* ===== verification/Apic.thy ===== *)
theory Apic
  imports Bitfields Interrupts
begin

text \<open>
  Interrupt controllers: kernel/src/apic.rs and kernel/src/ioapic.rs. The registers of the
  local APIC that the kernel uses are a record of their values; an access to the I/O
  APIC goes through its select and window registers. A write of the interrupt
  command register is an interrupt sent.
\<close>

section \<open>The local APIC\<close>

datatype delivery_mode = Fixed | LowestPriority1 | SMI | Reserved1 | NMI | INIT | StartUp | Reserved2

fun delivery_mode_number :: "delivery_mode \<Rightarrow> u32" where
  "delivery_mode_number Fixed = 0b000"
| "delivery_mode_number LowestPriority1 = 0b001"
| "delivery_mode_number SMI = 0b010"
| "delivery_mode_number Reserved1 = 0b011"
| "delivery_mode_number NMI = 0b100"
| "delivery_mode_number INIT = 0b101"
| "delivery_mode_number StartUp = 0b110"
| "delivery_mode_number Reserved2 = 0b111"

definition delivery_mode_from :: "u32 \<Rightarrow> delivery_mode outcome" where
  "delivery_mode_from v =
     (case find (\<lambda>m. v = delivery_mode_number m)
             [Fixed, LowestPriority1, SMI, Reserved1, NMI, INIT, StartUp, Reserved2] of
        Some m \<Rightarrow> Inr m | None \<Rightarrow> Inl ExplicitPanic)"

datatype destination_mode = Physical | Logical

fun destination_mode_number :: "destination_mode \<Rightarrow> u32" where
  "destination_mode_number Physical = 0"
| "destination_mode_number Logical = 1"

definition destination_mode_from :: "u32 \<Rightarrow> destination_mode outcome" where
  "destination_mode_from v =
     (case find (\<lambda>m. v = destination_mode_number m) [Physical, Logical] of
        Some m \<Rightarrow> Inr m | None \<Rightarrow> Inl ExplicitPanic)"

datatype delivery_status = Idle | Pending

fun delivery_status_number :: "delivery_status \<Rightarrow> u32" where
  "delivery_status_number Idle = 0"
| "delivery_status_number Pending = 1"

definition delivery_status_from :: "u32 \<Rightarrow> delivery_status outcome" where
  "delivery_status_from v =
     (case find (\<lambda>m. v = delivery_status_number m) [Idle, Pending] of
        Some m \<Rightarrow> Inr m | None \<Rightarrow> Inl ExplicitPanic)"

datatype command_level = DeAssert | Assert

fun command_level_number :: "command_level \<Rightarrow> u32" where
  "command_level_number DeAssert = 0"
| "command_level_number Assert = 1"

definition command_level_from :: "u32 \<Rightarrow> command_level outcome" where
  "command_level_from v =
     (case find (\<lambda>m. v = command_level_number m) [DeAssert, Assert] of
        Some m \<Rightarrow> Inr m | None \<Rightarrow> Inl ExplicitPanic)"

datatype trigger_mode = Edge | Level

fun trigger_mode_number :: "trigger_mode \<Rightarrow> u32" where
  "trigger_mode_number Edge = 0"
| "trigger_mode_number Level = 1"

definition trigger_mode_from :: "u32 \<Rightarrow> trigger_mode outcome" where
  "trigger_mode_from v =
     (case find (\<lambda>m. v = trigger_mode_number m) [Edge, Level] of
        Some m \<Rightarrow> Inr m | None \<Rightarrow> Inl ExplicitPanic)"

datatype shorthand = NoShorthand | DestSelf | AllIncludingSelf | AllExcludingSelf

fun shorthand_number :: "shorthand \<Rightarrow> u32" where
  "shorthand_number NoShorthand = 0b00"
| "shorthand_number DestSelf = 0b01"
| "shorthand_number AllIncludingSelf = 0b10"
| "shorthand_number AllExcludingSelf = 0b11"

definition shorthand_from :: "u32 \<Rightarrow> shorthand outcome" where
  "shorthand_from v =
     (case find (\<lambda>m. v = shorthand_number m) [NoShorthand, DestSelf, AllIncludingSelf, AllExcludingSelf] of
        Some m \<Rightarrow> Inr m | None \<Rightarrow> Inl ExplicitPanic)"

text \<open>The fields of `InterruptCommandLowBits`: vector 0 to 7, delivery mode 8 to 10, destination
  mode 11, delivery status 12, level 14, trigger mode 15, shorthand 18 and 19.\<close>
record command_fields =
  command_vector :: u8
  command_delivery :: delivery_mode
  command_destination :: destination_mode
  command_status :: delivery_status
  command_lvl :: command_level
  command_trigger :: trigger_mode
  command_shorthand :: shorthand

definition command_low_bits :: "command_fields \<Rightarrow> u32" where
  "command_low_bits f =
     field_set 18 2 (shorthand_number (command_shorthand f))
     (field_set 15 1 (trigger_mode_number (command_trigger f))
     (field_set 14 1 (command_level_number (command_lvl f))
     (field_set 12 1 (delivery_status_number (command_status f))
     (field_set 11 1 (destination_mode_number (command_destination f))
     (field_set 8 3 (delivery_mode_number (command_delivery f))
     (field_set 0 8 (ucast (command_vector f)) 0))))))"

definition command_from_bits :: "u32 \<Rightarrow> command_fields outcome" where
  "command_from_bits w =
     and_then (delivery_mode_from (field_get 8 3 w)) (\<lambda>dm.
     and_then (destination_mode_from (field_get 11 1 w)) (\<lambda>de.
     and_then (delivery_status_from (field_get 12 1 w)) (\<lambda>st.
     and_then (command_level_from (field_get 14 1 w)) (\<lambda>lv.
     and_then (trigger_mode_from (field_get 15 1 w)) (\<lambda>tr.
     and_then (shorthand_from (field_get 18 2 w)) (\<lambda>sh.
     Inr \<lparr>command_vector = ucast (field_get 0 8 w), command_delivery = dm, command_destination = de,
          command_status = st, command_lvl = lv, command_trigger = tr, command_shorthand = sh\<rparr>))))))"

record local_apic =
  apic_id_register :: u32
  spurious_interrupt_vector :: u32
  end_of_interrupt_writes :: "u32 list"
  interrupt_commands :: "u32 list"

text \<open>`LOCAL_APIC.get().expect(..)` in front of every operation.\<close>
definition with_local_apic :: "(local_apic \<Rightarrow> 'r \<times> local_apic) \<Rightarrow> local_apic option \<Rightarrow> ('r \<times> local_apic option) outcome" where
  "with_local_apic f m = (case m of None \<Rightarrow> Inl ExpectFailed | Some a \<Rightarrow> Inr (map_prod id Some (f a)))"

definition apic_enable :: "local_apic \<Rightarrow> local_apic" where
  "apic_enable a = a\<lparr>spurious_interrupt_vector :=
     flag_set 8 True (field_set 0 8 (ucast SPURIOUS_INTERRUPT_VECTOR_INDEX) (spurious_interrupt_vector a))\<rparr>"

definition apic_per_cpu_init :: "local_apic option \<Rightarrow> (unit \<times> local_apic option) outcome" where
  "apic_per_cpu_init = with_local_apic (\<lambda>a. ((), apic_enable a))"

definition apic_end_of_interrupt :: "local_apic option \<Rightarrow> (unit \<times> local_apic option) outcome" where
  "apic_end_of_interrupt =
     with_local_apic (\<lambda>a. ((), a\<lparr>end_of_interrupt_writes := end_of_interrupt_writes a @ [0]\<rparr>))"

definition lapic_id :: "local_apic option \<Rightarrow> (u8 \<times> local_apic option) outcome" where
  "lapic_id = with_local_apic (\<lambda>a. (ucast (field_get 24 8 (apic_id_register a)), a))"

definition send_ipi_all_cpus :: "u8 \<Rightarrow> local_apic option \<Rightarrow> (unit \<times> local_apic option) outcome" where
  "send_ipi_all_cpus vector =
     with_local_apic (\<lambda>a. ((), a\<lparr>interrupt_commands := interrupt_commands a @
       [command_low_bits \<lparr>command_vector = vector, command_delivery = Fixed, command_destination = Logical,
          command_status = Idle, command_lvl = Assert, command_trigger = Edge,
          command_shorthand = AllIncludingSelf\<rparr>]\<rparr>))"

section \<open>The I/O APIC\<close>

datatype irq_number = ReservedIRQ | Keyboard | Tick

fun irq_code :: "irq_number \<Rightarrow> u8" where
  "irq_code ReservedIRQ = 0"
| "irq_code Keyboard = 1"
| "irq_code Tick = 9"

text \<open>The device behind the select and window registers.\<close>
record ioapic =
  io_register_select :: u8
  io_registers :: "u8 \<Rightarrow> u32"

definition read_32_bit_register :: "u8 \<Rightarrow> ioapic \<Rightarrow> u32 \<times> ioapic" where
  "read_32_bit_register r d = (let d1 = d\<lparr>io_register_select := r\<rparr> in (io_registers d1 (io_register_select d1), d1))"

definition u8_inc :: "u8 \<Rightarrow> u8 outcome" where
  "u8_inc r = (if r = 0xFF then Inl Overflow else Inr (r + 1))"

definition read_64_bit_register :: "u8 \<Rightarrow> ioapic \<Rightarrow> (u64 \<times> ioapic) outcome" where
  "read_64_bit_register r d =
     (let (low, d1) = read_32_bit_register r d in
      and_then (u8_inc r) (\<lambda>r1.
      let (high, d2) = read_32_bit_register r1 d1 in
      Inr (push_bit 32 (ucast high) OR ucast low, d2)))"

definition write_32_bit_register :: "u8 \<Rightarrow> u32 \<Rightarrow> ioapic \<Rightarrow> ioapic" where
  "write_32_bit_register r v d =
     (let d1 = d\<lparr>io_register_select := r\<rparr> in
      d1\<lparr>io_registers := (io_registers d1)(io_register_select d1 := v)\<rparr>)"

definition write_64_bit_register :: "u8 \<Rightarrow> u64 \<Rightarrow> ioapic \<Rightarrow> ioapic outcome" where
  "write_64_bit_register r v d =
     (let low = ucast v; high = ucast (drop_bit 32 v); d1 = write_32_bit_register r low d in
      and_then (u8_inc r) (\<lambda>r1. Inr (write_32_bit_register r1 high d1)))"

definition IOAPIC_ID_REGISTER_OFFSET :: u8 where "IOAPIC_ID_REGISTER_OFFSET = 0x00"
definition IOAPIC_VERSION_REGISTER_OFFSET :: u8 where "IOAPIC_VERSION_REGISTER_OFFSET = 0x01"
definition IOAPIC_REDIRECTION_TABLE_REGISTER_OFFSET :: u8 where "IOAPIC_REDIRECTION_TABLE_REGISTER_OFFSET = 0x10"

definition ioapic_id :: "ioapic \<Rightarrow> u8 \<times> ioapic" where
  "ioapic_id d = (let (raw, d1) = read_32_bit_register IOAPIC_ID_REGISTER_OFFSET d in (ucast (field_get 24 4 raw), d1))"

text \<open>The version and the number of the last redirection entry.\<close>
definition ioapic_version :: "ioapic \<Rightarrow> (u8 \<times> u8) \<times> ioapic" where
  "ioapic_version d =
     (let (raw, d1) = read_32_bit_register IOAPIC_VERSION_REGISTER_OFFSET d in
      ((ucast (field_get 0 8 raw), ucast (field_get 16 8 raw)), d1))"

definition read_ioredtbl :: "u8 \<Rightarrow> ioapic \<Rightarrow> (u64 \<times> ioapic) outcome" where
  "read_ioredtbl entry d =
     and_then (assert_that (entry < 24)) (\<lambda>_.
     read_64_bit_register (IOAPIC_REDIRECTION_TABLE_REGISTER_OFFSET + entry * 2) d)"

definition write_ioredtbl :: "u8 \<Rightarrow> u64 \<Rightarrow> ioapic \<Rightarrow> ioapic outcome" where
  "write_ioredtbl entry v d =
     and_then (assert_that (entry < 24)) (\<lambda>_.
     write_64_bit_register (IOAPIC_REDIRECTION_TABLE_REGISTER_OFFSET + entry * 2) v d)"

text \<open>`IOAPICRedirectionTableRegister`: vector 0 to 7, delivery mode 8 to 10, destination mode
  11, delivery status 12, mask 16, destination 56 to 63.\<close>
definition redirection :: "u8 \<Rightarrow> u8 \<Rightarrow> u64" where
  "redirection vector destination =
     field_set 56 8 (ucast destination)
     (flag_set 12 False
     (flag_set 11 False
     (field_set 8 3 0
     (flag_set 16 False
     (field_set 0 8 (ucast vector) 0)))))"

definition install_irq :: "u8 \<Rightarrow> irq_number \<Rightarrow> ioapic option \<Rightarrow> ioapic option outcome" where
  "install_irq vector irq m = (case m of
     None \<Rightarrow> Inl ExpectFailed
   | Some d \<Rightarrow>
       (let (i, d1) = ioapic_id d in
        and_then (write_ioredtbl (irq_code irq) (redirection vector i) d1) (\<lambda>d2. Inr (Some d2))))"

section \<open>Commands\<close>

lemma enum_codes [simp]:
  "delivery_mode_from (delivery_mode_number dm) = Inr dm"
  "destination_mode_from (destination_mode_number de) = Inr de"
  "delivery_status_from (delivery_status_number st) = Inr st"
  "command_level_from (command_level_number lv) = Inr lv"
  "trigger_mode_from (trigger_mode_number tr) = Inr tr"
  "shorthand_from (shorthand_number sh) = Inr sh"
proof -
  show "delivery_mode_from (delivery_mode_number dm) = Inr dm" by (cases dm) (simp_all add: delivery_mode_from_def)
  show "destination_mode_from (destination_mode_number de) = Inr de" by (cases de) (simp_all add: destination_mode_from_def)
  show "delivery_status_from (delivery_status_number st) = Inr st" by (cases st) (simp_all add: delivery_status_from_def)
  show "command_level_from (command_level_number lv) = Inr lv" by (cases lv) (simp_all add: command_level_from_def)
  show "trigger_mode_from (trigger_mode_number tr) = Inr tr" by (cases tr) (simp_all add: trigger_mode_from_def)
  show "shorthand_from (shorthand_number sh) = Inr sh" by (cases sh) (simp_all add: shorthand_from_def)
qed

text \<open>Every code fits in its field.\<close>
lemma enum_widths [simp]:
  "take_bit 3 (delivery_mode_number dm) = delivery_mode_number dm"
  "destination_mode_number de mod 2 = destination_mode_number de"
  "delivery_status_number st mod 2 = delivery_status_number st"
  "command_level_number lv mod 2 = command_level_number lv"
  "trigger_mode_number tr mod 2 = trigger_mode_number tr"
  "take_bit 2 (shorthand_number sh) = shorthand_number sh"
proof -
  show "take_bit 3 (delivery_mode_number dm) = delivery_mode_number dm" by (cases dm) simp_all
  show "destination_mode_number de mod 2 = destination_mode_number de" by (cases de) simp_all
  show "delivery_status_number st mod 2 = delivery_status_number st" by (cases st) simp_all
  show "command_level_number lv mod 2 = command_level_number lv" by (cases lv) simp_all
  show "trigger_mode_number tr mod 2 = trigger_mode_number tr" by (cases tr) simp_all
  show "take_bit 2 (shorthand_number sh) = shorthand_number sh" by (cases sh) simp_all
qed

lemma vector_field: "ucast (take_bit 8 (ucast v :: u32)) = (v :: u8)"
  by (rule bit_word_eqI) (auto simp: bit_simps)

text \<open>An interrupt command holds the fields it was made of: what is read back from the register is
  what was put in.\<close>
theorem command_round_trip: "command_from_bits (command_low_bits f) = Inr f"
  by (simp add: command_from_bits_def command_low_bits_def field_get_set_other vector_field)

section \<open>The redirection table\<close>

lemma u64_halves: "push_bit 32 (ucast (ucast (drop_bit 32 v) :: u32)) OR ucast (ucast v :: u32) = (v :: u64)"
proof (rule bit_word_eqI)
  fix n assume n: "n < LENGTH(64)"
  show "bit (push_bit 32 (ucast (ucast (drop_bit 32 v) :: u32)) OR ucast (ucast v :: u32) :: u64) n = bit v n"
  proof (cases "n < 32")
    case True
    then show ?thesis by (simp add: bit_simps)
  next
    case False
    with n show ?thesis by (auto simp: bit_simps)
  qed
qed

lemma entry_registers:
  fixes e :: u8
  assumes "e < 24"
  shows "unat (0x10 + e * 2) = 16 + 2 * unat e" "unat (0x10 + e * 2 + 1) = 17 + 2 * unat e"
  using assms by (simp_all add: word_less_nat_alt unat_word_ariths)

lemma write_64_ok:
  assumes "e < 24"
  shows "write_ioredtbl e v d = Inr \<lparr>io_register_select = 0x10 + e * 2 + 1, io_registers = (io_registers d)
    (0x10 + e * 2 := ucast v, 0x10 + e * 2 + 1 := ucast (drop_bit 32 v))\<rparr>"
proof -
  have "0x10 + e * 2 \<noteq> 0xFF" using entry_registers(1)[OF assms] assms by (auto simp: word_less_nat_alt)
  then show ?thesis
    using assms by (cases d) (simp add: write_ioredtbl_def write_64_bit_register_def write_32_bit_register_def
        u8_inc_def IOAPIC_REDIRECTION_TABLE_REGISTER_OFFSET_def)
qed

lemma read_64_ok:
  assumes "e < 24"
  shows "read_ioredtbl e d = Inr (push_bit 32 (ucast (io_registers d (0x10 + e * 2 + 1))) OR
    ucast (io_registers d (0x10 + e * 2)), d\<lparr>io_register_select := 0x10 + e * 2 + 1\<rparr>)"
proof -
  have "0x10 + e * 2 \<noteq> 0xFF" using entry_registers(1)[OF assms] assms by (auto simp: word_less_nat_alt)
  then show ?thesis
    using assms by (simp add: read_ioredtbl_def read_64_bit_register_def read_32_bit_register_def
        u8_inc_def IOAPIC_REDIRECTION_TABLE_REGISTER_OFFSET_def)
qed

text \<open>A redirection entry that was written is read back, and the other entries keep their
  value.\<close>
lemma redirection_round_trip:
  assumes "e < 24" "e' < 24" "write_ioredtbl e v d = Inr d'"
  shows "map_sum id fst (read_ioredtbl e' d') =
    (if e' = e then Inr v else map_sum id fst (read_ioredtbl e' d))"
proof -
  have d': "io_registers d' = (io_registers d)(0x10 + e * 2 := ucast v, 0x10 + e * 2 + 1 := ucast (drop_bit 32 v))"
    using assms(3) unfolding write_64_ok[OF assms(1)] by auto
  note r = entry_registers[OF assms(1)] entry_registers[OF assms(2)]
  have ne: "0x10 + e' * 2 \<noteq> 0x10 + e * 2 + 1" "0x10 + e' * 2 + 1 \<noteq> 0x10 + e * 2"
    unfolding word_unat_eq_iff r by presburger+
  have eq: "0x10 + e' * 2 = 0x10 + e * 2 \<longleftrightarrow> e' = e" "0x10 + e' * 2 + 1 = 0x10 + e * 2 + 1 \<longleftrightarrow> e' = e"
    unfolding word_unat_eq_iff r by presburger+
  show ?thesis
    using ne eq u64_halves[of v] by (simp add: read_64_ok[OF assms(2)] d')
qed

lemma irq_code_bound: "irq_code irq < 24"
  by (cases irq) simp_all

lemma redirection_fields:
  "field_get 0 8 (redirection vector i) = ucast vector" "flag_get 16 (redirection vector i) = False"
  "field_get 8 3 (redirection vector i) = 0" "field_get 56 8 (redirection vector i) = ucast i"
proof -
  have "take_bit 8 (ucast w :: u64) = ucast w" for w :: u8
    by (rule bit_word_eqI) (auto simp: bit_simps dest: bit_imp_le_length)
  then show "field_get 0 8 (redirection vector i) = ucast vector" "flag_get 16 (redirection vector i) = False"
    "field_get 8 3 (redirection vector i) = 0" "field_get 56 8 (redirection vector i) = ucast i"
    by (simp_all add: redirection_def field_get_set_other field_get_flag_set flag_get_set_other)
qed

text \<open>C38: Routing an interrupt line through the I/O APIC never panics once the I/O APIC is set up: the line's
  entry of the redirection table, read back through the same pair of registers, is unmasked, has
  fixed delivery, the given vector and the controller's own identifier as destination, and every
  other entry of the table is what it was.\<close>
theorem install_irq_correct:
  assumes "e' < 24"
  shows "\<exists>d' v. install_irq vector irq (Some d) = Inr (Some d') \<and>
    map_sum id fst (read_ioredtbl e' d') =
      (if e' = irq_code irq then Inr v else map_sum id fst (read_ioredtbl e' d)) \<and>
    field_get 0 8 v = ucast vector \<and> \<not> flag_get 16 v \<and> field_get 8 3 v = 0 \<and>
    field_get 56 8 v = ucast (fst (ioapic_id d))"
proof -
  obtain i d1 where i: "ioapic_id d = (i, d1)" by (cases "ioapic_id d")
  have regs: "io_registers d1 = io_registers d" using i by (auto simp: ioapic_id_def read_32_bit_register_def)
  obtain d' where d': "write_ioredtbl (irq_code irq) (redirection vector i) d1 = Inr d'"
    using write_64_ok[OF irq_code_bound] by blast
  have "map_sum id fst (read_ioredtbl e' d1) = map_sum id fst (read_ioredtbl e' d)"
    by (simp add: read_64_ok[OF assms] regs)
  with redirection_round_trip[OF irq_code_bound assms d'] show ?thesis
    using i d' redirection_fields[of vector i]
    by (intro exI[of _ d'] exI[of _ "redirection vector i"]) (simp add: install_irq_def)
qed

theorem install_irq_correct_witness:
  "\<exists>d' v. install_irq 50 Keyboard (Some \<lparr>io_register_select = 0, io_registers = (\<lambda>_. 0x01000000)\<rparr>) = Inr (Some d') \<and>
     map_sum id fst (read_ioredtbl 1 d') = Inr v \<and> field_get 0 8 v = 50 \<and> \<not> flag_get 16 v"
  using install_irq_correct[of 1 50 Keyboard "\<lparr>io_register_select = 0, io_registers = (\<lambda>_. 0x01000000)\<rparr>"]
  by auto

end
