(* ===== verification/Hpet.thy ===== *)
theory Hpet
  imports Apic
begin

text \<open>
  The high precision event timer: kernel/src/hpet.rs. The registers are a record of
  their values; `Milliseconds` is the number it holds, with the panics of 64-bit
  arithmetic.
\<close>

section \<open>Milliseconds\<close>

text \<open>`u64` arithmetic as the debug profile runs it.\<close>
definition u64_mul :: "u64 \<Rightarrow> u64 \<Rightarrow> u64 outcome" where
  "u64_mul a b = (if unat a * unat b < 2 ^ 64 then Inr (a * b) else Inl Overflow)"

definition u64_div :: "u64 \<Rightarrow> u64 \<Rightarrow> u64 outcome" where
  "u64_div a b = (if b = 0 then Inl DivisionByZero else Inr (a div b))"

definition ms_saturating_sub :: "u64 \<Rightarrow> u64 \<Rightarrow> u64" where
  "ms_saturating_sub a b = (if b \<le> a then a - b else 0)"

definition femtoseconds :: "u64 \<Rightarrow> u64 outcome" where
  "femtoseconds ms = u64_mul ms 1000000000000"

definition from_femtoseconds :: "u64 \<Rightarrow> u64" where
  "from_femtoseconds fs = fs div 1000000000000"

definition ms_add :: "u64 \<Rightarrow> u64 \<Rightarrow> u64 outcome" where
  "ms_add a b = u64_add a b"

section \<open>The timer\<close>

text \<open>Timer number \<open>n\<close> is the \<open>n\<close>-th element of the two lists.\<close>
record hpet =
  general_capabilities_and_id :: u64
  general_configuration :: u64
  main_counter_value :: u64
  timer_configs :: "u64 list"
  comparator_values :: "u64 list"

text \<open>`GeneralCapabilitiesAndID`: the number of timers is in bits 8 to 12, the period in the upper
  half.\<close>
definition number_of_timers :: "u64 \<Rightarrow> u8" where
  "number_of_timers caps = ucast (field_get 8 5 caps)"

definition counter_clock_period :: "u64 \<Rightarrow> u64" where
  "counter_clock_period caps = field_get 32 32 caps"

text \<open>The timer behind the global cell, if it has been initialised.\<close>
definition elapsed_milliseconds :: "hpet option \<Rightarrow> u64 outcome" where
  "elapsed_milliseconds cell =
     and_then (expect cell) (\<lambda>h.
     and_then (u64_mul (main_counter_value h) (counter_clock_period (general_capabilities_and_id h))) (\<lambda>fs.
     Inr (from_femtoseconds fs)))"

definition hpet_tick_timer :: nat where
  "hpet_tick_timer = 0"

text \<open>Bits of `TimerConfigAndCapabilities`: enabled 2, periodic 3, periodic capable 4, route 9 to
  13. Setting a field asserts that the value fits in it.\<close>
definition configure_timer :: "u8 \<Rightarrow> u64 \<Rightarrow> u64 outcome" where
  "configure_timer route conf =
     and_then (assert_that (flag_get 4 conf)) (\<lambda>_.
     and_then (assert_that (unat route < 2 ^ 5)) (\<lambda>_.
     Inr (field_set 9 5 (ucast route) (flag_set 2 True (flag_set 3 True conf)))))"

definition enable_periodic_timer :: "nat \<Rightarrow> irq_number \<Rightarrow> u64 \<Rightarrow> hpet \<Rightarrow> hpet outcome" where
  "enable_periodic_timer timer_number irq interval_femtoseconds h =
     (let caps = general_capabilities_and_id h in
      and_then (assert_that (timer_number < unat (number_of_timers caps))) (\<lambda>_.
      let h1 = h\<lparr>general_configuration := flag_set 0 True (general_configuration h)\<rparr> in
      if timer_number < length (timer_configs h1) \<and> timer_number < length (comparator_values h1)
      then and_then (configure_timer (irq_code irq) (timer_configs h1 ! timer_number)) (\<lambda>conf.
           and_then (u64_div interval_femtoseconds (counter_clock_period caps)) (\<lambda>comparator.
           Inr (h1\<lparr>timer_configs := (timer_configs h1)[timer_number := conf],
                   comparator_values := (comparator_values h1)[timer_number := comparator]\<rparr>)))
      else Inl UndefinedBehaviour))"

definition enable_periodic_timer_handler ::
  "u32 \<Rightarrow> 'h \<Rightarrow> irq_number \<Rightarrow> nat \<Rightarrow> u64 \<Rightarrow> 'h interrupt_table \<times> ioapic option \<times> hpet option \<Rightarrow>
   ('h interrupt_table \<times> ioapic option \<times> hpet option) outcome" where
  "enable_periodic_timer_handler handler_id handler irq timer_number interval st =
     (let (t, io, cell) = st in
      and_then (install_interrupt_next_vector handler_id handler t) (\<lambda>(vector, t').
      and_then (install_irq vector irq io) (\<lambda>io'.
      and_then (expect cell) (\<lambda>h.
      and_then (femtoseconds interval) (\<lambda>fs.
      and_then (enable_periodic_timer timer_number irq fs h) (\<lambda>h'.
      Inr (t', io', Some h')))))))"

section \<open>How long the clock can run\<close>

lemma elapsed_eq:
  "elapsed_milliseconds (Some h) =
     (let fs = unat (main_counter_value h) * unat (counter_clock_period (general_capabilities_and_id h)) in
      if fs < 2 ^ 64 then Inr (of_nat (fs div 10 ^ 12)) else Inl Overflow)"
proof -
  let ?c = "main_counter_value h" and ?p = "counter_clock_period (general_capabilities_and_id h)"
  have "from_femtoseconds (?c * ?p) = of_nat (unat ?c * unat ?p div 10 ^ 12)" if "unat ?c * unat ?p < 2 ^ 64"
  proof -
    have "unat (?c * ?p) = unat ?c * unat ?p" using that by (simp add: unat_word_ariths)
    moreover have "unat ?c * unat ?p div 10 ^ 12 < 2 ^ 64"
      using that by (intro le_less_trans[OF div_le_dividend])
    ultimately show ?thesis
      by (simp add: from_femtoseconds_def word_unat_eq_iff unat_div unat_of_nat_u64)
  qed
  then show ?thesis by (simp add: elapsed_milliseconds_def u64_mul_def Let_def)
qed

text \<open>C39: The time since the timer was started is the counter times its period in whole
  milliseconds as long as that number of femtoseconds is below \<open>2 ^ 64\<close>; from then on every
  reading of the clock panics, whatever the period of the counter. So the clock works for 18,446,744
  milliseconds and never after 18,446,745, a little more than five hours.\<close>
theorem elapsed_milliseconds_bounds:
  assumes "fs = unat (main_counter_value h) * unat (counter_clock_period (general_capabilities_and_id h))"
  shows "elapsed_milliseconds (Some h) =
      (if fs < 2 ^ 64 then Inr (of_nat (fs div 10 ^ 12)) else Inl Overflow) \<and>
    (fs < 18446744 * 10 ^ 12 \<longrightarrow> (\<exists>ms. elapsed_milliseconds (Some h) = Inr ms \<and> unat ms = fs div 10 ^ 12)) \<and>
    (18446745 * 10 ^ 12 \<le> fs \<longrightarrow> elapsed_milliseconds (Some h) = Inl Overflow)"
proof -
  have "fs div 10 ^ 12 < 2 ^ 64" if "fs < 2 ^ 64" using that by (intro le_less_trans[OF div_le_dividend])
  then show ?thesis using assms by (auto simp: elapsed_eq Let_def unat_of_nat_u64)
qed

text \<open>A counter of 10 MHz, after one second and after six hours.\<close>
definition example_hpet :: "u64 \<Rightarrow> hpet" where
  "example_hpet c = \<lparr>general_capabilities_and_id = 0x05F5E10000000201, general_configuration = 1, main_counter_value = c,
     timer_configs = [16, 16, 16], comparator_values = [0, 0, 0]\<rparr>"

lemma example_hpet_period: "counter_clock_period (general_capabilities_and_id (example_hpet c)) = 100000000"
  by (simp add: example_hpet_def counter_clock_period_def field_get_def drop_bit_numeral_minus_bit1)

theorem elapsed_milliseconds_bounds_witness:
  "elapsed_milliseconds (Some (example_hpet 10000000)) = Inr 1000 \<and>
   elapsed_milliseconds (Some (example_hpet 216000000000)) = Inl Overflow"
  using elapsed_milliseconds_bounds[OF refl, of "example_hpet 10000000"]
    elapsed_milliseconds_bounds[OF refl, of "example_hpet 216000000000"]
  by (simp add: example_hpet_period) (simp add: example_hpet_def)

text \<open>The capability field is the number of timers minus one, so the last timer of a device is
  refused: a device with one timer has no timer that can be enabled.\<close>
theorem last_timer_refused:
  "unat (number_of_timers (general_capabilities_and_id h)) = n \<Longrightarrow>
   enable_periodic_timer n irq fs h = Inl AssertFailed"
  by (simp add: enable_periodic_timer_def assert_that_def)

text \<open>A timer that can be enabled fires every interval: it is periodic, enabled and routed, and its
  comparator is the interval in ticks.\<close>
theorem enable_periodic_timer_ok:
  assumes "n < unat (number_of_timers (general_capabilities_and_id h))" "n < length (timer_configs h)"
    and "n < length (comparator_values h)" "flag_get 4 (timer_configs h ! n)"
    and "counter_clock_period (general_capabilities_and_id h) \<noteq> 0"
  shows "\<exists>h' conf. enable_periodic_timer n irq fs h = Inr h' \<and> timer_configs h' = (timer_configs h)[n := conf] \<and>
    flag_get 2 conf \<and> flag_get 3 conf \<and> field_get 9 5 conf = ucast (irq_code irq) \<and>
    comparator_values h' = (comparator_values h)[n := fs div counter_clock_period (general_capabilities_and_id h)] \<and>
    flag_get 0 (general_configuration h')"
proof -
  have "take_bit 5 (ucast (irq_code irq) :: u64) = ucast (irq_code irq)" "unat (irq_code irq) < 32"
    by (cases irq; simp)+
  moreover let ?conf = "field_set 9 5 (ucast (irq_code irq)) (flag_set 2 True (flag_set 3 True (timer_configs h ! n)))"
  have "flag_get 2 ?conf" "flag_get 3 ?conf" by (simp_all add: flag_get_set_other)
  ultimately show ?thesis
    using assms
    by (simp add: enable_periodic_timer_def configure_timer_def u64_div_def Let_def)
      (intro exI[of _ ?conf], simp)
qed

end
