(* ===== verification/Pci.thy ===== *)
theory Pci
  imports Registers Bitfields Kernel_Mapping
begin

text \<open>
  PCI devices: kernel/src/pci/location.rs, device.rs and capabilities.rs. The memory-mapped
  configuration space is byte memory. Walking the capability list may never
  end, so the walk has fuel and running out of it is the outcome \<open>Diverges\<close>.
\<close>

section \<open>Locations\<close>

record pci_location =
  ecam_base_address :: u64
  bus_number :: u8
  device_number :: u8
  function_number :: u8

definition device_base_address :: "pci_location \<Rightarrow> u64 outcome" where
  "device_base_address l =
     (let bus = (ucast (bus_number l) :: u64); device = ucast (device_number l); fn = ucast (function_number l) in
      kern_phys_addr_add (ecam_base_address l) (unat (push_bit 20 bus OR push_bit 15 device OR push_bit 12 fn)))"

section \<open>Devices\<close>

record pci_device =
  pci_location :: pci_location
  pci_address :: u64

definition pci_device_new :: "pci_location \<Rightarrow> byte_memory \<Rightarrow> pci_device option outcome" where
  "pci_device_new l bm =
     and_then (device_base_address l) (\<lambda>a.
     Inr (if read_u16 a bm = 0xFFFF then None else Some \<lparr>pci_location = l, pci_address = a\<rparr>))"

definition MAX_PCI_BUS :: nat where "MAX_PCI_BUS = 255"
definition MAX_PCI_BUS_DEVICE :: nat where "MAX_PCI_BUS_DEVICE = 31"
definition MAX_PCI_BUS_DEVICE_FUNCTION :: nat where "MAX_PCI_BUS_DEVICE_FUNCTION = 7"

definition for_pci_devices_brute_force ::
  "u64 \<Rightarrow> byte_memory \<Rightarrow> (pci_device \<Rightarrow> 's \<Rightarrow> 's outcome) \<Rightarrow> 's \<Rightarrow> 's outcome" where
  "for_pci_devices_brute_force base bm f =
     for_each (\<lambda>bus. for_each (\<lambda>slt. for_each (\<lambda>fn s.
       and_then (pci_device_new \<lparr>ecam_base_address = base, bus_number = of_nat bus, device_number = of_nat slt,
                                 function_number = of_nat fn\<rparr> bm) (\<lambda>config.
       case config of None \<Rightarrow> Inr s | Some c \<Rightarrow> f c s))
       [0..<Suc MAX_PCI_BUS_DEVICE_FUNCTION]) [0..<Suc MAX_PCI_BUS_DEVICE]) [0..<Suc MAX_PCI_BUS]"

datatype header_layout_kind = GeneralDevice | PCIToPCIBridge

text \<open>`PCIDeviceConfigHeaderType::layout`: the layout is in the lowest three bits.\<close>
definition header_type_layout :: "u8 \<Rightarrow> header_layout_kind option" where
  "header_type_layout w =
     (if w AND 0x7 = 0 then Some GeneralDevice else if w AND 0x7 = 1 then Some PCIToPCIBridge else None)"

definition config_type :: "pci_device \<Rightarrow> byte_memory \<Rightarrow> header_layout_kind option" where
  "config_type d bm = header_type_layout (read_u8 (pci_address d + 0x0E) bm)"

section \<open>Base address registers\<close>

datatype bar_address =
    Mem32Bit u32 bool
  | Mem64Bit u64 bool
  | IOBar u32

text \<open>The `while` loop of `interpreted`, on the registers that are left; the result is the entries
  of the array from here on.\<close>
fun interpreted :: "u32 list \<Rightarrow> bar_address option list outcome" where
  "interpreted [] = Inr []"
| "interpreted (bar # bars) =
     (if bar = 0 then and_then (interpreted bars) (\<lambda>as. Inr (None # as))
      else
        let bit_0 = bar AND 1; bit_1_2 = drop_bit 1 bar AND 3; prefetchable = (drop_bit 3 bar AND 1 = 1) in
        if bit_0 = 0 \<and> bit_1_2 = 0 then
          and_then (interpreted bars) (\<lambda>as. Inr (Some (Mem32Bit (bar AND 0xfffffff0) prefetchable) # as))
        else if bit_0 = 0 \<and> bit_1_2 = 2 then
          (case bars of
             [] \<Rightarrow> Inl ExpectFailed
           | next_bar # bars' \<Rightarrow>
               and_then (interpreted bars') (\<lambda>as.
               Inr (Some (Mem64Bit (push_bit 32 (ucast next_bar) OR (ucast bar AND 0xfffffff0)) prefetchable) #
                    None # as)))
        else if bit_0 = 1 then
          and_then (interpreted bars) (\<lambda>as. Inr (Some (IOBar (bar AND 0xfffffffc)) # as))
        else Inl ExplicitPanic)"

definition bar_addresses :: "pci_device \<Rightarrow> byte_memory \<Rightarrow> u32 list" where
  "bar_addresses d bm = map (\<lambda>i. read_u32 (pci_address d + (0x10 + 4 * of_nat i)) bm) [0..<6]"

definition bar_of :: "u8 \<Rightarrow> pci_device \<Rightarrow> byte_memory \<Rightarrow> bar_address outcome" where
  "bar_of bar_idx d bm =
     and_then (interpreted (bar_addresses d bm)) (\<lambda>as.
     if unat bar_idx < length as
     then (case as ! unat bar_idx of None \<Rightarrow> Inl ExplicitPanic | Some a \<Rightarrow> Inr a)
     else Inl ExpectFailed)"

text \<open>The pages that are mapped for a region, and where it starts.\<close>
definition bar_region ::
  "x86_64 \<Rightarrow> u8 \<Rightarrow> u32 \<Rightarrow> nat \<Rightarrow> pci_device \<Rightarrow> byte_memory \<Rightarrow> (u64 \<times> page_range) outcome" where
  "bar_region x bar_idx physical_offset region_size d bm =
     and_then (bar_of bar_idx d bm) (\<lambda>bar.
     and_then (case bar of
                 Mem32Bit a _ \<Rightarrow> phys_addr_new x (ucast a)
               | Mem64Bit a _ \<Rightarrow> phys_addr_new x a
               | IOBar _ \<Rightarrow> Inl ExplicitPanic) (\<lambda>phys.
     and_then (from_phys_addr phys) (\<lambda>bar_addr.
     and_then (kern_phys_addr_add bar_addr (unat physical_offset)) (\<lambda>config_start_addr.
     Inr (config_start_addr, from_num_bytes (containing_address x config_start_addr Size4KiB) region_size)))))"

definition bar_region_physical_address ::
  "x86_64 \<Rightarrow> u8 \<Rightarrow> u32 \<Rightarrow> nat \<Rightarrow> pci_device \<Rightarrow> byte_memory \<Rightarrow> kernel_memory \<Rightarrow> (u64 \<times> kernel_memory) outcome" where
  "bar_region_physical_address x bar_idx physical_offset region_size d bm k =
     and_then (bar_region x bar_idx physical_offset region_size d bm) (\<lambda>(config_start_addr, pages).
     and_then (with_kernel_page_table_lock (\<lambda>table.
         identity_map_physical_pages x table (range_iter kern_phys_addr_add pages) (PRESENT OR WRITABLE)) k) (\<lambda>(r, k').
     case r of Err _ \<Rightarrow> Inl ExpectFailed | Ok _ \<Rightarrow> Inr (config_start_addr, k')))"

section \<open>Capabilities\<close>

definition VENDOR_SPECIFIC_CAPABILITY_ID :: u8 where "VENDOR_SPECIFIC_CAPABILITY_ID = 0x09"
definition MSIX_CAPABILITY_ID :: u8 where "MSIX_CAPABILITY_ID = 0x11"

record capability_header =
  config_base_address :: u64
  capability_address :: u64

definition capability_header_new :: "u64 \<Rightarrow> u8 \<Rightarrow> capability_header option outcome" where
  "capability_header_new base offset =
     (if offset = 0 then Inr None
      else and_then (kern_phys_addr_add base (unat offset)) (\<lambda>a.
           Inr (Some \<lparr>config_base_address = base, capability_address = a\<rparr>)))"

datatype capability = MSIX u64 | VendorSpecific capability_header | OtherCapability capability_header

text \<open>`MSIXCapability::from_capability` reads the same identifier again.\<close>
definition msix_from_capability :: "capability_header \<Rightarrow> byte_memory \<Rightarrow> u64 option" where
  "msix_from_capability h bm =
     (if read_u8 (capability_address h) bm \<noteq> MSIX_CAPABILITY_ID then None else Some (capability_address h))"

definition capability_of :: "capability_header \<Rightarrow> byte_memory \<Rightarrow> capability outcome" where
  "capability_of h bm =
     (let i = read_u8 (capability_address h) bm in
      if i = MSIX_CAPABILITY_ID then and_then (expect (msix_from_capability h bm)) (\<lambda>a. Inr (MSIX a))
      else if i = VENDOR_SPECIFIC_CAPABILITY_ID then Inr (VendorSpecific h)
      else Inr (OtherCapability h))"

definition next_capability :: "capability_header \<Rightarrow> byte_memory \<Rightarrow> capability_header option outcome" where
  "next_capability h bm = capability_header_new (config_base_address h) (read_u8 (capability_address h + 1) bm)"

text \<open>One call of the iterator's `next`.\<close>
definition capability_next ::
  "byte_memory \<Rightarrow> capability_header option \<Rightarrow> (capability_header option \<times> capability_header option) outcome" where
  "capability_next bm ptr = (case ptr of
     None \<Rightarrow> Inr (None, None)
   | Some h \<Rightarrow> and_then (next_capability h bm) (\<lambda>ptr'. Inr (Some h, ptr')))"

definition iter_capabilities :: "pci_device \<Rightarrow> byte_memory \<Rightarrow> capability_header option outcome" where
  "iter_capabilities d bm =
     (if \<not> flag_get 4 (read_u16 (pci_address d + 0x06) bm) then Inr None
      else capability_header_new (pci_address d) (read_u8 (pci_address d + 0x34) bm))"

section \<open>MSI-X\<close>

record msix_table =
  msix_address :: u64
  msix_table_size :: u16

record msix_config =
  msix_capability :: u64
  msix_entries :: msix_table
  msix_pba :: msix_table

definition bar_indicator_register :: "u32 \<Rightarrow> u8" where
  "bar_indicator_register w = ucast (w AND 0b111)"

definition masked_offset :: "u32 \<Rightarrow> u32" where
  "masked_offset w = w AND 0xFFFFFFF8"

text \<open>`size_of::<MSIXTableEntry>()`: the type holds the address of the entry's registers, not the
  registers.\<close>
definition MSIX_TABLE_ENTRY_SIZE :: nat where "MSIX_TABLE_ENTRY_SIZE = 8"

definition table_size_of :: "u64 \<Rightarrow> byte_memory \<Rightarrow> u16" where
  "table_size_of cap bm = field_get 0 11 (read_u16 (cap + 2) bm) + 1"

definition msix_config_new ::
  "x86_64 \<Rightarrow> pci_device \<Rightarrow> u64 \<Rightarrow> byte_memory \<Rightarrow> kernel_memory \<Rightarrow> (msix_config \<times> kernel_memory) outcome" where
  "msix_config_new x d cap bm k =
     (let table_size = table_size_of cap bm;
          table_bits = read_u32 (cap + 4) bm; pba_bits = read_u32 (cap + 8) bm
      in
      and_then (bar_region_physical_address x (bar_indicator_register table_bits) (masked_offset table_bits)
                  (unat table_size * MSIX_TABLE_ENTRY_SIZE) d bm k) (\<lambda>(table_address, k1).
      and_then (bar_region_physical_address x (bar_indicator_register pba_bits) (masked_offset pba_bits)
                  (unat table_size * 8) d bm k1) (\<lambda>(pba_address, k2).
      Inr (\<lparr>msix_capability = cap, msix_entries = \<lparr>msix_address = table_address, msix_table_size = table_size\<rparr>,
            msix_pba = \<lparr>msix_address = pba_address, msix_table_size = table_size\<rparr>\<rparr>, k2))))"

text \<open>The loop over the capabilities stops at the first MSI-X one.\<close>
fun find_msix :: "nat \<Rightarrow> byte_memory \<Rightarrow> capability_header option \<Rightarrow> u64 option outcome" where
  "find_msix 0 bm ptr = (case ptr of None \<Rightarrow> Inr None | Some _ \<Rightarrow> Inl Diverges)"
| "find_msix (Suc n) bm ptr =
     and_then (capability_next bm ptr) (\<lambda>(h, ptr').
     case h of
       None \<Rightarrow> Inr None
     | Some h \<Rightarrow> and_then (capability_of h bm) (\<lambda>c. case c of MSIX a \<Rightarrow> Inr (Some a) | _ \<Rightarrow> find_msix n bm ptr'))"

text \<open>The offset of a capability is one of 255 bytes, so a list that ends has at most 255 entries.\<close>
definition device_msix_config ::
  "x86_64 \<Rightarrow> pci_device \<Rightarrow> byte_memory \<Rightarrow> kernel_memory \<Rightarrow> (msix_config option \<times> kernel_memory) outcome" where
  "device_msix_config x d bm k =
     and_then (iter_capabilities d bm) (\<lambda>ptr.
     and_then (find_msix 256 bm ptr) (\<lambda>cap. case cap of
       None \<Rightarrow> Inr (None, k)
     | Some c \<Rightarrow> and_then (msix_config_new x d c bm k) (\<lambda>(config, k'). Inr (Some config, k'))))"

definition msix_table_entry :: "nat \<Rightarrow> msix_table \<Rightarrow> u64 outcome" where
  "msix_table_entry index t =
     and_then (assert_that (index < unat (msix_table_size t))) (\<lambda>_. kern_phys_addr_add (msix_address t) (index * 16))"

text \<open>The address an entry of the pending bit array is read from.\<close>
definition pba_entry :: "nat \<Rightarrow> msix_table \<Rightarrow> u64 option outcome" where
  "pba_entry index t =
     (if unat (msix_table_size t) \<le> index then Inr None
      else and_then (kern_phys_addr_add (msix_address t) (index * 16)) (\<lambda>a. Inr (Some a)))"

definition INTEL_PREFIX :: u32 where "INTEL_PREFIX = 0x0fee"

definition message_address :: "u8 \<Rightarrow> u32" where
  "message_address processor_id =
     flag_set 2 False (flag_set 3 False (field_set 12 8 (ucast processor_id) (field_set 20 12 INTEL_PREFIX 0)))"

definition message_data :: "u8 \<Rightarrow> u32" where
  "message_data vector = field_set 0 8 (ucast vector) 0"

text \<open>Writing an entry of the table, whose registers are at the given address.\<close>
definition set_interrupt_vector :: "u64 \<Rightarrow> u8 \<Rightarrow> u8 \<Rightarrow> byte_memory \<Rightarrow> byte_memory" where
  "set_interrupt_vector entry processor_id vector bm =
     (let bm1 = put_bytes entry (put_u32 (message_address processor_id)) bm;
          bm2 = put_bytes (entry + 0x8) (put_u32 (message_data vector)) bm1
      in put_bytes (entry + 0xc) (put_u32 (flag_set 0 False (read_u32 (entry + 0xc) bm2))) bm2)"

text \<open>`MSIXConfig::enable` sets bit 15 of the message control register.\<close>
definition msix_enable :: "msix_config \<Rightarrow> byte_memory \<Rightarrow> byte_memory" where
  "msix_enable c bm =
     put_bytes (msix_capability c + 2) (put_u16 (flag_set 15 True (read_u16 (msix_capability c + 2) bm))) bm"

section \<open>Configuration spaces do not overlap\<close>

lemma unat_kern_phys_addr_add:
  assumes "kern_phys_addr_add a n = Inr b" "n < 2 ^ 64"
  shows "unat b = unat a + n"
proof -
  have b: "b = a + of_nat n" and "uint a + uint (of_nat n :: u64) < 2 ^ 64"
    using assms(1) by (auto simp: kern_phys_addr_add_def u64_add_def kern_phys_addr_new_def run_facts split: if_splits)
  then have "int (unat a + unat (of_nat n :: u64)) < int (2 ^ 64)" by simp
  then have "unat a + unat (of_nat n :: u64) < 2 ^ 64" by (simp only: of_nat_less_iff)
  then show ?thesis unfolding b using assms(2) by (simp add: unat_add_u64 unat_of_nat_u64)
qed

definition valid_location :: "pci_location \<Rightarrow> bool" where
  "valid_location l \<longleftrightarrow> unat (device_number l) \<le> MAX_PCI_BUS_DEVICE \<and>
     unat (function_number l) \<le> MAX_PCI_BUS_DEVICE_FUNCTION"

text \<open>The offset of a device in the configuration memory.\<close>
definition location_index :: "pci_location \<Rightarrow> nat" where
  "location_index l = unat (bus_number l) * 256 + unat (device_number l) * 8 + unat (function_number l)"

lemma unat_push_ucast:
  fixes w :: u8
  assumes "k \<le> 20"
  shows "unat (push_bit k (ucast w :: u64)) = unat w * 2 ^ k"
proof -
  have "unat w * 2 ^ k < 2 ^ 8 * 2 ^ 20"
    using assms unsigned_less[of w, where 'a = nat] by (intro mult_less_le_imp_less power_increasing) simp_all
  then have "unat w * 2 ^ k < 2 ^ 64" by (rule less_trans) simp
  moreover have "unat (ucast w :: u64) = unat w"
    using unsigned_less[of w, where 'a = nat] by (simp add: unsigned_ucast_eq take_bit_nat_eq_self)
  ultimately show ?thesis unfolding unsigned_push_bit_eq by (simp add: take_bit_eq_mod push_bit_eq_mult)
qed

lemma location_offset:
  assumes "valid_location l"
  shows "unat (push_bit 20 (ucast (bus_number l) :: u64) OR push_bit 15 (ucast (device_number l)) OR
    push_bit 12 (ucast (function_number l))) = location_index l * 2 ^ 12"
proof -
  let ?b = "push_bit 20 (ucast (bus_number l) :: u64)" and ?d = "push_bit 15 (ucast (device_number l) :: u64)"
    and ?f = "push_bit 12 (ucast (function_number l) :: u64)"
  have "take_bit 5 (device_number l) = device_number l" "take_bit 3 (function_number l) = function_number l"
    unfolding word_unat_eq_iff unsigned_take_bit_eq
    using assms by (simp_all add: take_bit_nat_eq_self valid_location_def MAX_PCI_BUS_DEVICE_def
        MAX_PCI_BUS_DEVICE_FUNCTION_def)
  then have bits: "bit (device_number l) n \<Longrightarrow> n < 5" "bit (function_number l) n \<Longrightarrow> n < 3" for n
    using bit_take_bit_iff[of 5 "device_number l" n] bit_take_bit_iff[of 3 "function_number l" n] by simp_all
  have "?b AND ?d = 0" by (rule bit_word_eqI) (auto simp: bit_simps dest!: bits(1))
  moreover have "(?b OR ?d) AND ?f = 0" by (rule bit_word_eqI) (auto simp: bit_simps dest!: bits(2))
  ultimately have or: "?b OR ?d OR ?f = ?b + ?d + ?f" by (simp add: disjunctive_add_eq_or or.assoc)
  have "unat (bus_number l) \<le> 255" "unat (device_number l) \<le> 31" "unat (function_number l) \<le> 7"
    using assms unsigned_less[of "bus_number l", where 'a = nat]
    by (simp_all add: valid_location_def MAX_PCI_BUS_DEVICE_def MAX_PCI_BUS_DEVICE_FUNCTION_def)
  moreover have "unat ?b = unat (bus_number l) * 2 ^ 20" "unat ?d = unat (device_number l) * 2 ^ 15"
    "unat ?f = unat (function_number l) * 2 ^ 12" by (simp_all only: unat_push_ucast)
  ultimately show ?thesis
    unfolding or by (simp add: unat_add_u64 location_index_def)
qed

lemma index_digits:
  fixes b d f :: nat
  assumes "d < 32" "f < 8"
  shows "(b * 256 + d * 8 + f) mod 8 = f" "(b * 256 + d * 8 + f) div 8 mod 32 = d" "(b * 256 + d * 8 + f) div 8 div 32 = b"
proof -
  have "b * 256 + d * 8 + f = (b * 32 + d) * 8 + f" by simp
  then have "(b * 256 + d * 8 + f) mod 8 = f" "(b * 256 + d * 8 + f) div 8 = b * 32 + d"
    using assms(2) by (simp_all only: mod_mult_self3 div_mult_self3 mod_less div_less add_0_right)
  then show "(b * 256 + d * 8 + f) mod 8 = f" "(b * 256 + d * 8 + f) div 8 mod 32 = d"
    "(b * 256 + d * 8 + f) div 8 div 32 = b" using assms(1) by simp_all
qed

lemma location_index_inj:
  assumes "valid_location l" "valid_location l'" "location_index l = location_index l'"
  shows "bus_number l = bus_number l' \<and> device_number l = device_number l' \<and> function_number l = function_number l'"
proof -
  have "unat (device_number l) < 32" "unat (function_number l) < 8" "unat (device_number l') < 32" "unat (function_number l') < 8"
    using assms(1,2) by (simp_all add: valid_location_def MAX_PCI_BUS_DEVICE_def MAX_PCI_BUS_DEVICE_FUNCTION_def)
  then have "unat (bus_number l) = unat (bus_number l') \<and> unat (device_number l) = unat (device_number l') \<and>
      unat (function_number l) = unat (function_number l')"
    using assms(3) unfolding location_index_def by (metis index_digits)
  then show ?thesis by (simp add: word_unat_eq_iff)
qed

text \<open>C40: Two devices of the same configuration memory have their 4 KiB configuration spaces at least 4 KiB apart.\<close>
theorem pci_config_spaces_disjoint:
  assumes "valid_location l" "valid_location l'" "ecam_base_address l' = ecam_base_address l" "l \<noteq> l'"
    and "device_base_address l = Inr a" "device_base_address l' = Inr a'"
  shows "unat a + 4096 \<le> unat a' \<or> unat a' + 4096 \<le> unat a"
proof -
  have addr: "unat b = unat (ecam_base_address m) + location_index m * 4096"
    if "valid_location m" "device_base_address m = Inr b" for m b
  proof -
    have "location_index m < 65536"
      using that(1) unsigned_less[of "bus_number m", where 'a = nat]
      by (simp add: location_index_def valid_location_def MAX_PCI_BUS_DEVICE_def MAX_PCI_BUS_DEVICE_FUNCTION_def)
    moreover have "kern_phys_addr_add (ecam_base_address m) (location_index m * 4096) = Inr b"
      using that(2) location_offset[OF that(1)] by (simp add: device_base_address_def Let_def)
    ultimately show ?thesis by (intro unat_kern_phys_addr_add) simp_all
  qed
  have "location_index l \<noteq> location_index l'"
    using location_index_inj[OF assms(1,2)] assms(3,4) by (cases l; cases l') auto
  then show ?thesis using addr[OF assms(1,5)] addr[OF assms(2,6)] assms(3) by auto
qed

definition example_location :: "u8 \<Rightarrow> pci_location" where
  "example_location d =
     \<lparr>ecam_base_address = kernel_physical_mapping_start, bus_number = 0, device_number = d, function_number = 0\<rparr>"

theorem pci_config_spaces_disjoint_witness:
  "\<exists>a a'. device_base_address (example_location 1) = Inr a \<and> device_base_address (example_location 2) = Inr a' \<and>
     (unat a + 4096 \<le> unat a' \<or> unat a' + 4096 \<le> unat a)"
proof -
  have "valid_location (example_location 1)" "valid_location (example_location 2)"
    by (simp_all add: valid_location_def example_location_def MAX_PCI_BUS_DEVICE_def MAX_PCI_BUS_DEVICE_FUNCTION_def)
  moreover have "device_base_address (example_location 1) = Inr 0xffff800000008000"
    "device_base_address (example_location 2) = Inr 0xffff800000010000" 
    by (simp_all add: device_base_address_def example_location_def Let_def kern_phys_addr_add_def u64_add_def
        kern_phys_addr_new_def in_physical_mapping_def kernel_physical_mapping_start_def kernel_physical_mapping_end_def
        higher_half_start_def run_facts)
  moreover have "example_location 1 \<noteq> example_location 2"
    "ecam_base_address (example_location 2) = ecam_base_address (example_location 1)" by (simp_all add: example_location_def)
  ultimately show ?thesis using pci_config_spaces_disjoint by blast
qed

section \<open>The capability list\<close>

text \<open>The pointers that a walk through the capabilities of a device can hold.\<close>
definition capability_pointers :: "u64 \<Rightarrow> capability_header option set" where
  "capability_pointers base = {Some h | h off. capability_header_new base off = Inr (Some h)}"

lemma capability_pointers_finite: "finite (capability_pointers base)" "card (capability_pointers base) \<le> 256"
proof -
  let ?f = "\<lambda>off :: u8. Some \<lparr>config_base_address = base, capability_address = projr (kern_phys_addr_add base (unat off))\<rparr>"
  have sub: "capability_pointers base \<subseteq> range ?f"
  proof
    fix p assume "p \<in> capability_pointers base"
    then obtain off :: u8 and a where "kern_phys_addr_add base (unat off) = Inr a"
      "p = Some \<lparr>config_base_address = base, capability_address = a\<rparr>"
      by (auto simp: capability_pointers_def capability_header_new_def run_facts split: if_splits)
    then show "p \<in> range ?f" by (intro image_eqI[of _ _ off]) simp_all
  qed
  then show "finite (capability_pointers base)" by (rule finite_subset) simp
  have "card (capability_pointers base) \<le> card (range ?f)" using sub by (intro card_mono) simp_all
  also have "\<dots> \<le> card (UNIV :: u8 set)" by (rule card_image_le) simp
  finally show "card (capability_pointers base) \<le> 256" by (simp add: card_word)
qed

lemma kern_phys_addr_add_no_diverges: "kern_phys_addr_add a n \<noteq> Inl Diverges"
  by (simp add: kern_phys_addr_add_def u64_add_def kern_phys_addr_new_def assert_that_def)

text \<open>One turn of the iterator at a header: a panic, or a pointer into the same configuration space.\<close>
lemma capability_next_cases:
  assumes "Some h \<in> capability_pointers base"
  obtains e where "capability_next bm (Some h) = Inl e" "e \<noteq> Diverges"
  | p where "capability_next bm (Some h) = Inr (Some h, p)" "p = None \<or> p \<in> capability_pointers base"
proof -
  have base: "config_base_address h = base"
    using assms by (auto simp: capability_pointers_def capability_header_new_def run_facts split: if_splits)
  let ?off = "read_u8 (capability_address h + 1) bm"
  show ?thesis
  proof (cases "capability_header_new base ?off")
    case (Inl e)
    then have "e \<noteq> Diverges" using kern_phys_addr_add_no_diverges[of base "unat ?off"]
      by (auto simp: capability_header_new_def and_then_def split: if_splits sum.splits)
    with Inl that(1) show ?thesis by (simp add: capability_next_def next_capability_def base run_facts)
  next
    case (Inr p)
    then have "p = None \<or> p \<in> capability_pointers base" by (cases p) (auto simp: capability_pointers_def)
    with Inr that(2) show ?thesis by (simp add: capability_next_def next_capability_def base run_facts)
  qed
qed

lemma capability_of_no_panic: obtains c where "capability_of h bm = Inr c"
  by (cases "capability_of h bm") (auto simp: capability_of_def msix_from_capability_def Let_def run_facts split: if_splits)

lemma find_msix_None: "find_msix n bm None = Inr None"
  by (cases n) (simp_all add: capability_next_def run_facts)

text \<open>More fuel does not change what the search finds.\<close>
lemma find_msix_more:
  "find_msix n bm p \<noteq> Inl Diverges \<Longrightarrow> find_msix (n + k) bm p = find_msix n bm p"
proof (induction n arbitrary: p)
  case 0
  then show ?case by (cases p) (simp_all add: find_msix_None)
next
  case (Suc n)
  show ?case
  proof (cases "capability_next bm p")
    case (Inr r)
    obtain h p' where r: "r = (h, p')" by (cases r)
    show ?thesis
    proof (cases h)
      case (Some h)
      obtain c where "capability_of h bm = Inr c" by (rule capability_of_no_panic)
      then show ?thesis using Suc Inr r Some by (auto simp: run_facts split: capability.splits)
    qed (simp add: Inr r run_facts)
  qed (simp add: run_facts)
qed

text \<open>The search for the MSI-X capability either ends within 256 turns or never: the fuel of the model loses
  nothing.\<close>
theorem find_msix_fuel:
  assumes "iter_capabilities d bm = Inr p" "find_msix n bm p \<noteq> Inl Diverges"
  shows "find_msix 256 bm p = find_msix n bm p"
proof (cases p)
  case None
  then show ?thesis by (simp add: find_msix_None)
next
  case (Some h)
  let ?S = "capability_pointers (pci_address d)" and ?ends = "\<lambda>n p. find_msix n bm p \<noteq> Inl Diverges"
  have "p \<in> ?S" using assms(1) Some by (auto simp: iter_capabilities_def capability_pointers_def split: if_splits)
  moreover have "\<exists>q\<in>?S. ?ends (Suc k) q \<and> \<not> ?ends k q" if q: "q \<in> ?S" "?ends (Suc (Suc k)) q" "\<not> ?ends (Suc k) q" for k q
  proof -
    obtain g where g: "q = Some g" using q(1) by (auto simp: capability_pointers_def)
    obtain c where c: "capability_of g bm = Inr c" by (rule capability_of_no_panic)
    obtain q' where "capability_next bm q = Inr (Some g, q')" "q' = None \<or> q' \<in> ?S"
      using q(1,3) unfolding g by (rule_tac bm = bm in capability_next_cases) (auto simp: run_facts)
    then show ?thesis using q(2,3) c by (auto simp: g run_facts find_msix_None split: capability.splits)
  qed
  moreover have "?ends (Suc k) q" if "?ends k q" for k q using find_msix_more[of k bm q 1] that by simp
  ultimately have "?ends (card ?S) p" using walk_bound[where ends = ?ends and S = ?S and p = p and n = n] assms(2)
      capability_pointers_finite(1) by blast
  then have "?ends 256 p"
    using find_msix_more[of "card ?S" bm p "256 - card ?S"] capability_pointers_finite(2)[of "pci_address d"] by simp
  then show ?thesis using find_msix_more[OF assms(2), of 256] find_msix_more[of 256 bm p n] by (simp add: add.commute)
qed

section \<open>The mapped part of the MSI-X table\<close>

lemma div_ceil_bound:
  assumes "0 < k"
  shows "div_ceil n k * k \<le> n + (k - 1)"
proof -
  have "n div k * k + n mod k = n" by (rule div_mult_mod_eq)
  moreover have "(n div k + 1) * k = n div k * k + k" by simp
  ultimately show ?thesis using assms unfolding div_ceil_def by (split if_split) linarith
qed

text \<open>From 514 vectors on, the pages mapped for an MSI-X table end before its last entry: they are as
  many as the table would need with entries of \<^const>\<open>MSIX_TABLE_ENTRY_SIZE\<close> bytes, but the
  entries are 16 bytes apart.\<close>
theorem msix_last_entry_unmapped:
  assumes "x86_64_spec x" "bar_region x i off (unat n * MSIX_TABLE_ENTRY_SIZE) d bm = Inr (a, pages)"
    and "514 \<le> unat n"
    and "msix_table_entry (unat n - 1) \<lparr>msix_address = a, msix_table_size = n\<rparr> = Inr e"
  shows "unat (start_addr (range_start pages)) + num_pages pages * 4096 \<le> unat e"
proof -
  have pages: "pages = from_num_bytes (containing_address x a Size4KiB) (unat n * 8)"
    using assms(2) by (auto simp: bar_region_def run_facts MSIX_TABLE_ENTRY_SIZE_def)
  have le: "unat a div 2 ^ 12 * 2 ^ 12 \<le> unat a" by (rule div_times_less_eq_dividend)
  have "start_addr (range_start pages) = of_nat (unat a div 2 ^ 12 * 2 ^ 12)"
    using x86_64_specD(4)[OF assms(1), of 12 a] by (simp add: pages from_num_bytes_def containing_address_def)
  also have "unat (of_nat (unat a div 2 ^ 12 * 2 ^ 12) :: u64) = unat a div 2 ^ 12 * 2 ^ 12"
    using le unat_u64_bound[of a] by (intro unat_of_nat_u64) linarith
  finally have "unat (start_addr (range_start pages)) \<le> unat a" using le by simp
  moreover have "num_pages pages * 4096 \<le> unat n * 8 + 4095"
    using div_ceil_bound[of 4096 "unat n * 8"] by (simp add: pages from_num_bytes_def containing_address_def)
  moreover have "kern_phys_addr_add a ((unat n - 1) * 16) = Inr e"
    using assms(4) by (auto simp: msix_table_entry_def run_facts)
  then have "unat e = unat a + (unat n - 1) * 16"
    using unsigned_less[of n, where 'a = nat] by (intro unat_kern_phys_addr_add) simp_all
  ultimately show ?thesis using assms(3) by linarith
qed

end
