(* ===== verification/Spec2Isabelle.thy ===== *)
theory Spec2Isabelle
  imports Ring_Buffer Text_Buffer Bootstrap Kernel_Stack Ext2_Files Sysfs Virtio_Block Hpet Pci
begin

text \<open>
  A verification development for a small x86-64 kernel written in Rust: the kernel
  crate under src/kernel and its two library crates under src/crates (bitmap-alloc
  and ring\_buffer).

  \<^bold>\<open>The program.\<close> At boot the memory map becomes a bitmap of free pages, from which the
  physical memory allocator hands out frames. Page tables are built from such frames; the kernel's
  own table is cleaned up once and then cloned for every task. Kernel stacks are slots of a region
  of that table, each with an unmapped guard page. Tasks run on these stacks; the scheduler
  switches between them when a timer interrupt or a lock asks it to. Devices are found on the PCI
  bus. Requests to a disk go through a virtqueue and are answered by an interrupt, through a channel
  that wakes the task that waits. The ext2 file system reads and writes the disk in blocks, and is
  reached, like the file system that shows the tasks, through the virtual file system. Text is kept
  in a ring buffer of lines and drawn into a framebuffer.

  \<^bold>\<open>How it is modelled.\<close> The definitions are executable functions. A Rust
  function that can panic returns an \<open>outcome\<close>: \<open>Inl\<close> with the kind of panic (a failed assertion,
  an index out of bounds, an arithmetic overflow, a division by zero, a failed `expect`), or \<open>Inr\<close> with its result.
  An access through a raw pointer that leaves its object is \<open>Inl UndefinedBehaviour\<close>, and a loop that
  does not end is \<open>Inl Diverges\<close>. A function that changes state takes the state and returns the new one. A `Result` is
  \<open>Ok\<close> or \<open>Err\<close>. Integers keep their width: `u8` to `u64` are words, `usize` is a natural number
  whose operations panic from \<open>2 ^ 64\<close> on, as they do in a debug build. `for` loops are the combinators
  \<open>for_each\<close> and \<open>for_loop\<close> of theory \<open>Prelude\<close>, which also has the facts on bits, bounds, slices and
  loops that the components share.

  What is not part of the repository is a parameter with its documented behaviour as a hypothesis:
  the address types of the x86\_64 crate (record \<open>x86_64\<close>, \<open>x86_64_spec\<close>), the mutex of the spin
  crate (\<open>spin_mutex_spec\<close>), a block device (\<open>block_driver\<close>, \<open>driver_spec\<close>), the text of a task,
  and the handlers of interrupts. Devices and other processors are the environment: what they write is
  universally quantified.

  \<^bold>\<open>Memory.\<close>

  \<^item> \<open>Page_Allocator\<close> states the contract of a page allocator as a locale: the used pages are a set, and
    allocation is first-fit. Inside it, blocks handed out are shown to be fresh and
    disjoint. \<open>Bitmap_Alloc\<close> (bitmap-alloc/src/alloc.rs) is the implementation, with its search hint,
    and interprets the locale. Its lemmas relate the chunks to the set of used pages and show that the
    search, which goes on where it was, finds exactly the first fit.
  \<^item> \<open>Bootstrap\<close> (bitmap-alloc/src/bootstrap.rs) determines which pages are free after boot, and shows that
    the space reserved for the bitmap is too small.
  \<^item> \<open>Address\<close> (memory/address.rs, page.rs, layout of mapping.rs) has kernel physical addresses, pages
    and page ranges. The fuel of \<open>collect_pages\<close> is one more than the pages of the range.
  \<^item> \<open>Phys_Mem\<close> (memory/physical.rs) is the client of the page allocator and the provider of frames:
    the locale \<open>frame_allocator\<close> is what page tables rely on, interpreted on it.
  \<^item> \<open>Page_Table\<close> (memory/page\_table.rs) defines the four-level tables in a memory of 512-word
    pages. Each walk ends because the level goes down, by the measure \<open>level_number\<close>.
    \<open>Page_Table_Proofs\<close> has the invariant, that the tables are a tree in memory, and the
    effect of a write on the walk of any address. \<open>Page_Table_Ops\<close> has the properties of mapping,
    unmapping and changing flags: the page they are called for, and no other address, is affected.
  \<^item> \<open>Kernel_Mapping\<close> (memory/mapping.rs, heap.rs) has the kernel's table, the mapping of many pages, the
    clean-up of its lower half and the sharing of its upper half by clones.
  \<^item> \<open>Kernel_Stack\<close> (sched/stack.rs) has stacks with their guard pages, over both allocators.

  \<^bold>\<open>Tasks.\<close>

  \<^item> \<open>Once_Cell\<close> (sync/once\_cell.rs, init\_cell.rs, atomic\_int.rs) has write-once cells, and the locale
    \<open>enum_code\<close> of enumerations that are stored as integers. It is interpreted on the states of tasks and
    on the types and states of block requests.
  \<^item> \<open>Context_Switch\<close> (the assembly in sched/schedcore.rs, the first frame in sched/task.rs) is a machine with
    fifteen registers, stack pointer, instruction pointer and page table base.
  \<^item> \<open>Tasks\<close> (sched/task.rs) has the tasks, and the table of all tasks as a mapping.
  \<^item> \<open>Scheduler\<close> (sched/schedcore.rs, preempt.rs, sync/wait\_cell.rs, tick.rs) has the state of all processors and
    every operation on it. \<open>Scheduler_Proofs\<close> has the invariant, a step relation of all operations of all
    processors in any order with the states it reaches, the refinement to a first-in first-out queue, and the
    bounded wait of a ready task.
  \<^item> \<open>Sync\<close> (sync/spin\_lock.rs, mutex.rs, once\_channel.rs) has locks and channels, one operation for each part
    that an interrupt or another processor can come between, and the wake-ups that are lost there. A turn of a
    waiting loop is one operation, so that no fuel is needed.

  \<^bold>\<open>Files.\<close>

  \<^item> \<open>Byte_Layout\<close> (transmute.rs) gives packed structures as fields at offsets; its locale \<open>byte_layout\<close>
    has the round trip of a structure through bytes and is interpreted on the superblock, the group descriptor,
    the inode, the directory entry and the request header.
  \<^item> \<open>Block_Device\<close> (block.rs) has buffers of blocks over a driver. \<open>Rust_Strings\<close> (strings.rs,
    fs/ext2/strings.rs) has strings in bytes.
  \<^item> \<open>Ext2_Layout\<close> and \<open>Ext2_Structures\<close> (fs/ext2/superblock.rs, block\_group.rs, inode.rs) have the structures
    of a disk and the computations on them.
  \<^item> \<open>Ext2_Directory\<close> (fs/ext2/directory.rs) has directory blocks. The fuel of \<open>scan_entries\<close> is one more than the
    bytes of the block; it is shown that a scan which runs out of it never ends.
  \<^item> \<open>Ext2_File_System\<close> (fs/ext2/file\_system.rs) has all operations of a mounted file system, \<open>Ext2_Inodes\<close>
    what they do to the inodes on the disk, \<open>Ext2_Vfs\<close> (fs/ext2/vfs.rs) the interface to the virtual file system, and
    \<open>Ext2_Files\<close> the round trip of the content of a file.
  \<^item> \<open>File_Path\<close> and \<open>Vfs\<close> (vfs/path.rs, fs.rs) have paths, their traversal and `read_all`, over the
    methods of any file system. \<open>read_all\<close> never ends on a file that never reports its end, so it has fuel; it is
    shown that one turn more than the file has chunks of 4096 bytes is enough. \<open>Sysfs\<close>
    (fs/sysfs.rs) is the file system of the tasks.

  \<^bold>\<open>Devices.\<close>

  \<^item> \<open>Ring_Buffer\<close> (ring\_buffer/src/lib.rs) interprets the locale \<open>history_buffer\<close>, a list of the newest elements; its client
    \<open>Text_Buffer\<close> (graphics/text\_buffer.rs, framebuffer.rs, the constants of font.rs) is shown to refine an
    unbounded sheet of lines and to draw inside the framebuffer.
  \<^item> \<open>Registers\<close> (registers.rs) has checked arrays in device memory, and memory as bytes. \<open>Bitfields\<close> has the fields of
    registers.
  \<^item> \<open>Virtqueue\<close> (virtio/queue.rs, the notification of virtio/config.rs) has descriptor chains and the two rings
    with their 16-bit indices; the chain iterator reads what was added, in order. \<open>Virtio_Block\<close>
    (virtio/block.rs) has requests, from the caller to the device and back through the interrupt to the channel.
  \<^item> \<open>Interrupts\<close> (interrupts.rs) has the table of handlers and the dispatch, \<open>Apic\<close> (apic.rs, ioapic.rs) the interrupt
    controllers, \<open>Hpet\<close> (hpet.rs) the clock and its periodic timers.
  \<^item> \<open>Pci\<close> (pci/location.rs, device.rs, capabilities.rs) has configuration spaces, base address registers,
    capabilities and MSI-X. The offset of a capability is a nonzero byte, so a list that ends has at most 255
    entries; it is shown that a search which runs out of the fuel 256 never ends.

  \<^bold>\<open>Not modelled.\<close>

  \<^item> Output: serial.rs, logging.rs, ansiterm.rs, debug.rs, qemu.rs, every `Debug` and `Display` instance, and the
    names of PCI devices (pci/device\_id.rs).
  \<^item> Hardware set-up without decisions of its own: gdt.rs, percpu.rs, barrier.rs, the processor tables and exception
    handlers of interrupts.rs, sched/syscall.rs, sched/userspace.rs, the negotiation of virtio/device.rs and
    features.rs, virtio/rng.rs, and the initialisation in lib.rs and main.rs.
  \<^item> Wrappers of other crates: acpi.rs, boot\_info.rs beyond the fields that memory needs, elf.rs, keyboard.rs,
    and the global allocator behind memory/heap.rs.
  \<^item> The shell (shell.rs), which calls the modelled operations, the FAT boot sector (fs/fat.rs), the test harness,
    the user programs and the earlier boot code.
  \<^item> Caches of address translation and the reordering of memory accesses by the processor: a flush or a barrier has no effect
    on the state of the model. The bitmaps of the glyphs in font.rs are a parameter of the drawing.
\<close>

end
